(* ===== verification/Mxrc_Prelude.thy ===== *)
theory Mxrc_Prelude
  imports Main "HOL-Library.Word" "HOL-Library.Multiset" "HOL-Library.Monad_Syntax"
begin

text \<open>
  Shared vocabulary of the development: the machine integers of the C++ code, the time
  stamps of its clocks, runs of an operation-by-operation model, the generic facts about
  words, lists and maps that several components use, and two interfaces.

  \<^item> \<open>step_system\<close>: a component whose operations keep an invariant. Its client lemma lifts
    the one-step law to whole runs.
  \<^item> \<open>mode_system\<close>: a component with a mode (an enum) that its operations change only along
    an allowed relation. Its client lemmas say what a run can do to the mode: it follows the
    allowed relation and never leaves a terminal mode.
\<close>

section \<open>Types of the C++ code\<close>

type_synonym u8 = "8 word"
type_synonym u16 = "16 word"
type_synonym u32 = "32 word"
type_synonym u64 = "64 word"

text \<open>A clock reading or duration in nanoseconds (\<^verbatim>\<open>time_point\<close> and \<^verbatim>\<open>duration\<close> are signed).\<close>

type_synonym time = int

text \<open>Integer division of C++ (and \<^verbatim>\<open>duration_cast\<close>): the quotient is truncated towards zero.\<close>

definition tdiv :: "int \<Rightarrow> int \<Rightarrow> int" where
  "tdiv a b = sgn a * sgn b * (\<bar>a\<bar> div \<bar>b\<bar>)"

lemma tdiv_nonneg [simp]: "0 \<le> a \<Longrightarrow> 0 < b \<Longrightarrow> tdiv a b = a div b"
  by (cases "a = 0") (simp_all add: tdiv_def)

text \<open>
  What the JSON library gives for one key of an object: the key is missing, its value does not
  convert to the requested type (the library throws), or the converted value.
\<close>

datatype 'a json_field = Absent | BadType | Present 'a

text \<open>\<^verbatim>\<open>j[key]\<close> converted to a C++ type (\<open>None\<close>: it throws) and \<^verbatim>\<open>j.value(key, default)\<close>.\<close>

fun json_get :: "'a json_field \<Rightarrow> 'a option" where
  "json_get (Present v) = Some v"
| "json_get _ = None"

fun json_value :: "'a json_field \<Rightarrow> 'a \<Rightarrow> 'a option" where
  "json_value Absent d = Some d"
| "json_value BadType d = None"
| "json_value (Present v) d = Some v"

text \<open>\<^verbatim>\<open>std::to_string\<close>.\<close>

function digits :: "nat \<Rightarrow> string" where
  "digits n = (if n < 10 then [char_of (48 + n)] else digits (n div 10) @ [char_of (48 + n mod 10)])"
  by pat_completeness auto
termination by (relation "measure id") auto

declare digits.simps [simp del]

definition to_string :: "int \<Rightarrow> string" where
  "to_string i = (if i < 0 then ''-'' @ digits (nat (- i)) else digits (nat i))"

text \<open>Decimal digits can be read back, and none of them is a separator.\<close>

definition digit_value :: "char \<Rightarrow> nat" where
  "digit_value c = of_char c - 48"

lemma digit_value_char [simp]: "n < 10 \<Longrightarrow> digit_value (char_of (48 + n)) = n"
  by (simp add: digit_value_def)

lemma digits_value: "foldl (\<lambda>n c. 10 * n + digit_value c) 0 (digits n) = n"
proof (induction n rule: digits.induct)
  case (1 n)
  then show ?case by (cases "n < 10") (simp_all add: digits.simps [of n])
qed

lemma digits_inj: "digits m = digits n \<longleftrightarrow> m = n"
  using digits_value [of m] digits_value [of n] by metis

lemma digits_chars: "c \<in> set (digits n) \<Longrightarrow> \<exists>d < 10. c = char_of (48 + d :: nat)"
proof (induction n rule: digits.induct)
  case (1 n)
  show ?case
  proof (cases "n < 10")
    case False
    then have "c \<in> set (digits (n div 10)) \<or> c = char_of (48 + n mod 10)"
      using 1(2) by (auto simp: digits.simps [of n])
    moreover have "n mod 10 < 10" by simp
    ultimately show ?thesis using 1(1) [OF False] by blast
  qed (use 1(2) in \<open>auto simp: digits.simps [of n]\<close>)
qed

named_theorems enum_order \<open>the order of the enums whose numeric values the code compares\<close>

section \<open>Runs\<close>

fun run_steps :: "('s \<Rightarrow> 'e \<Rightarrow> 's) \<Rightarrow> 's \<Rightarrow> 'e list \<Rightarrow> 's" where
  "run_steps step s [] = s"
| "run_steps step s (e # es) = run_steps step (step s e) es"

lemma run_steps_append:
  "run_steps step s (es @ fs) = run_steps step (run_steps step s es) fs"
  by (induction es arbitrary: s) auto

locale step_system =
  fixes step :: "'s \<Rightarrow> 'e \<Rightarrow> 's" and inv :: "'s \<Rightarrow> bool"
  assumes step_inv: "inv s \<Longrightarrow> inv (step s e)"
begin

lemma run_inv: "inv s \<Longrightarrow> inv (run_steps step s es)"
  by (induction es arbitrary: s) (auto intro: step_inv)

end

locale mode_system =
  fixes step :: "'s \<Rightarrow> 'e \<Rightarrow> 's" and mode :: "'s \<Rightarrow> 'm" and allowed :: "'m \<Rightarrow> 'm \<Rightarrow> bool"
  assumes step_allowed: "allowed\<^sup>*\<^sup>* (mode s) (mode (step s e))"
begin

lemma run_allowed: "allowed\<^sup>*\<^sup>* (mode s) (mode (run_steps step s es))"
proof (induction es arbitrary: s)
  case Nil
  show ?case by simp
next
  case (Cons e es)
  have "allowed\<^sup>*\<^sup>* (mode s) (mode (step s e))" by (rule step_allowed)
  also have "allowed\<^sup>*\<^sup>* (mode (step s e)) (mode (run_steps step (step s e) es))"
    by (rule Cons.IH)
  finally show ?case by simp
qed

lemma run_terminal:
  assumes "\<And>m. allowed t m \<Longrightarrow> m = t" and "mode s = t"
  shows "mode (run_steps step s es) = t"
proof -
  have "allowed\<^sup>*\<^sup>* t (mode (run_steps step s es))"
    using run_allowed [of s es] assms(2) by simp
  then show ?thesis
    by (induction rule: rtranclp_induct) (auto dest: assms(1))
qed

end

section \<open>Doubles\<close>

text \<open>Bit 63 is the sign, bits 52 to 62 the exponent; the bits below the sign of numbers with the same sign are in the
  order of their magnitudes.\<close>

definition double_magnitude :: "u64 \<Rightarrow> nat" where
  "double_magnitude d = unat d mod 2 ^ 63"

definition double_nan :: "u64 \<Rightarrow> bool" where
  "double_nan d = (2047 * 2 ^ 52 < double_magnitude d)"

definition double_rank :: "u64 \<Rightarrow> int" where
  "double_rank d = (if unat d < 2 ^ 63 then int (double_magnitude d) else - int (double_magnitude d))"

definition double_less :: "u64 \<Rightarrow> u64 \<Rightarrow> bool" where
  "double_less a b = (\<not> double_nan a \<and> \<not> double_nan b \<and> double_rank a < double_rank b)"

definition double_le :: "u64 \<Rightarrow> u64 \<Rightarrow> bool" where
  "double_le a b = (\<not> double_nan a \<and> \<not> double_nan b \<and> double_rank a \<le> double_rank b)"

section \<open>Words\<close>

lemma unat_inc_less:
  fixes x m :: "'a::len word"
  assumes "x < m"
  shows "unat (x + 1) = Suc (unat x)"
proof -
  have "x \<noteq> - 1"
    using assms word_order.extremum_strict by auto
  then have "x + 1 \<noteq> 0"
    by (metis add_diff_cancel_right' diff_0)
  then show ?thesis
    by (metis Suc_eq_plus1 add.commute unatSuc)
qed

lemma unat_inc:
  fixes x :: "'a::len word"
  assumes "Suc (unat x) < 2 ^ LENGTH('a)"
  shows "unat (x + 1) = Suc (unat x)"
  using assms by (simp add: unat_word_ariths)

lemma unat_of_nat_less:
  "n < 2 ^ LENGTH('a::len) \<Longrightarrow> unat (of_nat n :: 'a word) = n"
  by (simp add: unat_of_nat)

lemma of_nat_unat_same: "unat (w :: 'a::len word) = n \<Longrightarrow> of_nat n = w"
  by auto

section \<open>Lists\<close>

lemma sorted_map_last:
  "sorted (map f xs) \<Longrightarrow> x \<in> set xs \<Longrightarrow> f x \<le> f (last xs)"
  by (induction xs) (auto simp: last_in_set)

lemma sort_key_eq_Nil [simp]: "sort_key f xs = [] \<longleftrightarrow> xs = []"
  by (metis length_0_conv length_sort)

section \<open>Natural numbers\<close>

lemma min_Suc_diff: "n < (m::nat) \<Longrightarrow> min (Suc k) (m - n) = Suc (min k (m - Suc n))"
  by arith

end
