(* ===== verification/HA_StateMachine.thy ===== *)
theory HA_StateMachine
  imports Mxrc_Prelude
begin

text \<open>
  The high-availability state machine and its recovery policy:
  \<^verbatim>\<open>src/core/ha/HAStateMachine.{h,cpp}\<close> and \<^verbatim>\<open>src/core/ha/RecoveryPolicy.{h,cpp}\<close>.

  The machine's fields are a record; the clock reading an operation takes is an argument, and
  the two callbacks are fields. A callback is code of the caller: the transition callback's
  calls are recorded in \<open>ha_transition_calls\<close>, the recovery callback is a function from the
  action to its success, with its calls recorded in \<open>ha_action_calls\<close>. Callbacks that call
  back into the machine are not modelled. Log output is left out.

  The YAML library is not part of the repository: \<open>loadFromFile\<close> takes what the library
  returns for the file, a tree of nodes that may fail to convert.
\<close>

section \<open>Enumerations\<close>

datatype HAState = NORMAL | DEGRADED | SAFE_MODE | RECOVERY_IN_PROGRESS
  | MANUAL_INTERVENTION | SHUTDOWN

datatype FailureType = RT_PROCESS_CRASH | DEADLINE_MISS_CONSECUTIVE | ETHERCAT_COMM_FAILURE
  | SENSOR_FAILURE | MOTOR_OVERCURRENT | DATASTORE_CORRUPTION | MEMORY_EXHAUSTION | UNKNOWN

datatype RecoveryAction = RESTART_RT_PROCESS | ENTER_SAFE_MODE | NOTIFY_AND_WAIT
  | SHUTDOWN_SYSTEM | RELOAD_CONFIGURATION | NONE

fun toString_FailureType :: "FailureType \<Rightarrow> string" where
  "toString_FailureType RT_PROCESS_CRASH = ''RT_PROCESS_CRASH''"
| "toString_FailureType DEADLINE_MISS_CONSECUTIVE = ''DEADLINE_MISS_CONSECUTIVE''"
| "toString_FailureType ETHERCAT_COMM_FAILURE = ''ETHERCAT_COMM_FAILURE''"
| "toString_FailureType SENSOR_FAILURE = ''SENSOR_FAILURE''"
| "toString_FailureType MOTOR_OVERCURRENT = ''MOTOR_OVERCURRENT''"
| "toString_FailureType DATASTORE_CORRUPTION = ''DATASTORE_CORRUPTION''"
| "toString_FailureType MEMORY_EXHAUSTION = ''MEMORY_EXHAUSTION''"
| "toString_FailureType UNKNOWN = ''UNKNOWN''"

fun toString_RecoveryAction :: "RecoveryAction \<Rightarrow> string" where
  "toString_RecoveryAction RESTART_RT_PROCESS = ''RESTART_RT_PROCESS''"
| "toString_RecoveryAction ENTER_SAFE_MODE = ''ENTER_SAFE_MODE''"
| "toString_RecoveryAction NOTIFY_AND_WAIT = ''NOTIFY_AND_WAIT''"
| "toString_RecoveryAction SHUTDOWN_SYSTEM = ''SHUTDOWN_SYSTEM''"
| "toString_RecoveryAction RELOAD_CONFIGURATION = ''RELOAD_CONFIGURATION''"
| "toString_RecoveryAction NONE = ''NONE''"

section \<open>The machine\<close>

record ha_machine =
  ha_current :: HAState
  ha_previous :: HAState
  ha_policies :: "FailureType \<rightharpoonup> RecoveryAction"
  ha_attempts :: u32
  ha_max_attempts :: u32
  ha_entered_at :: time
  ha_transition_cb :: bool
  ha_recovery_cb :: "(RecoveryAction \<Rightarrow> bool) option"
  ha_transition_calls :: "(HAState \<times> HAState \<times> FailureType) list"
  ha_action_calls :: "RecoveryAction list"

definition HAStateMachine :: "time \<Rightarrow> u32 \<Rightarrow> ha_machine" where
  "HAStateMachine now max_recovery_attempts =
    \<lparr> ha_current = NORMAL, ha_previous = NORMAL, ha_policies = Map.empty, ha_attempts = 0,
      ha_max_attempts = max_recovery_attempts, ha_entered_at = now, ha_transition_cb = False,
      ha_recovery_cb = None, ha_transition_calls = [], ha_action_calls = [] \<rparr>"

definition setRecoveryPolicies ::
    "(FailureType \<rightharpoonup> RecoveryAction) \<Rightarrow> ha_machine \<Rightarrow> ha_machine" where
  "setRecoveryPolicies policies s = s\<lparr>ha_policies := policies\<rparr>"

definition registerStateTransitionCallback :: "bool \<Rightarrow> ha_machine \<Rightarrow> ha_machine" where
  "registerStateTransitionCallback cb s = s\<lparr>ha_transition_cb := cb\<rparr>"

definition registerRecoveryActionCallback ::
    "(RecoveryAction \<Rightarrow> bool) option \<Rightarrow> ha_machine \<Rightarrow> ha_machine" where
  "registerRecoveryActionCallback cb s = s\<lparr>ha_recovery_cb := cb\<rparr>"

definition isValidTransition_HA :: "HAState \<Rightarrow> HAState \<Rightarrow> bool" where
  "isValidTransition_HA from to =
    (if from = to then True
     else case from of
       NORMAL \<Rightarrow> to = DEGRADED \<or> to = RECOVERY_IN_PROGRESS \<or> to = SAFE_MODE \<or> to = SHUTDOWN
     | DEGRADED \<Rightarrow> to = NORMAL \<or> to = RECOVERY_IN_PROGRESS \<or> to = SHUTDOWN
     | SAFE_MODE \<Rightarrow> to = RECOVERY_IN_PROGRESS \<or> to = MANUAL_INTERVENTION \<or> to = SHUTDOWN
     | RECOVERY_IN_PROGRESS \<Rightarrow>
         to = NORMAL \<or> to = SAFE_MODE \<or> to = MANUAL_INTERVENTION \<or> to = SHUTDOWN
     | MANUAL_INTERVENTION \<Rightarrow> to = NORMAL \<or> to = SHUTDOWN
     | SHUTDOWN \<Rightarrow> False)"

definition transitionTo_HA :: "time \<Rightarrow> HAState \<Rightarrow> ha_machine \<Rightarrow> bool \<times> ha_machine" where
  "transitionTo_HA now new_state s =
    (let current = ha_current s in
     if \<not> isValidTransition_HA current new_state then (False, s)
     else (True, s\<lparr>ha_previous := current, ha_current := new_state, ha_entered_at := now,
                  ha_transition_calls := ha_transition_calls s @
                    (if ha_transition_cb s then [(current, new_state, UNKNOWN)] else [])\<rparr>))"

definition reportRecoverySuccess :: "time \<Rightarrow> ha_machine \<Rightarrow> bool \<times> ha_machine" where
  "reportRecoverySuccess now s = transitionTo_HA now NORMAL (s\<lparr>ha_attempts := 0\<rparr>)"

definition reportRecoveryFailure :: "time \<Rightarrow> ha_machine \<Rightarrow> bool \<times> ha_machine" where
  "reportRecoveryFailure now s =
    (let attempts = ha_attempts s + 1;
         s1 = s\<lparr>ha_attempts := attempts\<rparr> in
     if ha_max_attempts s \<le> attempts
     then transitionTo_HA now MANUAL_INTERVENTION (s1\<lparr>ha_attempts := 0\<rparr>)
     else (True, s1))"

definition executeRecoveryAction :: "RecoveryAction \<Rightarrow> ha_machine \<Rightarrow> bool \<times> ha_machine" where
  "executeRecoveryAction action s =
    (case ha_recovery_cb s of
       None \<Rightarrow> (False, s)
     | Some cb \<Rightarrow> (cb action, s\<lparr>ha_action_calls := ha_action_calls s @ [action]\<rparr>))"

definition determineTargetState :: "FailureType \<Rightarrow> RecoveryAction \<Rightarrow> HAState" where
  "determineTargetState failure_type action =
    (if failure_type = DEADLINE_MISS_CONSECUTIVE \<or> failure_type = ETHERCAT_COMM_FAILURE
        \<or> failure_type = MOTOR_OVERCURRENT
     then SAFE_MODE
     else case action of
       ENTER_SAFE_MODE \<Rightarrow> SAFE_MODE
     | RESTART_RT_PROCESS \<Rightarrow> RECOVERY_IN_PROGRESS
     | RELOAD_CONFIGURATION \<Rightarrow> RECOVERY_IN_PROGRESS
     | NOTIFY_AND_WAIT \<Rightarrow> MANUAL_INTERVENTION
     | SHUTDOWN_SYSTEM \<Rightarrow> SHUTDOWN
     | NONE \<Rightarrow> DEGRADED)"

definition handleFailure :: "time \<Rightarrow> FailureType \<Rightarrow> ha_machine \<Rightarrow> bool \<times> ha_machine" where
  "handleFailure now failure_type s =
    (case ha_policies s failure_type of
       None \<Rightarrow> (False, s)
     | Some action \<Rightarrow>
         (case executeRecoveryAction action s of
            (False, s1) \<Rightarrow> reportRecoveryFailure now s1
          | (True, s1) \<Rightarrow> transitionTo_HA now (determineTargetState failure_type action) s1))"

text \<open>\<^verbatim>\<open>duration_cast<milliseconds>\<close> of the steady clock's difference (never negative).\<close>

definition getTimeInCurrentState :: "time \<Rightarrow> ha_machine \<Rightarrow> int" where
  "getTimeInCurrentState now s = (now - ha_entered_at s) div 1000000"

text \<open>The public operations as one alphabet.\<close>

datatype ha_op =
    SetRecoveryPolicies "FailureType \<rightharpoonup> RecoveryAction"
  | RegisterTransitionCb bool
  | RegisterRecoveryCb "(RecoveryAction \<Rightarrow> bool) option"
  | HandleFailure time FailureType
  | TransitionTo time HAState
  | ReportRecoverySuccess time
  | ReportRecoveryFailure time

fun ha_step :: "ha_machine \<Rightarrow> ha_op \<Rightarrow> ha_machine" where
  "ha_step s (SetRecoveryPolicies p) = setRecoveryPolicies p s"
| "ha_step s (RegisterTransitionCb cb) = registerStateTransitionCallback cb s"
| "ha_step s (RegisterRecoveryCb cb) = registerRecoveryActionCallback cb s"
| "ha_step s (HandleFailure now f) = snd (handleFailure now f s)"
| "ha_step s (TransitionTo now st) = snd (transitionTo_HA now st s)"
| "ha_step s (ReportRecoverySuccess now) = snd (reportRecoverySuccess now s)"
| "ha_step s (ReportRecoveryFailure now) = snd (reportRecoveryFailure now s)"

section \<open>The recovery policy\<close>

record recovery_policy =
  rp_policies :: "FailureType \<rightharpoonup> RecoveryAction"
  rp_max_attempts :: u32

definition RecoveryPolicy :: recovery_policy where
  "RecoveryPolicy = \<lparr>rp_policies = Map.empty, rp_max_attempts = 3\<rparr>"

definition all_failure_types :: "FailureType list" where
  "all_failure_types = [RT_PROCESS_CRASH, DEADLINE_MISS_CONSECUTIVE, ETHERCAT_COMM_FAILURE,
     SENSOR_FAILURE, MOTOR_OVERCURRENT, DATASTORE_CORRUPTION, MEMORY_EXHAUSTION, UNKNOWN]"

definition isComplete :: "recovery_policy \<Rightarrow> bool" where
  "isComplete p = list_all (\<lambda>type. rp_policies p type \<noteq> None) all_failure_types"

definition getDefaultPolicies :: "FailureType \<rightharpoonup> RecoveryAction" where
  "getDefaultPolicies =
    [RT_PROCESS_CRASH \<mapsto> RESTART_RT_PROCESS,
     DEADLINE_MISS_CONSECUTIVE \<mapsto> ENTER_SAFE_MODE,
     ETHERCAT_COMM_FAILURE \<mapsto> ENTER_SAFE_MODE,
     SENSOR_FAILURE \<mapsto> NOTIFY_AND_WAIT,
     MOTOR_OVERCURRENT \<mapsto> ENTER_SAFE_MODE,
     DATASTORE_CORRUPTION \<mapsto> NOTIFY_AND_WAIT,
     MEMORY_EXHAUSTION \<mapsto> SHUTDOWN_SYSTEM,
     UNKNOWN \<mapsto> NOTIFY_AND_WAIT]"

definition parseFailureType :: "string \<Rightarrow> FailureType" where
  "parseFailureType type_str =
    (if type_str = ''RT_PROCESS_CRASH'' then RT_PROCESS_CRASH
     else if type_str = ''DEADLINE_MISS_CONSECUTIVE'' then DEADLINE_MISS_CONSECUTIVE
     else if type_str = ''ETHERCAT_COMM_FAILURE'' then ETHERCAT_COMM_FAILURE
     else if type_str = ''SENSOR_FAILURE'' then SENSOR_FAILURE
     else if type_str = ''MOTOR_OVERCURRENT'' then MOTOR_OVERCURRENT
     else if type_str = ''DATASTORE_CORRUPTION'' then DATASTORE_CORRUPTION
     else if type_str = ''MEMORY_EXHAUSTION'' then MEMORY_EXHAUSTION
     else if type_str = ''UNKNOWN'' then UNKNOWN
     else UNKNOWN)"

definition parseRecoveryAction :: "string \<Rightarrow> RecoveryAction" where
  "parseRecoveryAction action_str =
    (if action_str = ''RESTART_RT_PROCESS'' then RESTART_RT_PROCESS
     else if action_str = ''ENTER_SAFE_MODE'' then ENTER_SAFE_MODE
     else if action_str = ''NOTIFY_AND_WAIT'' then NOTIFY_AND_WAIT
     else if action_str = ''SHUTDOWN_SYSTEM'' then SHUTDOWN_SYSTEM
     else if action_str = ''RELOAD_CONFIGURATION'' then RELOAD_CONFIGURATION
     else if action_str = ''NONE'' then NONE
     else NOTIFY_AND_WAIT)"

text \<open>
  What the YAML library returns for the file: \<open>None\<close> when loading it throws; otherwise the
  \<^verbatim>\<open>max_recovery_attempts\<close> node (absent, or its conversion to \<^verbatim>\<open>uint32_t\<close>, \<open>None\<close> when that
  throws) and the \<^verbatim>\<open>policies\<close> node (absent, or its entries in order, a key or a value that does
  not convert to a string being \<open>None\<close>).
\<close>

record yaml_policy =
  yaml_max_attempts :: "u32 option option"
  yaml_policies :: "(string option \<times> string option) list option"

text \<open>The loop over the entries: \<open>False\<close> when a conversion throws, with the entries stored so far.\<close>

fun load_policy_entries :: "(string option \<times> string option) list \<Rightarrow>
    (FailureType \<rightharpoonup> RecoveryAction) \<Rightarrow> bool \<times> (FailureType \<rightharpoonup> RecoveryAction)" where
  "load_policy_entries [] m = (True, m)"
| "load_policy_entries ((Some ft, Some ac) # es) m =
     load_policy_entries es (m(parseFailureType ft \<mapsto> parseRecoveryAction ac))"
| "load_policy_entries (_ # es) m = (False, m)"

definition loadFromFile :: "yaml_policy option \<Rightarrow> recovery_policy \<Rightarrow> bool \<times> recovery_policy" where
  "loadFromFile file p =
    (case file of
       None \<Rightarrow> (False, p)
     | Some config \<Rightarrow>
         (case yaml_max_attempts config of
            Some None \<Rightarrow> (False, p)
          | mx \<Rightarrow>
              (let p1 = (case mx of Some (Some n) \<Rightarrow> p\<lparr>rp_max_attempts := n\<rparr> | _ \<Rightarrow> p) in
               case yaml_policies config of
                 None \<Rightarrow> (True, p1)
               | Some es \<Rightarrow>
                   (case load_policy_entries es (rp_policies p1) of
                      (ok, m) \<Rightarrow> (ok, p1\<lparr>rp_policies := m\<rparr>)))))"

section \<open>Lemmas\<close>

lemmas ha_state_splits = HAState.splits

lemma isValidTransition_HA_refl [simp]: "isValidTransition_HA m m"
  by (simp add: isValidTransition_HA_def)

lemma SHUTDOWN_terminal: "isValidTransition_HA SHUTDOWN m \<Longrightarrow> m = SHUTDOWN"
  by (auto simp: isValidTransition_HA_def split: if_splits)

lemma SAFE_MODE_sources: "isValidTransition_HA m SAFE_MODE \<longleftrightarrow>
    m = NORMAL \<or> m = RECOVERY_IN_PROGRESS \<or> m = SAFE_MODE"
  by (cases m) (auto simp: isValidTransition_HA_def)

lemma MANUAL_INTERVENTION_sources: "isValidTransition_HA m MANUAL_INTERVENTION \<longleftrightarrow>
    m = SAFE_MODE \<or> m = RECOVERY_IN_PROGRESS \<or> m = MANUAL_INTERVENTION"
  by (cases m) (auto simp: isValidTransition_HA_def)

text \<open>What each helper leaves alone.\<close>

lemma executeRecoveryAction_frame [simp]:
  "ha_current (snd (executeRecoveryAction a s)) = ha_current s"
  "ha_attempts (snd (executeRecoveryAction a s)) = ha_attempts s"
  "ha_max_attempts (snd (executeRecoveryAction a s)) = ha_max_attempts s"
  by (simp_all add: executeRecoveryAction_def split: option.split)

lemma transitionTo_HA_frame [simp]:
  "ha_attempts (snd (transitionTo_HA now st s)) = ha_attempts s"
  "ha_max_attempts (snd (transitionTo_HA now st s)) = ha_max_attempts s"
  by (simp_all add: transitionTo_HA_def Let_def)

lemma transitionTo_HA_current:
  "ha_current (snd (transitionTo_HA now st s)) =
     (if isValidTransition_HA (ha_current s) st then st else ha_current s)"
  by (simp add: transitionTo_HA_def Let_def)

lemma transitionTo_HA_result:
  "fst (transitionTo_HA now st s) = isValidTransition_HA (ha_current s) st"
  by (simp add: transitionTo_HA_def Let_def)

lemma transitionTo_HA_allowed:
  "isValidTransition_HA (ha_current s) (ha_current (snd (transitionTo_HA now st s)))"
  by (simp add: transitionTo_HA_current)

lemma reportRecoveryFailure_allowed:
  "isValidTransition_HA (ha_current s) (ha_current (snd (reportRecoveryFailure now s)))"
  using transitionTo_HA_allowed [of "s\<lparr>ha_attempts := 0\<rparr>"]
  by (simp add: reportRecoveryFailure_def Let_def)

lemma handleFailure_cases:
  obtains (no_policy) "ha_policies s f = None" "handleFailure now f s = (False, s)"
  | (action_failed) a where "ha_policies s f = Some a" "\<not> fst (executeRecoveryAction a s)"
      "handleFailure now f s = reportRecoveryFailure now (snd (executeRecoveryAction a s))"
  | (action_done) a where "ha_policies s f = Some a" "fst (executeRecoveryAction a s)"
      "handleFailure now f s =
         transitionTo_HA now (determineTargetState f a) (snd (executeRecoveryAction a s))"
  by (cases "ha_policies s f"; cases "executeRecoveryAction (the (ha_policies s f)) s")
     (auto simp: handleFailure_def split: bool.splits)

lemma handleFailure_allowed:
  "isValidTransition_HA (ha_current s) (ha_current (snd (handleFailure now f s)))"
proof (cases rule: handleFailure_cases [of s f now])
  case no_policy
  then show ?thesis by simp
next
  case (action_failed a)
  then show ?thesis
    using reportRecoveryFailure_allowed [of "snd (executeRecoveryAction a s)" now] by simp
next
  case (action_done a)
  then show ?thesis
    using transitionTo_HA_allowed [of "snd (executeRecoveryAction a s)"] by simp
qed

lemma ha_step_allowed: "isValidTransition_HA (ha_current s) (ha_current (ha_step s e))"
proof (cases e)
  case (ReportRecoverySuccess now)
  then show ?thesis
    using transitionTo_HA_allowed [of "s\<lparr>ha_attempts := 0\<rparr>"]
    by (simp add: reportRecoverySuccess_def)
qed (simp_all add: setRecoveryPolicies_def registerStateTransitionCallback_def
       registerRecoveryActionCallback_def handleFailure_allowed transitionTo_HA_allowed
       reportRecoveryFailure_allowed)

interpretation ha: mode_system ha_step ha_current isValidTransition_HA
  by unfold_locales (blast intro: ha_step_allowed)

text \<open>The attempt counter never rests at or above the limit.\<close>

definition ha_attempts_ok :: "ha_machine \<Rightarrow> bool" where
  "ha_attempts_ok s \<longleftrightarrow> ha_attempts s = 0 \<or> ha_attempts s < ha_max_attempts s"

lemma reportRecoveryFailure_attempts_ok:
  "ha_attempts_ok (snd (reportRecoveryFailure now s))"
  by (auto simp: reportRecoveryFailure_def ha_attempts_ok_def Let_def)

lemma handleFailure_attempts_ok:
  assumes "ha_attempts_ok s"
  shows "ha_attempts_ok (snd (handleFailure now f s))"
proof (cases rule: handleFailure_cases [of s f now])
  case no_policy
  with assms show ?thesis by simp
next
  case (action_failed a)
  then show ?thesis by (simp add: reportRecoveryFailure_attempts_ok)
next
  case (action_done a)
  with assms show ?thesis by (simp add: ha_attempts_ok_def)
qed

lemma ha_step_attempts_ok: "ha_attempts_ok s \<Longrightarrow> ha_attempts_ok (ha_step s e)"
  by (cases e)
     (simp_all add: handleFailure_attempts_ok reportRecoveryFailure_attempts_ok,
      simp_all add: ha_attempts_ok_def setRecoveryPolicies_def reportRecoverySuccess_def
       registerStateTransitionCallback_def registerRecoveryActionCallback_def)

interpretation ha_counter: step_system ha_step ha_attempts_ok
  by unfold_locales (rule ha_step_attempts_ok)

lemma ha_step_max_attempts [simp]: "ha_max_attempts (ha_step s e) = ha_max_attempts s"
proof (cases e)
  case (HandleFailure now f)
  then show ?thesis
    by (cases rule: handleFailure_cases [of s f now])
       (simp_all add: reportRecoveryFailure_def Let_def)
qed (simp_all add: setRecoveryPolicies_def reportRecoverySuccess_def reportRecoveryFailure_def
       registerStateTransitionCallback_def registerRecoveryActionCallback_def Let_def)

lemma run_max_attempts: "ha_max_attempts (run_steps ha_step s es) = ha_max_attempts s"
  by (induction es arbitrary: s) auto

section \<open>Properties\<close>



text \<open>The recovery-attempt counter of a machine that starts fresh is zero or below the
  configured maximum after any operations, and the maximum never changes: the counter cannot
  pass the limit unnoticed, whatever its 32-bit arithmetic does.\<close>

theorem ha_attempts_bounded:
  "let s = run_steps ha_step (HAStateMachine now mx) ops in
     (ha_attempts s = 0 \<or> ha_attempts s < mx) \<and> ha_max_attempts s = mx"
proof -
  have "ha_attempts_ok (run_steps ha_step (HAStateMachine now mx) ops)"
    by (rule ha_counter.run_inv) (simp add: ha_attempts_ok_def HAStateMachine_def)
  then show ?thesis
    by (simp add: ha_attempts_ok_def run_max_attempts HAStateMachine_def Let_def)
qed

text \<open>A run of failed recovery attempts, from a state in which recovery is in progress.\<close>

lemma reportRecoveryFailure_below:
  assumes "Suc (unat (ha_attempts s)) < unat (ha_max_attempts s)"
  shows "reportRecoveryFailure now s = (True, s\<lparr>ha_attempts := ha_attempts s + 1\<rparr>)"
    and "unat (ha_attempts s + 1) = Suc (unat (ha_attempts s))"
proof -
  have "ha_attempts s < ha_max_attempts s"
    using assms by (simp add: word_less_nat_alt)
  then show inc: "unat (ha_attempts s + 1) = Suc (unat (ha_attempts s))"
    by (rule unat_inc_less)
  then show "reportRecoveryFailure now s = (True, s\<lparr>ha_attempts := ha_attempts s + 1\<rparr>)"
    using assms by (simp add: reportRecoveryFailure_def Let_def word_le_nat_alt)
qed

lemma run_failures_below:
  assumes "unat (ha_attempts s) + length ts < unat (ha_max_attempts s)"
  shows "let s' = run_steps ha_step s (map ReportRecoveryFailure ts) in
     ha_current s' = ha_current s \<and> unat (ha_attempts s') = unat (ha_attempts s) + length ts"
  using assms
proof (induction ts arbitrary: s)
  case Nil
  then show ?case by simp
next
  case (Cons t ts)
  have below: "Suc (unat (ha_attempts s)) < unat (ha_max_attempts s)"
    using Cons.prems by simp
  note step = reportRecoveryFailure_below [OF below]
  show ?case
    using Cons.IH [of "s\<lparr>ha_attempts := ha_attempts s + 1\<rparr>"] Cons.prems step
    by (simp add: Let_def)
qed

lemma reportRecoveryFailure_last:
  assumes "Suc (unat (ha_attempts s)) = unat (ha_max_attempts s)"
  shows "reportRecoveryFailure now s = transitionTo_HA now MANUAL_INTERVENTION (s\<lparr>ha_attempts := 0\<rparr>)"
proof -
  have "ha_attempts s < ha_max_attempts s"
    using assms by (simp add: word_less_nat_alt)
  then have "ha_max_attempts s \<le> ha_attempts s + 1"
    using assms by (simp add: word_le_nat_alt unat_inc_less)
  then show ?thesis by (simp add: reportRecoveryFailure_def Let_def)
qed

text \<open>Escalation after repeated recovery failures: while recovery is in progress, fewer
  reported failures than the maximum leave the state alone and are counted exactly; the report
  that reaches the maximum moves the machine to MANUAL_INTERVENTION and resets the counter.\<close>

theorem recovery_escalation:
  assumes "ha_current s = RECOVERY_IN_PROGRESS" and "ha_attempts s = 0"
    and "Suc (length ts) \<le> unat (ha_max_attempts s)"
  shows "let s1 = run_steps ha_step s (map ReportRecoveryFailure ts);
             s2 = ha_step s1 (ReportRecoveryFailure t) in
     ha_current s1 = RECOVERY_IN_PROGRESS \<and> unat (ha_attempts s1) = length ts \<and>
     (Suc (length ts) = unat (ha_max_attempts s) \<longrightarrow>
        ha_current s2 = MANUAL_INTERVENTION \<and> ha_attempts s2 = 0)"
proof -
  define s1 where "s1 = run_steps ha_step s (map ReportRecoveryFailure ts)"
  have cur: "ha_current s1 = RECOVERY_IN_PROGRESS" and att: "unat (ha_attempts s1) = length ts"
    using run_failures_below [of s ts] assms by (simp_all add: Let_def s1_def)
  have "reportRecoveryFailure t s1 =
      transitionTo_HA t MANUAL_INTERVENTION (s1\<lparr>ha_attempts := 0\<rparr>)"
    if "Suc (length ts) = unat (ha_max_attempts s)"
    by (rule reportRecoveryFailure_last) (use att that in \<open>simp add: s1_def run_max_attempts\<close>)
  with cur att show ?thesis
    by (simp add: s1_def [symmetric] Let_def transitionTo_HA_current MANUAL_INTERVENTION_sources)
qed

theorem recovery_escalation_witness:
  "let s1 = run_steps ha_step (snd (transitionTo_HA 0 RECOVERY_IN_PROGRESS (HAStateMachine 0 3)))
              (map ReportRecoveryFailure [1, 2]) in
     ha_current s1 = RECOVERY_IN_PROGRESS \<and> unat (ha_attempts s1) = 2 \<and>
     ha_current (ha_step s1 (ReportRecoveryFailure 3)) = MANUAL_INTERVENTION"
proof -
  let ?s = "snd (transitionTo_HA 0 RECOVERY_IN_PROGRESS (HAStateMachine 0 3))"
  have h: "ha_current ?s = RECOVERY_IN_PROGRESS" "ha_attempts ?s = 0"
    "Suc (length [1, 2 :: int]) \<le> unat (ha_max_attempts ?s)"
    by (simp_all add: HAStateMachine_def transitionTo_HA_def isValidTransition_HA_def)
  have "Suc (length [1, 2 :: int]) = unat (ha_max_attempts ?s)"
    by (simp add: HAStateMachine_def)
  with recovery_escalation [OF h, of 3] show ?thesis
    by (simp only: Let_def list.size) simp
qed

text \<open>A critical failure (missed deadlines, EtherCAT communication, motor overcurrent) whose
  recovery action succeeds puts the machine in SAFE_MODE exactly when it was in NORMAL,
  RECOVERY_IN_PROGRESS or SAFE_MODE. From DEGRADED, MANUAL_INTERVENTION or SHUTDOWN the recovery
  action has been run, the call returns false and the state is unchanged.\<close>

theorem critical_failure_outcome:
  assumes "f \<in> {DEADLINE_MISS_CONSECUTIVE, ETHERCAT_COMM_FAILURE, MOTOR_OVERCURRENT}"
    and "ha_policies s f = Some a" and "ha_recovery_cb s = Some cb" and "cb a"
  shows "let r = handleFailure now f s in
     fst r = (ha_current s \<in> {NORMAL, RECOVERY_IN_PROGRESS, SAFE_MODE}) \<and>
     ha_current (snd r) = (if fst r then SAFE_MODE else ha_current s) \<and>
     ha_action_calls (snd r) = ha_action_calls s @ [a]"
proof -
  have target: "determineTargetState f a = SAFE_MODE"
    using assms(1) by (auto simp: determineTargetState_def)
  have "handleFailure now f s =
      transitionTo_HA now SAFE_MODE (s\<lparr>ha_action_calls := ha_action_calls s @ [a]\<rparr>)"
    using assms(2-4) target by (simp add: handleFailure_def executeRecoveryAction_def)
  then show ?thesis
    by (auto simp: transitionTo_HA_def SAFE_MODE_sources Let_def)
qed

theorem critical_failure_outcome_witness:
  "let s = (HAStateMachine 0 3)\<lparr>ha_current := DEGRADED, ha_policies := getDefaultPolicies,
             ha_recovery_cb := Some (\<lambda>_. True)\<rparr>;
       r = handleFailure 1 MOTOR_OVERCURRENT s in
   \<not> fst r \<and> ha_current (snd r) = DEGRADED \<and> ha_action_calls (snd r) = [ENTER_SAFE_MODE]"
proof -
  let ?s = "(HAStateMachine 0 3)\<lparr>ha_current := DEGRADED, ha_policies := getDefaultPolicies,
             ha_recovery_cb := Some (\<lambda>_. True)\<rparr>"
  have h: "ha_policies ?s MOTOR_OVERCURRENT = Some ENTER_SAFE_MODE"
    "ha_recovery_cb ?s = Some (\<lambda>_. True)"
    by (simp_all add: getDefaultPolicies_def)
  from critical_failure_outcome [OF _ h, of 1] show ?thesis
    by (simp add: Let_def HAStateMachine_def)
qed

text \<open>With the default policies and an accepting recovery callback, a failure reported in
  NORMAL is handled (true, the target state entered) for every failure type but the three whose
  action is NOTIFY_AND_WAIT: their target MANUAL_INTERVENTION is not reachable from NORMAL, so
  the call returns false and the machine stays NORMAL after the operator was notified.\<close>

theorem default_policy_from_normal:
  assumes "ha_current s = NORMAL" and "ha_policies s = getDefaultPolicies"
    and "ha_recovery_cb s = Some (\<lambda>_. True)"
  shows "let r = handleFailure now f s in
     fst r = (f \<notin> {SENSOR_FAILURE, DATASTORE_CORRUPTION, UNKNOWN}) \<and>
     (fst r \<longrightarrow> ha_current (snd r) \<noteq> NORMAL \<and> ha_previous (snd r) = NORMAL) \<and>
     (\<not> fst r \<longrightarrow> ha_current (snd r) = NORMAL \<and>
        ha_action_calls (snd r) = ha_action_calls s @ [NOTIFY_AND_WAIT])"
  using assms
  by (cases f) (simp_all add: handleFailure_def getDefaultPolicies_def executeRecoveryAction_def
      determineTargetState_def transitionTo_HA_def isValidTransition_HA_def)

theorem default_policy_from_normal_witness:
  "let s = (HAStateMachine 0 3)\<lparr>ha_policies := getDefaultPolicies,
             ha_recovery_cb := Some (\<lambda>_. True)\<rparr> in
   \<not> fst (handleFailure 1 SENSOR_FAILURE s) \<and> fst (handleFailure 1 RT_PROCESS_CRASH s)"
  using default_policy_from_normal
      [of "(HAStateMachine 0 3)\<lparr>ha_policies := getDefaultPolicies,
             ha_recovery_cb := Some (\<lambda>_. True)\<rparr>" 1 SENSOR_FAILURE]
    default_policy_from_normal
      [of "(HAStateMachine 0 3)\<lparr>ha_policies := getDefaultPolicies,
             ha_recovery_cb := Some (\<lambda>_. True)\<rparr>" 1 RT_PROCESS_CRASH]
  by (simp add: HAStateMachine_def Let_def)

section \<open>Lemmas on the recovery policy\<close>

lemma parse_toString_FailureType [simp]: "parseFailureType (toString_FailureType f) = f"
  by (cases f) (simp_all add: parseFailureType_def)

lemma parse_toString_RecoveryAction [simp]: "parseRecoveryAction (toString_RecoveryAction a) = a"
  by (cases a) (simp_all add: parseRecoveryAction_def)

lemma set_all_failure_types: "set all_failure_types = UNIV"
proof -
  have "f \<in> set all_failure_types" for f
    by (cases f) (simp_all add: all_failure_types_def)
  then show ?thesis by blast
qed

lemma isComplete_iff: "isComplete p \<longleftrightarrow> (\<forall>f. rp_policies p f \<noteq> None)"
  by (simp add: isComplete_def list_all_iff set_all_failure_types)

definition yaml_entry :: "FailureType \<times> RecoveryAction \<Rightarrow> string option \<times> string option" where
  "yaml_entry e = (Some (toString_FailureType (fst e)), Some (toString_RecoveryAction (snd e)))"

lemma load_policy_entries_written:
  "load_policy_entries (map yaml_entry es) m = (True, m ++ map_of (rev es))"
  by (induction es arbitrary: m) (auto simp: yaml_entry_def map_add_def fun_eq_iff split: option.split)

text \<open>A policy file that lists the names \<^verbatim>\<open>toString\<close> prints is read back as exactly those
  pairs, later entries overriding earlier ones, and it makes the policy complete if and only if
  every failure type that had no action before is listed.\<close>

theorem policy_file_roundtrip:
  "let r = loadFromFile (Some \<lparr>yaml_max_attempts = Some (Some n),
                              yaml_policies = Some (map yaml_entry es)\<rparr>) p in
     fst r \<and> rp_max_attempts (snd r) = n \<and> rp_policies (snd r) = rp_policies p ++ map_of (rev es) \<and>
     isComplete (snd r) = (dom (rp_policies p) \<union> fst ` set es = UNIV)"
proof -
  have dom: "(\<exists>a. (rp_policies p ++ map_of (rev es)) f = Some a) \<longleftrightarrow>
      (\<exists>a. rp_policies p f = Some a) \<or> f \<in> fst ` set es" for f
  proof -
    have "f \<in> dom (map_of (rev es)) \<longleftrightarrow> f \<in> fst ` set es"
      by (simp add: dom_map_of_conv_image_fst)
    then show ?thesis by (auto simp: map_add_def dom_def split: option.splits)
  qed
  show ?thesis
    by (simp add: loadFromFile_def load_policy_entries_written isComplete_iff Let_def dom)
       (auto simp: set_eq_iff dom_def)
qed

end
