(* ===== verification/HA_Checkpoint.thy ===== *)
theory HA_Checkpoint
  imports Mxrc_Prelude "HOL-Library.AList"
begin

text \<open>
  Checkpoint storage: \<^verbatim>\<open>src/core/ha/StateCheckpoint.{h,cpp}\<close>, the class
  \<^verbatim>\<open>StateCheckpointManager\<close> behind the interface \<^verbatim>\<open>IStateCheckpoint\<close>.

  The checkpoint directory is an association list from checkpoint ids to the file's last write
  time and its JSON document, in the order the directory iterator yields it (unspecified in C++,
  so arbitrary here); only the regular \<^verbatim>\<open>.json\<close> files, the ones the code looks at, are in it.
  JSON values of the process state are the library's, the type parameter \<open>'j\<close>; a missing key
  reads as the library's null value. A document is \<open>None\<close> when it cannot be opened or parsed, so
  that reading it throws. The ISO text of a time stamp stands for the calendar second it
  denotes; \<^verbatim>\<open>mktime\<close> reads it in local time, \<open>tz\<close> nanoseconds ahead of UTC. Which files can be
  written or removed is the environment's, an argument of the operations.
\<close>

section \<open>Checkpoint ids\<close>

definition hex_chars :: string where
  "hex_chars = ''0123456789abcdef''"

text \<open>The loop from index \<open>i\<close>; \<open>draws\<close> are the results of \<^verbatim>\<open>dis(gen)\<close>, each at most 15
  (a call uses 31 of them: index 12 draws none).\<close>

function checkpointId_from :: "nat \<Rightarrow> nat list \<Rightarrow> string" where
  "checkpointId_from i draws =
    (if 32 \<le> i then []
     else (if i = 8 \<or> i = 12 \<or> i = 16 \<or> i = 20 then ''-'' else []) @
       (if i = 12 then CHR ''4'' # checkpointId_from (Suc i) draws
        else case draws of
          [] \<Rightarrow> []
        | d # ds \<Rightarrow>
            (if i = 16 then hex_chars ! (or (and d 3) 8) else hex_chars ! d)
              # checkpointId_from (Suc i) ds))"
  by pat_completeness auto
termination
  by (relation "measure (\<lambda>(i, draws). 32 - i)") auto

declare checkpointId_from.simps [simp del]

definition generateCheckpointId :: "nat list \<Rightarrow> string" where
  "generateCheckpointId draws = checkpointId_from 0 draws"

section \<open>Checkpoints and their files\<close>

record 'j checkpoint =
  ck_id :: string
  ck_process :: string
  ck_timestamp :: time
  ck_rt_state :: 'j
  ck_datastore :: 'j
  ck_queue :: "string list"
  ck_size :: u64
  ck_complete :: bool
  ck_path :: string

record 'j ckpt_doc =
  doc_id :: "string json_field"
  doc_process :: "string json_field"
  doc_second :: "int json_field"
  doc_rt_state :: 'j
  doc_datastore :: 'j
  doc_queue :: "string list json_field"
  doc_size :: "u64 json_field"
  doc_complete :: "bool json_field"

record 'j cp_store =
  cp_process :: string
  cp_max :: nat
  cp_files :: "(string \<times> time \<times> 'j ckpt_doc option) list"

definition createCheckpoint :: "nat list \<Rightarrow> time \<Rightarrow> 'j \<Rightarrow> 'j cp_store \<Rightarrow> 'j checkpoint" where
  "createCheckpoint draws now null st =
    (let i = generateCheckpointId draws in
     \<lparr>ck_id = i, ck_process = cp_process st, ck_timestamp = now, ck_rt_state = null,
      ck_datastore = null, ck_queue = [], ck_size = 0, ck_complete = False, ck_path = i\<rparr>)"

text \<open>\<open>None\<close> when the code throws.\<close>

definition loadCheckpoint :: "time \<Rightarrow> 'j cp_store \<Rightarrow> string \<Rightarrow> 'j checkpoint option" where
  "loadCheckpoint tz st checkpoint_id = do {
     (t, content) \<leftarrow> map_of (cp_files st) checkpoint_id;
     j \<leftarrow> content;
     i \<leftarrow> json_get (doc_id j);
     p \<leftarrow> json_get (doc_process j);
     sec \<leftarrow> json_get (doc_second j);
     q \<leftarrow> json_value (doc_queue j) [];
     n \<leftarrow> json_get (doc_size j);
     c \<leftarrow> json_get (doc_complete j);
     Some \<lparr>ck_id = i, ck_process = p, ck_timestamp = sec * 1000000000 - tz,
           ck_rt_state = doc_rt_state j, ck_datastore = doc_datastore j, ck_queue = q,
           ck_size = n, ck_complete = c, ck_path = checkpoint_id\<rparr>
   }"

definition listCheckpoints :: "'j cp_store \<Rightarrow> string list" where
  "listCheckpoints st = map fst (sort_key (fst \<circ> snd) (cp_files st))"

definition deleteCheckpoint ::
    "(string \<Rightarrow> bool) \<Rightarrow> string \<Rightarrow> 'j cp_store \<Rightarrow> bool \<times> 'j cp_store" where
  "deleteCheckpoint removable checkpoint_id st =
    (if map_of (cp_files st) checkpoint_id = None then (False, st)
     else if removable checkpoint_id
     then (True, st\<lparr>cp_files := AList.delete checkpoint_id (cp_files st)\<rparr>)
     else (False, st))"

definition doc_of_checkpoint :: "'j checkpoint \<Rightarrow> 'j ckpt_doc" where
  "doc_of_checkpoint c =
    \<lparr>doc_id = Present (ck_id c), doc_process = Present (ck_process c),
     doc_second = Present (ck_timestamp c div 1000000000), doc_rt_state = ck_rt_state c,
     doc_datastore = ck_datastore c, doc_queue = Present (ck_queue c),
     doc_size = Present (ck_size c), doc_complete = Present (ck_complete c)\<rparr>"

fun delete_all :: "(string \<Rightarrow> bool) \<Rightarrow> string list \<Rightarrow> 'j cp_store \<Rightarrow> 'j cp_store" where
  "delete_all removable [] st = st"
| "delete_all removable (i # is) st =
     delete_all removable is (snd (deleteCheckpoint removable i st))"

definition saveCheckpoint :: "(string \<Rightarrow> bool) \<Rightarrow> (string \<Rightarrow> bool) \<Rightarrow> time \<Rightarrow> 'j checkpoint \<Rightarrow>
    'j cp_store \<Rightarrow> bool \<times> 'j cp_store" where
  "saveCheckpoint writable removable now c st =
    (if \<not> writable (ck_path c) then (False, st)
     else let st1 = st\<lparr>cp_files := AList.update (ck_path c) (now, Some (doc_of_checkpoint c)) (cp_files st)\<rparr>;
              checkpoints = listCheckpoints st1 in
          (True,
           if cp_max st1 < length checkpoints
           then delete_all removable (take (length checkpoints - cp_max st1) checkpoints) st1
           else st1))"

fun cleanup_loop :: "time \<Rightarrow> (string \<Rightarrow> bool) \<Rightarrow> time \<Rightarrow> time \<Rightarrow> string list \<Rightarrow> 'j cp_store \<Rightarrow>
    nat \<times> 'j cp_store" where
  "cleanup_loop tz removable now retention [] st = (0, st)"
| "cleanup_loop tz removable now retention (i # is) st =
    (case loadCheckpoint tz st i of
       None \<Rightarrow> cleanup_loop tz removable now retention is st
     | Some c \<Rightarrow>
         (if retention < now - ck_timestamp c
          then (case deleteCheckpoint removable i st of
                  (ok, st1) \<Rightarrow>
                    (case cleanup_loop tz removable now retention is st1 of
                       (n, st2) \<Rightarrow> (if ok then Suc n else n, st2)))
          else cleanup_loop tz removable now retention is st))"

definition cleanupExpiredCheckpoints :: "time \<Rightarrow> (string \<Rightarrow> bool) \<Rightarrow> time \<Rightarrow> nat \<Rightarrow> 'j cp_store \<Rightarrow>
    nat \<times> 'j cp_store" where
  "cleanupExpiredCheckpoints tz removable now retention_hours st =
     cleanup_loop tz removable now (int retention_hours * 3600000000000) (listCheckpoints st) st"

definition verifyCheckpoint :: "'j cp_store \<Rightarrow> string \<Rightarrow> bool" where
  "verifyCheckpoint st checkpoint_id =
    (case map_of (cp_files st) checkpoint_id of
       Some (_, Some j) \<Rightarrow>
         doc_id j \<noteq> Absent \<and> doc_process j \<noteq> Absent \<and> doc_second j \<noteq> Absent \<and>
         doc_complete j \<noteq> Absent \<and> (case doc_size j of Present _ \<Rightarrow> True | _ \<Rightarrow> False)
     | _ \<Rightarrow> False)"

section \<open>Lemmas\<close>

lemma length_listCheckpoints [simp]: "length (listCheckpoints st) = length (cp_files st)"
  by (simp add: listCheckpoints_def)

lemma set_listCheckpoints: "set (listCheckpoints st) = fst ` set (cp_files st)"
  by (simp add: listCheckpoints_def)

lemma distinct_listCheckpoints:
  assumes "distinct (map fst (cp_files st))"
  shows "distinct (listCheckpoints st)"
proof -
  have "mset (listCheckpoints st) = mset (map fst (cp_files st))"
    by (simp add: listCheckpoints_def)
  then show ?thesis using assms by (metis mset_eq_imp_distinct_iff)
qed

text \<open>Deleting a list of present, removable ids.\<close>

lemma delete_all_frame [simp]:
  "cp_max (delete_all removable is st) = cp_max st"
  "cp_process (delete_all removable is st) = cp_process st"
  by (induction "is" arbitrary: st) (auto simp: deleteCheckpoint_def)

lemma delete_all_files:
  assumes "\<And>i. i \<in> set is \<Longrightarrow> removable i"
  shows "cp_files (delete_all removable is st) = filter (\<lambda>f. fst f \<notin> set is) (cp_files st)"
  using assms
proof (induction "is" arbitrary: st)
  case Nil
  then show ?case by simp
next
  case (Cons i "is")
  have one: "cp_files (snd (deleteCheckpoint removable i st)) = filter (\<lambda>f. fst f \<noteq> i) (cp_files st)"
  proof (cases "map_of (cp_files st) i = None")
    case True
    then have "i \<notin> fst ` set (cp_files st)" by (simp add: map_of_eq_None_iff)
    then have "filter (\<lambda>f. fst f \<noteq> i) (cp_files st) = cp_files st"
      by (intro filter_True) (auto simp: image_iff)
    then show ?thesis using True by (simp add: deleteCheckpoint_def)
  next
    case False
    then show ?thesis
      using Cons.prems by (auto simp: deleteCheckpoint_def AList.delete_eq intro!: filter_cong)
  qed
  show ?case
    using Cons by (simp add: one)
qed

lemma length_delete_all:
  assumes "\<And>i. i \<in> set is \<Longrightarrow> removable i" and "distinct (map fst (cp_files st))"
    and "distinct is" and "set is \<subseteq> fst ` set (cp_files st)"
  shows "length (cp_files (delete_all removable is st)) = length (cp_files st) - length is"
proof -
  let ?P = "\<lambda>f. fst f \<in> set is"
  have "fst ` set (filter ?P (cp_files st)) = set is"
    using assms(4) by auto
  moreover have "distinct (map fst (filter ?P (cp_files st)))"
    using assms(2) by (simp add: distinct_map_filter)
  ultimately have "length (filter ?P (cp_files st)) = length is"
    by (metis assms(3) distinct_card length_map set_map)
  moreover have "length (filter ?P (cp_files st)) + length (filter (\<lambda>f. \<not> ?P f) (cp_files st)) =
      length (cp_files st)"
    by (rule sum_length_filter_compl)
  ultimately show ?thesis
    using assms(1) by (simp add: delete_all_files)
qed

lemma listCheckpoints_last:
  assumes "(i, t, d) \<in> set (cp_files st)"
    and "\<And>j t' d'. (j, t', d') \<in> set (cp_files st) \<Longrightarrow> j \<noteq> i \<Longrightarrow> t' < t"
  shows "last (listCheckpoints st) = i"
proof -
  define fs where "fs = sort_key (fst \<circ> snd) (cp_files st)"
  have mem: "(i, t, d) \<in> set fs" and ne: "fs \<noteq> []"
    using assms(1) unfolding fs_def by (simp, force)
  obtain j t' d' where l: "last fs = (j, t', d')" by (cases "last fs") auto
  have "t \<le> t'"
    using sorted_map_last [of "fst \<circ> snd" fs, OF _ mem] l by (simp add: fs_def)
  moreover have "(j, t', d') \<in> set (cp_files st)"
    using ne l last_in_set [of fs] by (simp add: fs_def)
  ultimately have "j = i" using assms(2) [of j t' d'] by force
  then show ?thesis using l ne by (simp add: listCheckpoints_def fs_def last_map)
qed

text \<open>The directory after a save has written its file, before old checkpoints are deleted.\<close>

abbreviation written_files :: "time \<Rightarrow> 'j checkpoint \<Rightarrow> 'j cp_store \<Rightarrow>
    (string \<times> time \<times> 'j ckpt_doc option) list" where
  "written_files now c st \<equiv>
     AList.update (ck_path c) (now, Some (doc_of_checkpoint c)) (cp_files st)"

abbreviation oldest_ids :: "nat \<Rightarrow> (string \<times> time \<times> 'j ckpt_doc option) list \<Rightarrow> string set" where
  "oldest_ids k fs \<equiv> set (take k (map fst (sort_key (fst \<circ> snd) fs)))"

lemma saveCheckpoint_files:
  assumes "writable (ck_path c)" and "\<And>i. removable i"
  shows "fst (saveCheckpoint writable removable now c st)"
    and "cp_files (snd (saveCheckpoint writable removable now c st)) =
     filter (\<lambda>f. fst f \<notin> oldest_ids (length (written_files now c st) - cp_max st) (written_files now c st))
       (written_files now c st)"
proof -
  show "fst (saveCheckpoint writable removable now c st)"
    using assms(1) by (simp add: saveCheckpoint_def Let_def)
  show "cp_files (snd (saveCheckpoint writable removable now c st)) =
     filter (\<lambda>f. fst f \<notin> oldest_ids (length (written_files now c st) - cp_max st) (written_files now c st))
       (written_files now c st)"
  proof (cases "cp_max st < length (written_files now c st)")
    case True
    with assms show ?thesis
      by (simp add: saveCheckpoint_def Let_def delete_all_files) (simp add: listCheckpoints_def)
  next
    case False
    with assms(1) show ?thesis by (simp add: saveCheckpoint_def Let_def)
  qed
qed

lemma sorted_take_drop:
  assumes "sorted (map f xs)" and "x \<in> set (take k xs)" and "y \<in> set (drop k xs)"
  shows "f x \<le> f y"
proof -
  have "sorted (map f (take k xs) @ map f (drop k xs))"
    using assms(1) by (simp flip: map_append)
  then show ?thesis using assms(2,3) by (auto simp: sorted_append)
qed

lemma oldest_ids_older:
  assumes "distinct (map fst fs)" and "f \<in> set fs" "g \<in> set fs"
    and "fst f \<in> oldest_ids k fs" "fst g \<notin> oldest_ids k fs"
  shows "fst (snd f) \<le> fst (snd g)"
proof -
  define ss where "ss = sort_key (fst \<circ> snd) fs"
  have inj: "inj_on fst (set ss)" using assms(1) by (simp add: ss_def distinct_map)
  have f: "f \<in> set ss" and g: "g \<in> set (take k ss @ drop k ss)" using assms(2,3) by (simp_all add: ss_def)
  have "fst f \<in> fst ` set (take k ss)" using assms(4) by (simp add: ss_def take_map)
  then obtain f' where f': "f' \<in> set (take k ss)" "fst f' = fst f" by auto
  then have "f' = f" using inj f in_set_takeD [of f' k ss] by (blast dest: inj_onD)
  with f' have "f \<in> set (take k ss)" by simp
  moreover have "g \<notin> set (take k ss)"
    using assms(5) by (auto simp: ss_def take_map)
  then have "g \<in> set (drop k ss)" using g unfolding set_append by blast
  ultimately show ?thesis
    using sorted_take_drop [of "fst \<circ> snd" ss f k g] by (simp add: ss_def)
qed

section \<open>Properties\<close>

text \<open>C28. Saving a checkpoint keeps the directory within its limit and drops only the oldest
  files: when every file can be written and removed, the save succeeds, at most
  \<^verbatim>\<open>max_checkpoints\<close> files remain (all of them when there were no more), each is one of the
  files present after the write, and no file that was dropped is newer than one that was kept.\<close>

theorem saveCheckpoint_retention:
  assumes "distinct (map fst (cp_files st))" and "\<And>i. writable i" and "\<And>i. removable i"
  shows "let r = saveCheckpoint writable removable now c st;
             fs = written_files now c st; kept = cp_files (snd r) in
     fst r \<and> length kept = min (cp_max st) (length fs) \<and> set kept \<subseteq> set fs \<and>
     (\<forall>f \<in> set fs - set kept. \<forall>g \<in> set kept. fst (snd f) \<le> fst (snd g))"
proof -
  define fs where "fs = written_files now c st"
  define st1 where "st1 = st\<lparr>cp_files := fs\<rparr>"
  define k where "k = length fs - cp_max st"
  let ?r = "saveCheckpoint writable removable now c st"
  have d: "distinct (map fst fs)"
    using assms(1) by (simp add: fs_def distinct_update)
  note w = assms(2) [of "ck_path c"]
  have ok: "fst ?r" and kept: "cp_files (snd ?r) = filter (\<lambda>f. fst f \<notin> oldest_ids k fs) fs"
    unfolding fs_def k_def
    by (rule saveCheckpoint_files [where writable = writable and removable = removable];
        fact w assms(3))+
  have oldest: "oldest_ids k fs = set (take k (listCheckpoints st1))"
    by (simp add: listCheckpoints_def st1_def)
  have "length (cp_files (delete_all removable (take k (listCheckpoints st1)) st1)) =
      length (cp_files st1) - length (take k (listCheckpoints st1))"
  proof (rule length_delete_all)
    show "distinct (map fst (cp_files st1))" using d by (simp add: st1_def)
    then show "distinct (take k (listCheckpoints st1))"
      by (simp add: distinct_listCheckpoints)
    show "set (take k (listCheckpoints st1)) \<subseteq> fst ` set (cp_files st1)"
      using set_take_subset set_listCheckpoints by fastforce
  qed (rule assms(3))
  then have "length (cp_files (snd ?r)) = min (cp_max st) (length fs)"
    using assms(3) by (simp add: kept oldest delete_all_files)
      (simp add: st1_def k_def)
  moreover have "\<forall>f \<in> set fs - set (cp_files (snd ?r)). \<forall>g \<in> set (cp_files (snd ?r)).
      fst (snd f) \<le> fst (snd g)"
    using oldest_ids_older [OF d, of _ _ k] by (auto simp: kept)
  ultimately show ?thesis
    using ok kept by (auto simp: Let_def fs_def [symmetric])
qed

theorem saveCheckpoint_retention_witness:
  "let c = \<lparr>ck_id = ''n'', ck_process = ''rt'', ck_timestamp = 0, ck_rt_state = (), ck_datastore = (),
            ck_queue = [], ck_size = 0, ck_complete = True, ck_path = ''n''\<rparr>;
       st = \<lparr>cp_process = ''rt'', cp_max = 2, cp_files = [(''b'', 5, None), (''a'', 1, None)]\<rparr> in
   length (cp_files (snd (saveCheckpoint (\<lambda>_. True) (\<lambda>_. True) 9 c st))) = 2"
proof -
  let ?c = "\<lparr>ck_id = ''n'', ck_process = ''rt'', ck_timestamp = 0, ck_rt_state = (), ck_datastore = (),
            ck_queue = [], ck_size = 0, ck_complete = True, ck_path = ''n''\<rparr>"
  let ?st = "\<lparr>cp_process = ''rt'', cp_max = 2, cp_files = [(''b'', 5, None), (''a'', 1, None)]\<rparr>"
  have "distinct (map fst (cp_files ?st))" by simp
  from saveCheckpoint_retention [OF this, of "\<lambda>_. True" "\<lambda>_. True" 9 ?c] show ?thesis
    by (simp add: Let_def)
qed

section \<open>The interface of a checkpoint provider\<close>

text \<open>
  What a client of \<^verbatim>\<open>IStateCheckpoint\<close> relies on: after a checkpoint was saved into a store
  that accepts it (\<open>good\<close>), it is the last one listed and loading it returns it, up to what
  storing does to it (\<open>stored\<close>). \<open>latest_checkpoint\<close> is the client's code: it takes the last
  id listed and loads it, and a failing load counts as no checkpoint.
\<close>

definition latest_checkpoint ::
    "('s \<Rightarrow> string list) \<Rightarrow> ('s \<Rightarrow> string \<Rightarrow> 'c option) \<Rightarrow> 's \<Rightarrow> 'c option" where
  "latest_checkpoint list load st =
    (let checkpoints = list st in
     if checkpoints = [] then None else load st (last checkpoints))"

locale checkpoint_provider =
  fixes list :: "'s \<Rightarrow> string list" and load :: "'s \<Rightarrow> string \<Rightarrow> 'c option"
    and save :: "time \<Rightarrow> 'c \<Rightarrow> 's \<Rightarrow> 's" and ident :: "'c \<Rightarrow> string"
    and stored :: "'c \<Rightarrow> 'c" and good :: "time \<Rightarrow> 'c \<Rightarrow> 's \<Rightarrow> bool"
  assumes save_listed: "good now c st \<Longrightarrow> list (save now c st) \<noteq> []"
    and save_last: "good now c st \<Longrightarrow> last (list (save now c st)) = ident c"
    and save_load: "good now c st \<Longrightarrow> load (save now c st) (ident c) = Some (stored c)"
begin

lemma latest_after_save:
  "good now c st \<Longrightarrow> latest_checkpoint list load (save now c st) = Some (stored c)"
  by (simp add: latest_checkpoint_def Let_def save_listed save_last save_load)

end

text \<open>Storing truncates the time stamp to a second and shifts it by the local time zone.\<close>

definition stored_checkpoint :: "time \<Rightarrow> 'j checkpoint \<Rightarrow> 'j checkpoint" where
  "stored_checkpoint tz c =
     c\<lparr>ck_timestamp := ck_timestamp c div 1000000000 * 1000000000 - tz\<rparr>"

definition good_save :: "time \<Rightarrow> 'j checkpoint \<Rightarrow> 'j cp_store \<Rightarrow> bool" where
  "good_save now c st \<longleftrightarrow> distinct (map fst (cp_files st)) \<and> 0 < cp_max st \<and>
     list_all (\<lambda>(i, t, d). i \<noteq> ck_path c \<longrightarrow> t < now) (cp_files st)"

lemma update_mem:
  "distinct (map fst fs) \<Longrightarrow> (j, v') \<in> set (AList.update i v fs) \<longleftrightarrow>
     (if j = i then v' = v else (j, v') \<in> set fs)"
  by (induction fs) (force split: if_splits)+

lemma good_save_written:
  assumes "good_save now c st"
  shows "(j, t, d) \<in> set (written_files now c st) \<Longrightarrow> j \<noteq> ck_path c \<Longrightarrow> t < now"
    and "(ck_path c, now, Some (doc_of_checkpoint c)) \<in> set (written_files now c st)"
  using assms by (auto simp: good_save_def update_mem list_all_iff)

lemma newest_not_oldest:
  assumes "distinct (map fst fs)" and "f \<in> set fs" and "k < length fs"
    and "\<And>g. g \<in> set fs \<Longrightarrow> g \<noteq> f \<Longrightarrow> fst (snd g) < fst (snd f)"
  shows "fst f \<notin> oldest_ids k fs"
proof
  assume old: "fst f \<in> oldest_ids k fs"
  have "card (oldest_ids k fs) \<le> k"
    by (metis List.card_set length_remdups_leq length_take min.bounded_iff order_trans)
  moreover have "card (fst ` set fs) = length fs"
    using assms(1) by (metis distinct_card length_map set_map)
  ultimately have "\<not> fst ` set fs \<subseteq> oldest_ids k fs"
    using assms(3) card_mono [of "oldest_ids k fs" "fst ` set fs"] by (auto simp del: set_take_subset)
  then obtain g where g: "g \<in> set fs" "fst g \<notin> oldest_ids k fs" by auto
  with old have "g \<noteq> f" by auto
  then show False
    using oldest_ids_older [OF assms(1,2) g(1) old g(2)] assms(4) [OF g(1)] by simp
qed

lemma saveCheckpoint_newest:
  assumes "good_save now c st"
  shows "(ck_path c, now, Some (doc_of_checkpoint c)) \<in>
      set (cp_files (snd (saveCheckpoint (\<lambda>_. True) (\<lambda>_. True) now c st)))"
proof -
  let ?fs = "written_files now c st" and ?f = "(ck_path c, now, Some (doc_of_checkpoint c))"
  have d: "distinct (map fst ?fs)" and mx: "0 < cp_max st"
    using assms by (auto simp: good_save_def distinct_update)
  note mem = good_save_written(2) [OF assms]
  have "length ?fs - cp_max st < length ?fs"
    using mem mx by (cases ?fs) auto
  moreover have "fst (snd g) < fst (snd ?f)" if "g \<in> set ?fs" "g \<noteq> ?f" for g
  proof (cases g)
    case (fields j t u)
    have "j \<noteq> ck_path c"
      using that d mem fields by (auto dest: eq_key_imp_eq_value)
    then show ?thesis
      using good_save_written(1) [OF assms] that(1) fields by simp
  qed
  ultimately have "ck_path c \<notin> oldest_ids (length ?fs - cp_max st) ?fs"
    using newest_not_oldest [OF d mem] by simp
  then show ?thesis
    using mem by (simp add: saveCheckpoint_files)
qed

lemma saveCheckpoint_subset:
  "set (cp_files (snd (saveCheckpoint (\<lambda>_. True) (\<lambda>_. True) now c st))) \<subseteq> set (written_files now c st)"
  by (auto simp: saveCheckpoint_files)

lemma saveCheckpoint_distinct:
  "distinct (map fst (cp_files st)) \<Longrightarrow>
     distinct (map fst (cp_files (snd (saveCheckpoint (\<lambda>_. True) (\<lambda>_. True) now c st))))"
  by (simp add: saveCheckpoint_files distinct_map_filter distinct_update)

interpretation ckpt: checkpoint_provider listCheckpoints "loadCheckpoint tz"
    "\<lambda>now c st. snd (saveCheckpoint (\<lambda>_. True) (\<lambda>_. True) now c st)" ck_path
    "stored_checkpoint tz" good_save for tz
proof unfold_locales
  fix now :: time and c :: "'a checkpoint" and st
  assume good: "good_save now c st"
  let ?st = "snd (saveCheckpoint (\<lambda>_. True) (\<lambda>_. True) now c st)"
  note mem = saveCheckpoint_newest [OF good]
  show "listCheckpoints ?st \<noteq> []"
    using mem by (metis empty_iff empty_set length_0_conv length_listCheckpoints)
  show "last (listCheckpoints ?st) = ck_path c"
    by (rule listCheckpoints_last [OF mem])
       (use saveCheckpoint_subset good_save_written(1) [OF good] in blast)
  have "distinct (map fst (cp_files ?st))"
    using good by (simp add: good_save_def saveCheckpoint_distinct)
  with mem have "map_of (cp_files ?st) (ck_path c) = Some (now, Some (doc_of_checkpoint c))"
    by simp
  then show "loadCheckpoint tz ?st (ck_path c) = Some (stored_checkpoint tz c)"
    by (simp add: loadCheckpoint_def doc_of_checkpoint_def stored_checkpoint_def)
qed

lemma truncated_shifted_eq:
  fixes m tz t :: int
  assumes "0 < m" and "m dvd tz"
  shows "t div m * m - tz = t \<longleftrightarrow> tz = 0 \<and> t mod m = 0"
proof -
  have "t div m * m - tz = t \<longleftrightarrow> t mod m = - tz"
    using div_mult_mod_eq [of t m] by linarith
  also have "\<dots> \<longleftrightarrow> tz = 0 \<and> t mod m = 0"
    using assms by (metis add.inverse_neutral dvd_minus_iff mod_mod_trivial dvd_imp_mod_0 neg_equal_0_iff_equal)
  finally show ?thesis .
qed

section \<open>Properties of the latest checkpoint\<close>



text \<open>The ids: the loop body at each index, and the shape of the result.\<close>

lemma length_checkpointId_from:
  assumes "i \<le> 32" and "32 \<le> i + length draws + (if i \<le> 12 then 1 else 0)"
  shows "length (checkpointId_from i draws) =
     32 - i + length (filter (\<lambda>k. i \<le> k) [8, 12, 16, 20])"
  using assms
proof (induction i draws rule: checkpointId_from.induct)
  case (1 i draws)
  show ?case
  proof (cases "32 \<le> i")
    case True
    with "1.prems" show ?thesis by (simp add: checkpointId_from.simps)
  next
    case False
    show ?thesis
    proof (cases "i = 12")
      case True
      with "1.IH"(1) "1.prems" show ?thesis by (simp add: checkpointId_from.simps [of 12])
    next
      case i12: False
      with False "1.prems" obtain d ds where ds: "draws = d # ds"
        by (cases draws) (auto split: if_splits)
      have "length (checkpointId_from (Suc i) ds) =
          32 - Suc i + length (filter (\<lambda>k. Suc i \<le> k) [8, 12, 16, 20])"
        by (rule "1.IH"(2) [OF False i12 ds]) (use False i12 "1.prems" ds in \<open>auto split: if_splits\<close>)
      with False i12 show ?thesis
        by (subst checkpointId_from.simps) (auto simp: ds Suc_diff_Suc)
    qed
  qed
qed

text \<open>A generated checkpoint id has the 36 characters of a UUID, whatever the random source
  draws, so that its file name never is empty or of varying length.\<close>

theorem generateCheckpointId_length:
  assumes "31 \<le> length draws"
  shows "length (generateCheckpointId draws) = 36"
  unfolding generateCheckpointId_def
  using length_checkpointId_from [of 0 draws] assms by simp

theorem generateCheckpointId_length_witness:
  "length (generateCheckpointId (replicate 31 15)) = 36"
  using generateCheckpointId_length [of "replicate 31 15"] by simp

end
