(* ===== verification/HA_Failover.thy ===== *)
theory HA_Failover
  imports HA_Checkpoint
begin

text \<open>
  The failover manager: \<^verbatim>\<open>src/core/ha/FailoverManager.{h,cpp}\<close>.

  Restart tracking is a map from process names to the count and the start of the current
  window, as in the code; a clock reading is an argument (nanoseconds since the epoch, whose
  value-initialised \<^verbatim>\<open>time_point\<close> is 0). The restart itself is not implemented in the source;
  what the code does, the counting, the choice of a checkpoint and the result, is modelled, and
  each triggered restart is recorded with its time and the checkpoint loaded. The JSON policy
  file is what the JSON library returns for it: \<open>None\<close> when opening or parsing it fails.
\<close>

section \<open>The policy\<close>

record failover_policy =
  fp_process_name :: string
  fp_health_check_interval_ms :: u32
  fp_health_check_timeout_ms :: u32
  fp_failure_threshold :: u32
  fp_restart_delay_ms :: u32
  fp_max_restart_count :: u32
  fp_restart_window_sec :: u32
  fp_enable_state_recovery :: bool
  fp_checkpoint_interval_sec :: u32
  fp_enable_leader_election :: bool

definition FailoverPolicy :: failover_policy where
  "FailoverPolicy =
    \<lparr>fp_process_name = [], fp_health_check_interval_ms = 1000, fp_health_check_timeout_ms = 500,
     fp_failure_threshold = 3, fp_restart_delay_ms = 100, fp_max_restart_count = 5,
     fp_restart_window_sec = 60, fp_enable_state_recovery = True,
     fp_checkpoint_interval_sec = 60, fp_enable_leader_election = False\<rparr>"

definition isValid_policy :: "failover_policy \<Rightarrow> bool" where
  "isValid_policy p =
    (if fp_health_check_interval_ms p \<le> fp_health_check_timeout_ms p then False
     else if fp_failure_threshold p < 1 then False
     else if fp_max_restart_count p = 0 then False
     else if fp_enable_state_recovery p \<and> fp_checkpoint_interval_sec p = 0 then False
     else True)"

section \<open>The manager\<close>

record restart_info =
  ri_count :: u32
  ri_window_start :: time

record 'j failover_manager =
  fm_policy :: failover_policy
  fm_checkpoints :: "'j cp_store option"
  fm_tracking :: "string \<rightharpoonup> restart_info"
  fm_running :: bool
  fm_restarts :: "(time \<times> 'j checkpoint option) list"

definition window_ns :: "failover_policy \<Rightarrow> time" where
  "window_ns p = uint (fp_restart_window_sec p) * 1000000000"

text \<open>The constructor throws on an invalid policy.\<close>

definition FailoverManagerImpl ::
    "failover_policy \<Rightarrow> 'j cp_store option \<Rightarrow> 'j failover_manager option" where
  "FailoverManagerImpl policy checkpoint_manager =
    (if \<not> isValid_policy policy then None
     else Some \<lparr>fm_policy = policy, fm_checkpoints = checkpoint_manager, fm_tracking = Map.empty,
                fm_running = False, fm_restarts = []\<rparr>)"

definition start_fm :: "'j failover_manager \<Rightarrow> bool \<times> 'j failover_manager" where
  "start_fm m = (if fm_running m then (False, m) else (True, m\<lparr>fm_running := True\<rparr>))"

definition stop_fm :: "'j failover_manager \<Rightarrow> 'j failover_manager" where
  "stop_fm m = (if \<not> fm_running m then m else m\<lparr>fm_running := False\<rparr>)"

definition cleanupRestartTracking :: "time \<Rightarrow> 'j failover_manager \<Rightarrow> 'j failover_manager" where
  "cleanupRestartTracking now m =
     m\<lparr>fm_tracking := (\<lambda>p. case fm_tracking m p of
         None \<Rightarrow> None
       | Some info \<Rightarrow> if window_ns (fm_policy m) < now - ri_window_start info then None else Some info)\<rparr>"

definition canRestart :: "time \<Rightarrow> string \<Rightarrow> 'j failover_manager \<Rightarrow> bool" where
  "canRestart now process_name m =
    (case fm_tracking m process_name of
       None \<Rightarrow> True
     | Some info \<Rightarrow>
         if window_ns (fm_policy m) < now - ri_window_start info then True
         else ri_count info < fp_max_restart_count (fm_policy m))"

definition getRestartCount :: "time \<Rightarrow> string \<Rightarrow> 'j failover_manager \<Rightarrow> u32" where
  "getRestartCount now process_name m =
    (case fm_tracking m process_name of
       None \<Rightarrow> 0
     | Some info \<Rightarrow>
         if window_ns (fm_policy m) < now - ri_window_start info then 0 else ri_count info)"

definition resetRestartCount :: "string \<Rightarrow> 'j failover_manager \<Rightarrow> 'j failover_manager" where
  "resetRestartCount process_name m = m\<lparr>fm_tracking := (fm_tracking m)(process_name := None)\<rparr>"

text \<open>The update of the tracking entry under the lock, \<^verbatim>\<open>restart_tracking_[process_name]\<close>
  inserting a value-initialised entry when there is none.\<close>

definition count_restart :: "time \<Rightarrow> string \<Rightarrow> 'j failover_manager \<Rightarrow> 'j failover_manager" where
  "count_restart now process_name m =
    (let info = (case fm_tracking m process_name of
                   Some info \<Rightarrow> info | None \<Rightarrow> \<lparr>ri_count = 0, ri_window_start = 0\<rparr>);
         info1 = (if window_ns (fm_policy m) < now - ri_window_start info
                  then info\<lparr>ri_count := 0, ri_window_start := now\<rparr> else info) in
     m\<lparr>fm_tracking := (fm_tracking m)(process_name \<mapsto> info1\<lparr>ri_count := ri_count info1 + 1\<rparr>)\<rparr>)"

definition recovery_checkpoint :: "time \<Rightarrow> bool \<Rightarrow> 'j failover_manager \<Rightarrow> 'j checkpoint option" where
  "recovery_checkpoint tz recover_state m =
    (if recover_state \<and> fp_enable_state_recovery (fm_policy m)
     then case fm_checkpoints m of
            None \<Rightarrow> None
          | Some st \<Rightarrow> latest_checkpoint listCheckpoints (loadCheckpoint tz) st
     else None)"

definition triggerRestart ::
    "time \<Rightarrow> time \<Rightarrow> string \<Rightarrow> bool \<Rightarrow> 'j failover_manager \<Rightarrow> bool \<times> 'j failover_manager" where
  "triggerRestart tz now process_name recover_state m =
    (if process_name \<noteq> fp_process_name (fm_policy m) then (False, m)
     else let m1 = count_restart now process_name m in
          (True, m1\<lparr>fm_restarts := fm_restarts m1 @ [(now, recovery_checkpoint tz recover_state m1)]\<rparr>))"

definition handleProcessFailure ::
    "time \<Rightarrow> time \<Rightarrow> string \<Rightarrow> 'j failover_manager \<Rightarrow> 'j failover_manager" where
  "handleProcessFailure tz now process_name m =
    (if \<not> fm_running m then m
     else if process_name \<noteq> fp_process_name (fm_policy m) then m
     else if \<not> canRestart now process_name m then m
     else snd (triggerRestart tz now process_name (fp_enable_state_recovery (fm_policy m)) m))"

section \<open>Loading a policy\<close>

record policy_json =
  pj_process_name :: "string json_field"
  pj_health_check_interval_ms :: "u32 json_field"
  pj_health_check_timeout_ms :: "u32 json_field"
  pj_failure_threshold :: "u32 json_field"
  pj_restart_delay_ms :: "u32 json_field"
  pj_max_restart_count :: "u32 json_field"
  pj_restart_window_sec :: "u32 json_field"
  pj_enable_state_recovery :: "bool json_field"
  pj_checkpoint_interval_sec :: "u32 json_field"
  pj_enable_leader_election :: "bool json_field"

text \<open>The assignments in the code's order, as updates that may throw; a throwing one stops the
  sequence with the fields assigned so far.\<close>

definition policy_assignments ::
    "policy_json \<Rightarrow> (failover_policy \<Rightarrow> failover_policy option) list" where
  "policy_assignments j =
    [\<lambda>p. map_option (\<lambda>v. p\<lparr>fp_process_name := v\<rparr>) (json_value (pj_process_name j) (fp_process_name p)),
     \<lambda>p. map_option (\<lambda>v. p\<lparr>fp_health_check_interval_ms := v\<rparr>)
           (json_value (pj_health_check_interval_ms j) (fp_health_check_interval_ms p)),
     \<lambda>p. map_option (\<lambda>v. p\<lparr>fp_health_check_timeout_ms := v\<rparr>)
           (json_value (pj_health_check_timeout_ms j) (fp_health_check_timeout_ms p)),
     \<lambda>p. map_option (\<lambda>v. p\<lparr>fp_failure_threshold := v\<rparr>)
           (json_value (pj_failure_threshold j) (fp_failure_threshold p)),
     \<lambda>p. map_option (\<lambda>v. p\<lparr>fp_restart_delay_ms := v\<rparr>)
           (json_value (pj_restart_delay_ms j) (fp_restart_delay_ms p)),
     \<lambda>p. map_option (\<lambda>v. p\<lparr>fp_max_restart_count := v\<rparr>)
           (json_value (pj_max_restart_count j) (fp_max_restart_count p)),
     \<lambda>p. map_option (\<lambda>v. p\<lparr>fp_restart_window_sec := v\<rparr>)
           (json_value (pj_restart_window_sec j) (fp_restart_window_sec p)),
     \<lambda>p. map_option (\<lambda>v. p\<lparr>fp_enable_state_recovery := v\<rparr>)
           (json_value (pj_enable_state_recovery j) (fp_enable_state_recovery p)),
     \<lambda>p. map_option (\<lambda>v. p\<lparr>fp_checkpoint_interval_sec := v\<rparr>)
           (json_value (pj_checkpoint_interval_sec j) (fp_checkpoint_interval_sec p)),
     \<lambda>p. map_option (\<lambda>v. p\<lparr>fp_enable_leader_election := v\<rparr>)
           (json_value (pj_enable_leader_election j) (fp_enable_leader_election p))]"

fun assign_all :: "('p \<Rightarrow> 'p option) list \<Rightarrow> 'p \<Rightarrow> bool \<times> 'p" where
  "assign_all [] p = (True, p)"
| "assign_all (f # fs) p = (case f p of None \<Rightarrow> (False, p) | Some p' \<Rightarrow> assign_all fs p')"

definition loadPolicy ::
    "policy_json option \<Rightarrow> 'j failover_manager \<Rightarrow> bool \<times> 'j failover_manager" where
  "loadPolicy file m =
    (case file of
       None \<Rightarrow> (False, m)
     | Some j \<Rightarrow>
         (case assign_all (policy_assignments j) (fm_policy m) of
            (ok, p) \<Rightarrow> (ok \<and> isValid_policy p, m\<lparr>fm_policy := p\<rparr>)))"

section \<open>Lemmas\<close>

lemmas fm_restart_defs = handleProcessFailure_def triggerRestart_def canRestart_def count_restart_def Let_def

lemma handleProcessFailure_frame [simp]:
  "fm_policy (handleProcessFailure tz now p m) = fm_policy m"
  "fm_running (handleProcessFailure tz now p m) = fm_running m"
  "fm_checkpoints (handleProcessFailure tz now p m) = fm_checkpoints m"
  by (simp_all add: fm_restart_defs)

text \<open>A manager whose process has been restarted \<open>n\<close> times in the window that began at \<open>t0\<close>.\<close>

definition in_window :: "time \<Rightarrow> nat \<Rightarrow> 'j failover_manager \<Rightarrow> bool" where
  "in_window t0 n m \<longleftrightarrow> fm_running m \<and> n \<le> unat (fp_max_restart_count (fm_policy m)) \<and>
     (\<exists>info. fm_tracking m (fp_process_name (fm_policy m)) = Some info \<and>
        ri_window_start info = t0 \<and> unat (ri_count info) = n)"

lemma handleProcessFailure_in_window:
  fixes tz :: time
  assumes "in_window t0 n m" and "now - t0 \<le> window_ns (fm_policy m)"
  defines "m' \<equiv> handleProcessFailure tz now (fp_process_name (fm_policy m)) m"
  shows "if n < unat (fp_max_restart_count (fm_policy m))
         then in_window t0 (Suc n) m' \<and> length (fm_restarts m') = Suc (length (fm_restarts m))
         else m' = m"
proof -
  obtain info where info: "fm_tracking m (fp_process_name (fm_policy m)) = Some info"
      "ri_window_start info = t0" "unat (ri_count info) = n"
    using assms(1) by (auto simp: in_window_def)
  show ?thesis
  proof (cases "n < unat (fp_max_restart_count (fm_policy m))")
    case True
    then have less: "ri_count info < fp_max_restart_count (fm_policy m)"
      using info(3) by (simp add: word_less_nat_alt)
    then have "unat (ri_count info + 1) = Suc n"
      using info(3) by (simp add: unat_inc_less)
    with less True show ?thesis
      using assms(1,2) info unfolding m'_def
      by (auto simp: in_window_def fm_restart_defs)
  next
    case False
    then have "\<not> ri_count info < fp_max_restart_count (fm_policy m)"
      using info(3) by (simp add: word_less_nat_alt)
    with False show ?thesis
      using assms(1,2) info unfolding m'_def
      by (auto simp: in_window_def fm_restart_defs)
  qed
qed

text \<open>Reports of failures of the managed process, at the times of a list.\<close>

definition report_failures :: "time \<Rightarrow> time list \<Rightarrow> 'j failover_manager \<Rightarrow> 'j failover_manager" where
  "report_failures tz ts m =
     run_steps (\<lambda>m now. handleProcessFailure tz now (fp_process_name (fm_policy m)) m) m ts"

lemma report_failures_simps [simp]:
  "report_failures tz [] m = m"
  "report_failures tz (t # ts) m =
     report_failures tz ts (handleProcessFailure tz t (fp_process_name (fm_policy m)) m)"
  by (simp_all add: report_failures_def)

lemma report_failures_in_window:
  assumes "in_window t0 n m" and "\<And>t. t \<in> set ts \<Longrightarrow> t - t0 \<le> window_ns (fm_policy m)"
  shows "length (fm_restarts (report_failures tz ts m)) =
     length (fm_restarts m) + min (length ts) (unat (fp_max_restart_count (fm_policy m)) - n)"
  using assms
proof (induction ts arbitrary: n m)
  case Nil
  then show ?case by simp
next
  case (Cons t ts)
  let ?m = "handleProcessFailure tz t (fp_process_name (fm_policy m)) m"
  let ?mx = "unat (fp_max_restart_count (fm_policy m))"
  have win: "\<And>t'. t' \<in> set (t # ts) \<Longrightarrow> t' - t0 \<le> window_ns (fm_policy m)"
    using Cons.prems(2) .
  note step = handleProcessFailure_in_window [OF Cons.prems(1) win [OF list.set_intros(1)], of tz]
  show ?case
  proof (cases "n < ?mx")
    case True
    with step have "in_window t0 (Suc n) ?m" and len: "length (fm_restarts ?m) = Suc (length (fm_restarts m))"
      by simp_all
    then have "length (fm_restarts (report_failures tz ts ?m)) =
        length (fm_restarts ?m) + min (length ts) (?mx - Suc n)"
      using Cons.IH [of "Suc n" ?m] win by simp
    with True len show ?thesis by (simp add: min_Suc_diff)
  next
    case False
    with step have "?m = m" by simp
    with False Cons.IH [OF Cons.prems(1)] win show ?thesis by simp
  qed
qed

lemma report_failures_limit:
  assumes "fm_running m" and "isValid_policy (fm_policy m)"
    and "fm_tracking m (fp_process_name (fm_policy m)) = None"
    and "window_ns (fm_policy m) < t0"
    and "\<And>t. t \<in> set ts \<Longrightarrow> t - t0 \<le> window_ns (fm_policy m)"
  shows "length (fm_restarts (report_failures tz (t0 # ts) m)) =
     length (fm_restarts m) + min (Suc (length ts)) (unat (fp_max_restart_count (fm_policy m)))"
proof -
  let ?m = "handleProcessFailure tz t0 (fp_process_name (fm_policy m)) m"
  have mx: "0 < unat (fp_max_restart_count (fm_policy m))"
    using assms(2) by (auto simp: isValid_policy_def unat_gt_0 split: if_splits)
  have "in_window t0 1 ?m" and len: "length (fm_restarts ?m) = Suc (length (fm_restarts m))"
    using assms(1,3,4) mx by (simp_all add: in_window_def fm_restart_defs)
  from report_failures_in_window [OF this(1), of ts tz] assms(5) len
  show ?thesis using min_Suc_diff [OF mx, of "length ts"] by simp
qed

section \<open>Properties\<close>

text \<open>C6. The restart limit is exact: when the managed process has no restart history, reports of
  its failure at \<open>t0\<close> and at later times within one restart window of \<open>t0\<close> trigger one restart
  each until \<^verbatim>\<open>max_restart_count\<close> restarts have been triggered, and none after that.\<close>

theorem restart_limit_per_window:
  assumes "fm_running m" and "isValid_policy (fm_policy m)"
    and "fm_tracking m (fp_process_name (fm_policy m)) = None"
    and "window_ns (fm_policy m) < t0"
    and "\<And>t. t \<in> set ts \<Longrightarrow> t - t0 \<le> window_ns (fm_policy m)"
  shows "length (fm_restarts (report_failures tz (t0 # ts) m)) =
     length (fm_restarts m) + min (Suc (length ts)) (unat (fp_max_restart_count (fm_policy m)))"
  by (rule report_failures_limit [OF assms])

theorem restart_limit_per_window_witness:
  "let p = FailoverPolicy\<lparr>fp_process_name := ''rt''\<rparr>;
       m = \<lparr>fm_policy = p, fm_checkpoints = None, fm_tracking = Map.empty, fm_running = True,
            fm_restarts = ([] :: (time \<times> unit checkpoint option) list)\<rparr> in
   length (fm_restarts (report_failures 0 (100000000000 # replicate 9 100000000001) m)) = 5"
proof -
  let ?m = "\<lparr>fm_policy = FailoverPolicy\<lparr>fp_process_name := ''rt''\<rparr>, fm_checkpoints = None,
     fm_tracking = Map.empty, fm_running = True,
     fm_restarts = ([] :: (time \<times> unit checkpoint option) list)\<rparr>"
  have "fm_running ?m" "isValid_policy (fm_policy ?m)"
    "fm_tracking ?m (fp_process_name (fm_policy ?m)) = None"
    "window_ns (fm_policy ?m) < 100000000000"
    by (simp_all add: FailoverPolicy_def isValid_policy_def window_ns_def)
  from restart_limit_per_window [OF this, of "replicate 9 100000000001" 0] show ?thesis
    by (simp add: Let_def FailoverPolicy_def window_ns_def)
qed



text \<open>A policy file with one key.\<close>

definition only_max_restart_count :: "u32 \<Rightarrow> policy_json" where
  "only_max_restart_count n =
    \<lparr>pj_process_name = Absent, pj_health_check_interval_ms = Absent,
     pj_health_check_timeout_ms = Absent, pj_failure_threshold = Absent,
     pj_restart_delay_ms = Absent, pj_max_restart_count = Present n,
     pj_restart_window_sec = Absent, pj_enable_state_recovery = Absent,
     pj_checkpoint_interval_sec = Absent, pj_enable_leader_election = Absent\<rparr>"

text \<open>A policy file that sets only \<^verbatim>\<open>max_restart_count\<close> to 0 is rejected, but the rejected
  value is already in force: after the call has returned false the manager's policy is the old
  one with that field overwritten, it is invalid, and a process that was restarted in the
  current window can no longer be restarted.\<close>

theorem rejected_policy_in_force:
  assumes "fm_tracking m p = Some info"
    and "now - ri_window_start info \<le> window_ns (fm_policy m)"
  shows "let r = loadPolicy (Some (only_max_restart_count 0)) m in
     \<not> fst r \<and> fm_policy (snd r) = (fm_policy m)\<lparr>fp_max_restart_count := 0\<rparr> \<and>
     \<not> isValid_policy (fm_policy (snd r)) \<and> \<not> canRestart now p (snd r)"
  using assms
  by (simp add: loadPolicy_def only_max_restart_count_def policy_assignments_def
      isValid_policy_def canRestart_def window_ns_def Let_def)

theorem rejected_policy_in_force_witness:
  "let m = \<lparr>fm_policy = FailoverPolicy, fm_checkpoints = None,
            fm_tracking = [''rt'' \<mapsto> \<lparr>ri_count = 1, ri_window_start = 100\<rparr>],
            fm_running = True, fm_restarts = ([] :: (time \<times> unit checkpoint option) list)\<rparr> in
   canRestart 200 ''rt'' m \<and>
   \<not> canRestart 200 ''rt'' (snd (loadPolicy (Some (only_max_restart_count 0)) m))"
proof -
  let ?m = "\<lparr>fm_policy = FailoverPolicy, fm_checkpoints = None,
            fm_tracking = [''rt'' \<mapsto> \<lparr>ri_count = 1, ri_window_start = 100\<rparr>],
            fm_running = True, fm_restarts = ([] :: (time \<times> unit checkpoint option) list)\<rparr>"
  have "fm_tracking ?m ''rt'' = Some \<lparr>ri_count = 1, ri_window_start = 100\<rparr>" by simp
  from rejected_policy_in_force [OF this, of 200] show ?thesis
    by (simp add: Let_def canRestart_def FailoverPolicy_def window_ns_def)
qed

end
