(* ===== verification/HA_ProcessMonitor.thy ===== *)
theory HA_ProcessMonitor
  imports HA_Failover Complex_Main
begin

text \<open>
  The process monitor: \<^verbatim>\<open>src/core/ha/ProcessMonitor.{h,cpp}\<close> and \<^verbatim>\<open>src/core/ha/HealthCheck.h\<close>.

  The monitor thread and its callers interleave at the granularity of the code's critical
  sections: one loop iteration is the step \<open>updateHealthStatus\<close> followed by the step
  \<open>monitor_check\<close> (health check, failure count, failover, watchdog), and \<open>stop\<close> is the two steps
  before and after the join. Doubles are real numbers (they are only compared; NaN is not
  modelled). The measured response time and the clock are arguments. Notifications to systemd
  are counted.
\<close>

section \<open>Health status\<close>

datatype HealthStatus = HEALTHY | DEGRADED | UNHEALTHY | STARTING | STOPPING | STOPPED

record health_status =
  hs_process_name :: string
  hs_status :: HealthStatus
  hs_last_heartbeat :: time
  hs_response_time_ms :: real
  hs_cpu_usage_percent :: real
  hs_memory_usage_mb :: u64
  hs_deadline_miss_count :: u64
  hs_error_message :: string
  hs_restart_count :: u32

record monitor_config =
  mc_process_name :: string
  mc_health_check_interval_ms :: u32
  mc_health_check_timeout_ms :: u32
  mc_cpu_threshold_percent :: u32
  mc_memory_threshold_mb :: u64
  mc_deadline_miss_threshold :: u32
  mc_enable_systemd_watchdog :: bool

definition ProcessMonitorConfig :: monitor_config where
  "ProcessMonitorConfig =
    \<lparr>mc_process_name = [], mc_health_check_interval_ms = 1000, mc_health_check_timeout_ms = 500,
     mc_cpu_threshold_percent = 90, mc_memory_threshold_mb = 2048,
     mc_deadline_miss_threshold = 100, mc_enable_systemd_watchdog = False\<rparr>"

record 'j process_monitor =
  pm_config :: monitor_config
  pm_failover :: "'j failover_manager option"
  pm_status :: health_status
  pm_running :: bool
  pm_cpu :: real
  pm_memory :: u64
  pm_misses :: u64
  pm_failures :: u32
  pm_last_check :: time
  pm_watchdog_pings :: nat

definition ProcessMonitor ::
    "time \<Rightarrow> monitor_config \<Rightarrow> 'j failover_manager option \<Rightarrow> 'j process_monitor" where
  "ProcessMonitor now config failover =
    \<lparr>pm_config = config, pm_failover = failover,
     pm_status = \<lparr>hs_process_name = mc_process_name config, hs_status = STOPPED,
       hs_last_heartbeat = now, hs_response_time_ms = 0, hs_cpu_usage_percent = 0,
       hs_memory_usage_mb = 0, hs_deadline_miss_count = 0, hs_error_message = [],
       hs_restart_count = 0\<rparr>,
     pm_running = False, pm_cpu = 0, pm_memory = 0, pm_misses = 0, pm_failures = 0,
     pm_last_check = now, pm_watchdog_pings = 0\<rparr>"

abbreviation set_status :: "HealthStatus \<Rightarrow> 'j process_monitor \<Rightarrow> 'j process_monitor" where
  "set_status h m \<equiv> m\<lparr>pm_status := (pm_status m)\<lparr>hs_status := h\<rparr>\<rparr>"

definition start_pm :: "'j process_monitor \<Rightarrow> bool \<times> 'j process_monitor" where
  "start_pm m =
    (if pm_running m then (False, m)
     else (True, (set_status STARTING m)\<lparr>pm_running := True\<rparr>))"

definition stop_begin :: "'j process_monitor \<Rightarrow> 'j process_monitor" where
  "stop_begin m =
    (if \<not> pm_running m then m else set_status STOPPING (m\<lparr>pm_running := False\<rparr>))"

definition stop_end :: "'j process_monitor \<Rightarrow> 'j process_monitor" where
  "stop_end m = set_status STOPPED m"

definition determineHealthStatus :: "'j process_monitor \<Rightarrow> HealthStatus" where
  "determineHealthStatus m =
    (let s = pm_status m; c = pm_config m in
     if hs_status s = STARTING \<or> hs_status s = STOPPING \<or> hs_status s = STOPPED then hs_status s
     else if hs_error_message s \<noteq> [] then UNHEALTHY
     else if real (unat (mc_cpu_threshold_percent c)) < hs_cpu_usage_percent s
        \<or> mc_memory_threshold_mb c < hs_memory_usage_mb s
        \<or> ucast (mc_deadline_miss_threshold c) < hs_deadline_miss_count s
     then DEGRADED
     else HEALTHY)"

definition updateHealthStatus :: "time \<Rightarrow> 'j process_monitor \<Rightarrow> 'j process_monitor" where
  "updateHealthStatus now m =
    (let m1 = m\<lparr>pm_status := (pm_status m)\<lparr>hs_cpu_usage_percent := pm_cpu m,
                 hs_memory_usage_mb := pm_memory m, hs_deadline_miss_count := pm_misses m,
                 hs_last_heartbeat := now\<rparr>\<rparr> in
     set_status (determineHealthStatus m1) m1)"

definition performHealthCheck :: "time \<Rightarrow> real \<Rightarrow> 'j process_monitor \<Rightarrow> bool \<times> 'j process_monitor" where
  "performHealthCheck now response_time m =
    (let is_alive = pm_running m;
         m1 = m\<lparr>pm_status := (pm_status m)\<lparr>hs_response_time_ms := response_time\<rparr>\<rparr> in
     if real (unat (mc_health_check_timeout_ms (pm_config m))) < response_time then (False, m1)
     else (is_alive, m1\<lparr>pm_last_check := now\<rparr>))"

definition check_failed :: "time \<Rightarrow> time \<Rightarrow> 'j process_monitor \<Rightarrow> 'j process_monitor" where
  "check_failed tz now m =
    (let n = pm_failures m + 1 in
     m\<lparr>pm_failures := n,
       pm_failover := (case pm_failover m of
           None \<Rightarrow> None
         | Some fm \<Rightarrow>
             Some (if fp_failure_threshold (fm_policy fm) \<le> n
                   then handleProcessFailure tz now (mc_process_name (pm_config m)) fm
                   else fm))\<rparr>)"

definition monitor_check :: "time \<Rightarrow> time \<Rightarrow> real \<Rightarrow> 'j process_monitor \<Rightarrow> 'j process_monitor" where
  "monitor_check tz now response_time m =
    (case performHealthCheck now response_time m of
       (passed, m1) \<Rightarrow>
         let m2 = (if passed then m1\<lparr>pm_failures := 0\<rparr> else check_failed tz now m1) in
         if mc_enable_systemd_watchdog (pm_config m) \<and> passed
         then m2\<lparr>pm_watchdog_pings := Suc (pm_watchdog_pings m2)\<rparr> else m2)"

text \<open>The loop body, uninterrupted.\<close>

definition monitorLoop_body :: "time \<Rightarrow> time \<Rightarrow> real \<Rightarrow> 'j process_monitor \<Rightarrow> 'j process_monitor" where
  "monitorLoop_body tz now response_time m =
     monitor_check tz now response_time (updateHealthStatus now m)"

definition isHealthy :: "'j process_monitor \<Rightarrow> bool" where
  "isHealthy m \<longleftrightarrow> hs_status (pm_status m) = HEALTHY"

definition isReady :: "'j process_monitor \<Rightarrow> bool" where
  "isReady m \<longleftrightarrow> hs_status (pm_status m) = HEALTHY \<or> hs_status (pm_status m) = DEGRADED"

definition isAlive :: "'j process_monitor \<Rightarrow> bool" where
  "isAlive m \<longleftrightarrow> hs_status (pm_status m) \<noteq> STOPPED \<and> hs_status (pm_status m) \<noteq> STOPPING"

definition updateStatus :: "real \<Rightarrow> u64 \<Rightarrow> u64 \<Rightarrow> 'j process_monitor \<Rightarrow> 'j process_monitor" where
  "updateStatus cpu_usage memory_usage deadline_miss_count m =
     m\<lparr>pm_cpu := cpu_usage, pm_memory := memory_usage, pm_misses := deadline_miss_count\<rparr>"

definition recordHeartbeat :: "time \<Rightarrow> 'j process_monitor \<Rightarrow> 'j process_monitor" where
  "recordHeartbeat now m =
    (let m1 = m\<lparr>pm_status := (pm_status m)\<lparr>hs_last_heartbeat := now\<rparr>\<rparr> in
     if hs_status (pm_status m1) = STARTING then set_status HEALTHY m1 else m1)"

definition setError :: "string \<Rightarrow> 'j process_monitor \<Rightarrow> 'j process_monitor" where
  "setError error_message m =
     m\<lparr>pm_status := (pm_status m)\<lparr>hs_error_message := error_message, hs_status := UNHEALTHY\<rparr>\<rparr>"

datatype pm_op =
    PStart | PStopBegin | PStopEnd | PUpdate time | PCheck time time real
  | PMetrics real u64 u64 | PHeartbeat time | PSetError string

fun pm_step :: "'j process_monitor \<Rightarrow> pm_op \<Rightarrow> 'j process_monitor" where
  "pm_step m PStart = snd (start_pm m)"
| "pm_step m PStopBegin = stop_begin m"
| "pm_step m PStopEnd = stop_end m"
| "pm_step m (PUpdate now) = updateHealthStatus now m"
| "pm_step m (PCheck tz now r) = monitor_check tz now r m"
| "pm_step m (PMetrics c mem d) = updateStatus c mem d m"
| "pm_step m (PHeartbeat now) = recordHeartbeat now m"
| "pm_step m (PSetError e) = setError e m"

section \<open>The interface to the failover manager\<close>

text \<open>
  What the monitor relies on of \<^verbatim>\<open>IFailoverManager\<close>: handling a failure does not change the
  threshold. \<open>feed_failures\<close> is the monitor's use of it over a run of failed checks.
\<close>

fun feed_failures :: "('m \<Rightarrow> u32) \<Rightarrow> (time \<Rightarrow> 'm \<Rightarrow> 'm) \<Rightarrow> time list \<Rightarrow> u32 \<Rightarrow> 'm \<Rightarrow> 'm" where
  "feed_failures threshold handle [] n m = m"
| "feed_failures threshold handle (t # ts) n m =
     feed_failures threshold handle ts (n + 1)
       (if threshold m \<le> n + 1 then handle t m else m)"

locale failover_service =
  fixes threshold :: "'m \<Rightarrow> u32" and handle :: "time \<Rightarrow> 'm \<Rightarrow> 'm"
  assumes keeps_threshold: "threshold (handle now m) = threshold m"
begin

text \<open>The first failures up to the threshold are absorbed, all later ones are reported.\<close>

lemma feed_failures_reports:
  assumes "unat n + length ts < 2 ^ 32"
  shows "feed_failures threshold handle ts n m =
     fold handle (drop (unat (threshold m) - Suc (unat n)) ts) m"
  using assms
proof (induction ts arbitrary: n m)
  case Nil
  then show ?case by simp
next
  case (Cons t ts)
  have n1: "unat (n + 1) = Suc (unat n)"
    using Cons.prems by (intro unat_inc) simp
  show ?case
  proof (cases "threshold m \<le> n + 1")
    case True
    then have "unat (threshold m) \<le> Suc (unat n)" by (simp add: word_le_nat_alt n1)
    with True Cons.IH [of "n + 1"] Cons.prems show ?thesis
      by (simp add: n1 keeps_threshold)
  next
    case False
    then have "Suc (unat n) < unat (threshold m)" by (simp add: word_le_nat_alt n1)
    then have "drop (unat (threshold m) - Suc (unat n)) (t # ts) =
        drop (unat (threshold m) - Suc (Suc (unat n))) ts"
      by (metis Suc_diff_Suc drop_Suc_Cons)
    with False Cons.IH [of "n + 1"] Cons.prems show ?thesis by (simp add: n1)
  qed
qed

end

interpretation fm_service: failover_service "\<lambda>m. fp_failure_threshold (fm_policy m)"
    "\<lambda>now. handleProcessFailure tz now p" for tz p
  by unfold_locales simp

section \<open>Lemmas\<close>

lemmas pm_defs = start_pm_def stop_begin_def stop_end_def updateHealthStatus_def
  performHealthCheck_def check_failed_def monitor_check_def updateStatus_def recordHeartbeat_def
  setError_def Let_def

text \<open>A run of timed-out health checks feeds the failover manager.\<close>

lemma timeout_check_failed:
  assumes "real (unat (mc_health_check_timeout_ms (pm_config m))) < r"
  shows "pm_failures (monitor_check tz now r m) = pm_failures m + 1"
    and "pm_config (monitor_check tz now r m) = pm_config m"
    and "pm_failover (monitor_check tz now r m) =
      map_option (\<lambda>fm. if fp_failure_threshold (fm_policy fm) \<le> pm_failures m + 1
        then handleProcessFailure tz now (mc_process_name (pm_config m)) fm else fm) (pm_failover m)"
  using assms by (simp_all add: pm_defs split: option.split)

lemma run_timeouts:
  assumes "\<And>t r. (t, r) \<in> set cs \<Longrightarrow> real (unat (mc_health_check_timeout_ms (pm_config m))) < r"
    and "pm_failover m = Some fm"
  shows "pm_failover (run_steps pm_step m (map (\<lambda>(t, r). PCheck tz t r) cs)) =
     Some (feed_failures (\<lambda>m. fp_failure_threshold (fm_policy m))
       (\<lambda>now. handleProcessFailure tz now (mc_process_name (pm_config m))) (map fst cs) (pm_failures m) fm)"
  using assms
proof (induction cs arbitrary: m fm)
  case Nil
  then show ?case by simp
next
  case (Cons c cs)
  obtain t r where c: "c = (t, r)" by (cases c)
  let ?m = "monitor_check tz t r m"
  note step = timeout_check_failed [of m r tz t]
  have r: "real (unat (mc_health_check_timeout_ms (pm_config m))) < r"
    by (rule Cons.prems(1) [of t]) (simp add: c)
  have "\<And>t' r'. (t', r') \<in> set cs \<Longrightarrow>
      real (unat (mc_health_check_timeout_ms (pm_config ?m))) < r'"
    unfolding step(2) [OF r] by (rule Cons.prems(1)) (rule list.set_intros(2))
  from Cons.IH [OF this] show ?case
    using Cons.prems(2) step [OF r] c by simp
qed

lemma fold_handle_report:
  fixes fm :: "'j failover_manager"
  shows "fold (\<lambda>now. handleProcessFailure tz now (fp_process_name (fm_policy fm))) ts fm =
     report_failures tz ts fm"
proof -
  have "fold (\<lambda>now. handleProcessFailure tz now p) ts m = report_failures tz ts m"
    if "p = fp_process_name (fm_policy m)" for m :: "'j failover_manager" and p
    using that
  proof (induction ts arbitrary: m)
    case Nil
    show ?case by simp
  next
    case (Cons t ts)
    from Cons.IH [of "handleProcessFailure tz t p m"] Cons.prems show ?case by simp
  qed
  then show ?thesis by simp
qed

section \<open>Properties\<close>

text \<open>C17. From health checks to restarts: a monitor that has seen no failed check and whose
  failover manager is running with no restart history runs \<open>k\<close> health checks that all time out.
  The failures below the threshold are absorbed; each later one is a restart, as long as it falls
  in the restart window of the first one and the window's limit is not used up.\<close>

theorem timeouts_to_restarts:
  assumes "pm_failover m = Some fm" and "pm_failures m = 0"
    and "fm_running fm" and "isValid_policy (fm_policy fm)"
    and "fm_tracking fm (fp_process_name (fm_policy fm)) = None"
    and "mc_process_name (pm_config m) = fp_process_name (fm_policy fm)"
    and "map fst cs = ts0 @ t0 # ts" and "Suc (length ts0) = unat (fp_failure_threshold (fm_policy fm))"
    and "length cs < 2 ^ 32" and "window_ns (fm_policy fm) < t0"
    and "list_all (\<lambda>t. t - t0 \<le> window_ns (fm_policy fm)) ts"
    and "list_all (\<lambda>(t, r). real (unat (mc_health_check_timeout_ms (pm_config m))) < r) cs"
  shows "\<exists>fm'. pm_failover (run_steps pm_step m (map (\<lambda>(t, r). PCheck tz t r) cs)) = Some fm' \<and>
     length (fm_restarts fm') = length (fm_restarts fm) +
       min (Suc (length ts)) (unat (fp_max_restart_count (fm_policy fm)))"
proof -
  let ?p = "fp_process_name (fm_policy fm)"
  let ?h = "\<lambda>now. handleProcessFailure tz now ?p"
  have slow: "\<And>t r. (t, r) \<in> set cs \<Longrightarrow> real (unat (mc_health_check_timeout_ms (pm_config m))) < r"
    using assms(12) by (auto simp: list_all_iff)
  have "pm_failover (run_steps pm_step m (map (\<lambda>(t, r). PCheck tz t r) cs)) =
      Some (feed_failures (\<lambda>m. fp_failure_threshold (fm_policy m)) ?h (map fst cs) 0 fm)"
    using run_timeouts [OF slow assms(1), where tz = tz] assms(2,6) by simp
  also have "feed_failures (\<lambda>m. fp_failure_threshold (fm_policy m)) ?h (map fst cs) 0 fm =
      fold ?h (drop (unat (fp_failure_threshold (fm_policy fm)) - 1) (map fst cs)) fm"
    using fm_service.feed_failures_reports [of 0 "map fst cs" tz ?p fm] assms(9) by simp
  also have "drop (unat (fp_failure_threshold (fm_policy fm)) - 1) (map fst cs) = t0 # ts"
    by (simp add: assms(7) flip: assms(8))
  finally have "pm_failover (run_steps pm_step m (map (\<lambda>(t, r). PCheck tz t r) cs)) =
      Some (report_failures tz (t0 # ts) fm)"
    by (simp only: fold_handle_report)
  moreover have "length (fm_restarts (report_failures tz (t0 # ts) fm)) = length (fm_restarts fm) +
      min (Suc (length ts)) (unat (fp_max_restart_count (fm_policy fm)))"
    by (rule report_failures_limit [OF assms(3-5,10)]) (use assms(11) in \<open>simp add: list_all_iff\<close>)
  ultimately show ?thesis by blast
qed

theorem timeouts_to_restarts_witness:
  "let p = FailoverPolicy\<lparr>fp_process_name := ''rt''\<rparr>;
       fm = \<lparr>fm_policy = p, fm_checkpoints = None, fm_tracking = Map.empty, fm_running = True,
             fm_restarts = ([] :: (time \<times> unit checkpoint option) list)\<rparr>;
       m = ProcessMonitor 0 (ProcessMonitorConfig\<lparr>mc_process_name := ''rt''\<rparr>) (Some fm) in
   \<exists>fm'. pm_failover (run_steps pm_step m (map (\<lambda>(t, r). PCheck 0 t r)
       [(100000000000, 600), (100000000001, 600), (100000000002, 600), (100000000003, 600)])) = Some fm' \<and>
     length (fm_restarts fm') = 2"
proof -
  let ?fm = "\<lparr>fm_policy = FailoverPolicy\<lparr>fp_process_name := ''rt''\<rparr>, fm_checkpoints = None,
     fm_tracking = Map.empty, fm_running = True,
     fm_restarts = ([] :: (time \<times> unit checkpoint option) list)\<rparr>"
  let ?m = "ProcessMonitor 0 (ProcessMonitorConfig\<lparr>mc_process_name := ''rt''\<rparr>) (Some ?fm)"
  let ?cs = "[(100000000000, 600), (100000000001, 600), (100000000002, 600), (100000000003, 600)] :: (time \<times> real) list"
  have h: "pm_failover ?m = Some ?fm" "pm_failures ?m = 0" "fm_running ?fm"
    "isValid_policy (fm_policy ?fm)" "fm_tracking ?fm (fp_process_name (fm_policy ?fm)) = None"
    "mc_process_name (pm_config ?m) = fp_process_name (fm_policy ?fm)"
    "map fst ?cs = [100000000000, 100000000001] @ 100000000002 # [100000000003 :: int]"
    "Suc (length [100000000000 :: int, 100000000001]) = unat (fp_failure_threshold (fm_policy ?fm))"
    "length ?cs < 2 ^ 32" "window_ns (fm_policy ?fm) < 100000000002"
    by (simp_all add: ProcessMonitor_def ProcessMonitorConfig_def FailoverPolicy_def
        isValid_policy_def window_ns_def)
  have "list_all (\<lambda>t. t - 100000000002 \<le> window_ns (fm_policy ?fm)) [100000000003]"
    "list_all (\<lambda>(t, r). real (unat (mc_health_check_timeout_ms (pm_config ?m))) < r) ?cs"
    by (simp_all add: ProcessMonitor_def ProcessMonitorConfig_def FailoverPolicy_def window_ns_def)
  note slow = this
  have "min (Suc (length [100000000003 :: int])) (unat (fp_max_restart_count (fm_policy ?fm))) = 2"
    by (simp add: FailoverPolicy_def)
  with timeouts_to_restarts [OF h slow, where tz = 0] show ?thesis
    unfolding Let_def by simp
qed

text \<open>An error once recorded: the message is kept and the status is never back in service.\<close>

definition in_error :: "'j process_monitor \<Rightarrow> bool" where
  "in_error m \<longleftrightarrow> hs_error_message (pm_status m) \<noteq> [] \<and>
     hs_status (pm_status m) \<in> {UNHEALTHY, STOPPING, STOPPED}"

lemma pm_step_in_error:
  assumes "in_error m" and "e \<noteq> PStart" and "\<And>msg. e = PSetError msg \<Longrightarrow> msg \<noteq> []"
  shows "in_error (pm_step m e)"
proof (cases e)
  case (PUpdate now)
  with assms(1) show ?thesis
    by (auto simp: in_error_def updateHealthStatus_def determineHealthStatus_def Let_def)
next
  case (PSetError msg)
  with assms(3) show ?thesis by (simp add: in_error_def setError_def)
qed (use assms in \<open>auto simp: in_error_def pm_defs\<close>)

text \<open>A reported error is final for the run of the monitor: after \<^verbatim>\<open>setError\<close> with a message,
  no sequence of metric updates, heartbeats, health checks, further errors or a stop makes the
  monitor report healthy or ready again; only a new \<^verbatim>\<open>start\<close> does.\<close>

theorem error_is_sticky:
  fixes m :: "'j process_monitor"
  assumes "msg \<noteq> []" and "PStart \<notin> set ops" and "PSetError [] \<notin> set ops"
  shows "let m' = run_steps pm_step (setError msg m) ops in \<not> isHealthy m' \<and> \<not> isReady m'"
proof -
  have "in_error (run_steps pm_step m ops)" if "in_error m" for m :: "'j process_monitor"
    using that assms(2,3)
  proof (induction ops arbitrary: m)
    case Nil
    then show ?case by simp
  next
    case (Cons e es)
    have "in_error (pm_step m e)"
      by (rule pm_step_in_error) (use Cons.prems in auto)
    with Cons show ?case by simp
  qed
  moreover have "in_error (setError msg m)" using assms(1) by (simp add: in_error_def setError_def)
  ultimately have "in_error (run_steps pm_step (setError msg m) ops)" by blast
  then show ?thesis by (auto simp: Let_def in_error_def isHealthy_def isReady_def)
qed

theorem error_is_sticky_witness:
  "\<not> isReady (run_steps pm_step (setError ''e'' (ProcessMonitor 0 ProcessMonitorConfig
       (None :: unit failover_manager option))) [PHeartbeat 1, PMetrics 1 2 3, PUpdate 4])"
  using error_is_sticky [of "''e''" "[PHeartbeat 1, PMetrics 1 2 3, PUpdate 4]"
      "ProcessMonitor 0 ProcessMonitorConfig (None :: unit failover_manager option)"]
  by (simp add: Let_def)

text \<open>A stop can look like a failure: when \<^verbatim>\<open>stop()\<close> clears the running flag after the loop has
  tested it, the health check of that iteration fails although it is in time, it is counted, and
  with a failure threshold of one it is reported to the failover manager as a process failure.\<close>

theorem stop_counts_as_failure:
  assumes "pm_running m" and "pm_failover m = Some fm" and "pm_failures m = 0"
    and "fp_failure_threshold (fm_policy fm) = 1"
    and "r \<le> real (unat (mc_health_check_timeout_ms (pm_config m)))"
  shows "let m' = run_steps pm_step m [PUpdate now, PStopBegin, PCheck tz now r] in
     pm_failures m' = 1 \<and>
     pm_failover m' = Some (handleProcessFailure tz now (mc_process_name (pm_config m)) fm)"
  using assms by (simp add: pm_defs)

theorem stop_counts_as_failure_witness:
  "let p = FailoverPolicy\<lparr>fp_process_name := ''rt'', fp_failure_threshold := 1\<rparr>;
       fm = \<lparr>fm_policy = p, fm_checkpoints = None, fm_tracking = Map.empty, fm_running = True,
             fm_restarts = ([] :: (time \<times> unit checkpoint option) list)\<rparr>;
       m = pm_step (ProcessMonitor 0 (ProcessMonitorConfig\<lparr>mc_process_name := ''rt''\<rparr>) (Some fm)) PStart in
   map fst (fm_restarts (the (pm_failover
     (run_steps pm_step m [PUpdate 7, PStopBegin, PCheck 0 7 1])))) = [7]"
proof -
  let ?fm = "\<lparr>fm_policy = FailoverPolicy\<lparr>fp_process_name := ''rt'', fp_failure_threshold := 1\<rparr>,
             fm_checkpoints = None, fm_tracking = Map.empty, fm_running = True,
             fm_restarts = ([] :: (time \<times> unit checkpoint option) list)\<rparr>"
  let ?m = "pm_step (ProcessMonitor 0 (ProcessMonitorConfig\<lparr>mc_process_name := ''rt''\<rparr>) (Some ?fm)) PStart"
  have h: "pm_running ?m" "pm_failover ?m = Some ?fm" "pm_failures ?m = 0"
    "fp_failure_threshold (fm_policy ?fm) = 1"
    "1 \<le> real (unat (mc_health_check_timeout_ms (pm_config ?m)))"
    "mc_process_name (pm_config ?m) = ''rt''"
    by (simp_all add: ProcessMonitor_def ProcessMonitorConfig_def start_pm_def)
  from stop_counts_as_failure [OF h(1-5), of 7 0] show ?thesis
    unfolding h(6) by (simp add: Let_def fm_restart_defs FailoverPolicy_def)
qed

end
