(* ===== verification/RT_Schedule.thy ===== *)
theory RT_Schedule
  imports Mxrc_Prelude
begin

text \<open>
  The schedule calculator: \<^verbatim>\<open>src/core/rt/util/ScheduleCalculator.{h,cpp}\<close>. Periods are 32-bit
  words, so the product in \<^verbatim>\<open>lcm\<close> can wrap. The three exceptions the code throws are the values
  of an error type.
\<close>

section \<open>Model\<close>

record schedule_params =
  minor_cycle_ms :: u32
  major_cycle_ms :: u32
  num_slots :: u32

datatype schedule_error = EmptyPeriodList | ZeroPeriod | MajorCycleExceedsMaximum

definition MAX_MAJOR_CYCLE_MS :: u32 where
  "MAX_MAJOR_CYCLE_MS = 1000"

function gcd_u32 :: "u32 \<Rightarrow> u32 \<Rightarrow> u32" where
  "gcd_u32 a b = (if b \<noteq> 0 then gcd_u32 b (a mod b) else a)"
  by pat_completeness auto
termination
proof (relation "measure (\<lambda>(a, b). unat b)")
  show "wf (measure (\<lambda>(a :: u32, b :: u32). unat b))" by simp
  fix a b :: u32
  assume "b \<noteq> 0"
  then have "0 < unat b" by (simp add: unat_gt_0)
  then show "((b, a mod b), a, b) \<in> measure (\<lambda>(a, b). unat b)"
    by (simp add: unat_mod)
qed

declare gcd_u32.simps [simp del]

definition lcm_u32 :: "u32 \<Rightarrow> u32 \<Rightarrow> u32" where
  "lcm_u32 a b = (if a = 0 \<or> b = 0 then 0 else a div gcd_u32 a b * b)"

fun minor_loop :: "u32 \<Rightarrow> u32 list \<Rightarrow> u32" where
  "minor_loop minor [] = minor"
| "minor_loop minor (p # ps) = minor_loop (gcd_u32 minor p) ps"

fun major_loop :: "u32 \<Rightarrow> u32 list \<Rightarrow> schedule_error + u32" where
  "major_loop major [] = Inr major"
| "major_loop major (p # ps) =
    (let major1 = lcm_u32 major p in
     if MAX_MAJOR_CYCLE_MS < major1 then Inl MajorCycleExceedsMaximum
     else major_loop major1 ps)"

definition calculate :: "u32 list \<Rightarrow> schedule_error + schedule_params" where
  "calculate periods_ms =
    (case periods_ms of
       [] \<Rightarrow> Inl EmptyPeriodList
     | p # ps \<Rightarrow>
         if list_ex (\<lambda>q. q = 0) periods_ms then Inl ZeroPeriod
         else (case major_loop p ps of
                 Inl e \<Rightarrow> Inl e
               | Inr major \<Rightarrow>
                   let minor = minor_loop p ps in
                   Inr \<lparr>minor_cycle_ms = minor, major_cycle_ms = major,
                        num_slots = major div minor\<rparr>))"

section \<open>Lemmas\<close>

lemma unat_gcd_u32: "unat (gcd_u32 a b) = gcd (unat a) (unat b)"
proof (induction a b rule: gcd_u32.induct)
  case (1 a b)
  show ?case
  proof (cases "b = 0")
    case True
    then show ?thesis by (simp add: gcd_u32.simps)
  next
    case False
    then have "unat (gcd_u32 a b) = gcd (unat b) (unat a mod unat b)"
      using "1.IH" by (simp add: gcd_u32.simps [of a b] unat_mod)
    then show ?thesis by (simp add: gcd_red_nat [of "unat a" "unat b", symmetric])
  qed
qed

lemma unat_mult_mod: "unat (a * b :: u32) = unat a * unat b mod 2 ^ 32"
  by (simp add: unat_word_ariths)

lemma unat_lcm_u32_mod: "unat (lcm_u32 a b) = lcm (unat a) (unat b) mod 2 ^ 32"
proof (cases "a = 0 \<or> b = 0")
  case True
  then show ?thesis by (auto simp: lcm_u32_def)
next
  case False
  have "unat (lcm_u32 a b) = unat a div gcd (unat a) (unat b) * unat b mod 2 ^ 32"
    using False by (simp add: lcm_u32_def unat_mult_mod unat_div unat_gcd_u32)
  also have "unat a div gcd (unat a) (unat b) * unat b = lcm (unat a) (unat b)"
    by (simp add: lcm_nat_def dvd_div_mult)
  finally show ?thesis .
qed

lemma unat_lcm_u32:
  assumes "lcm (unat a) (unat b) < 2 ^ 32"
  shows "unat (lcm_u32 a b) = lcm (unat a) (unat b)"
  using assms by (simp add: unat_lcm_u32_mod)

text \<open>The greatest common divisor and the least common multiple of a list of periods.\<close>

abbreviation Gcd_of :: "u32 list \<Rightarrow> nat" where
  "Gcd_of ps \<equiv> Gcd (unat ` set ps)"

abbreviation Lcm_of :: "u32 list \<Rightarrow> nat" where
  "Lcm_of ps \<equiv> Lcm (unat ` set ps)"

lemma unat_minor_loop: "unat (minor_loop p ps) = Gcd_of (p # ps)"
proof (induction ps arbitrary: p)
  case Nil
  then show ?case by simp
next
  case (Cons q ps)
  then show ?case by (simp add: unat_gcd_u32 gcd.assoc)
qed

text \<open>No product wraps: each intermediate major cycle and each period is below \<open>2\<^sup>1\<^sup>6\<close>.\<close>

lemma lcm_le_mult: "0 < a \<Longrightarrow> 0 < b \<Longrightarrow> lcm a b \<le> a * (b :: nat)"
  by (intro dvd_imp_le) auto

lemma lcm_small:
  assumes "a < 2 ^ 16" and "b < (2 :: nat) ^ 16"
  shows "lcm a b < 2 ^ 32"
proof (cases "0 < a \<and> 0 < b")
  case True
  then have "lcm a b \<le> a * b" using lcm_le_mult by simp
  also have "\<dots> < 2 ^ 16 * 2 ^ 16" using assms by (intro mult_strict_mono) auto
  finally show ?thesis by simp
qed auto

lemma Lcm_of_pos:
  assumes "\<And>q. q \<in> set ps \<Longrightarrow> q \<noteq> 0"
  shows "0 < Lcm_of ps"
proof -
  have "0 \<notin> unat ` set ps" using assms by (auto simp: unat_eq_zero)
  then have "Lcm_of ps \<noteq> 0" using Lcm_0_iff [of "unat ` set ps"] by blast
  then show ?thesis by (rule neq0_conv [THEN iffD1])
qed

lemma major_loop_spec:
  assumes "\<And>q. q \<in> set (p # ps) \<Longrightarrow> q \<noteq> 0 \<and> unat q < 2 ^ 16"
  shows "major_loop p ps =
    (if ps = [] then Inr p
     else if Lcm_of (p # ps) \<le> 1000 then Inr (of_nat (Lcm_of (p # ps)))
     else Inl MajorCycleExceedsMaximum)"
  using assms
proof (induction ps arbitrary: p)
  case Nil
  then show ?case by simp
next
  case (Cons q ps)
  let ?m = "lcm_u32 p q"
  have m: "unat ?m = lcm (unat p) (unat q)"
    using Cons.prems by (intro unat_lcm_u32 lcm_small) auto
  have Lcm_eq: "Lcm_of (?m # ps) = Lcm_of (p # q # ps)"
    by (simp add: m lcm.assoc)
  have pos: "0 < Lcm_of (p # q # ps)" by (rule Lcm_of_pos) (use Cons.prems in auto)
  have "unat ?m \<le> Lcm_of (p # q # ps)"
    unfolding Lcm_eq [symmetric] by (rule dvd_imp_le) (simp, use pos Lcm_eq in metis)
  show ?case
  proof (cases "unat ?m \<le> 1000")
    case False
    with \<open>unat ?m \<le> _\<close> show ?thesis
      by (simp add: MAX_MAJOR_CYCLE_MS_def word_less_nat_alt Let_def)
  next
    case True
    have "0 < unat ?m"
      unfolding m using Cons.prems by (intro lcm_pos_nat) (auto simp: unat_gt_0)
    then have "?m \<noteq> 0" by (simp add: unat_gt_0)
    then have "major_loop ?m ps =
        (if ps = [] then Inr ?m
         else if Lcm_of (?m # ps) \<le> 1000 then Inr (of_nat (Lcm_of (?m # ps)))
         else Inl MajorCycleExceedsMaximum)"
      using True Cons.prems by (intro Cons.IH) auto
    then have "major_loop p (q # ps) =
        (if ps = [] then Inr ?m
         else if Lcm_of (p # q # ps) \<le> 1000 then Inr (of_nat (Lcm_of (p # q # ps)))
         else Inl MajorCycleExceedsMaximum)"
      unfolding Lcm_eq using True by (simp add: MAX_MAJOR_CYCLE_MS_def word_less_nat_alt Let_def)
    moreover have "Lcm_of (p # q # ps) = unat ?m" if "ps = []"
      using that by (simp add: m)
    ultimately show ?thesis using True by (cases "ps = []") auto
  qed
qed

text \<open>The periods for which no 32-bit product of the calculator wraps.\<close>

definition small_period :: "u32 \<Rightarrow> bool" where
  "small_period q \<longleftrightarrow> q \<noteq> 0 \<and> unat q < 2 ^ 16"

lemma calculate_Cons:
  assumes "list_all small_period (p # ps)"
  shows "calculate (p # ps) =
    (if ps = [] \<or> Lcm_of (p # ps) \<le> 1000
     then Inr \<lparr>minor_cycle_ms = of_nat (Gcd_of (p # ps)), major_cycle_ms = of_nat (Lcm_of (p # ps)),
               num_slots = of_nat (Lcm_of (p # ps) div Gcd_of (p # ps))\<rparr>
     else Inl MajorCycleExceedsMaximum)"
proof -
  have nz: "list_ex (\<lambda>q. q = 0) (p # ps) = False"
    using assms by (auto simp: list_ex_iff list_all_iff small_period_def)
  have small: "q \<in> set (p # ps) \<Longrightarrow> q \<noteq> 0 \<and> unat q < 2 ^ 16" for q
    using assms by (auto simp: list_all_iff small_period_def)
  have minor: "minor_loop p ps = of_nat (Gcd_of (p # ps))"
    by (rule of_nat_unat_same [OF unat_minor_loop, symmetric])
  have major: "major_loop p ps =
     (if ps = [] \<or> Lcm_of (p # ps) \<le> 1000 then Inr (of_nat (Lcm_of (p # ps)))
      else Inl MajorCycleExceedsMaximum)"
    using major_loop_spec [of p ps, OF small] by simp
  show ?thesis
  proof (cases "ps = [] \<or> Lcm_of (p # ps) \<le> 1000")
    case True
    have "Lcm_of (p # ps) < 2 ^ LENGTH(32)"
      using True assms by (auto simp: small_period_def)
    then have "unat (of_nat (Lcm_of (p # ps)) div minor_loop p ps) = Lcm_of (p # ps) div Gcd_of (p # ps)"
      by (simp only: unat_div unat_minor_loop unat_of_nat_less)
    then have "of_nat (Lcm_of (p # ps)) div minor_loop p ps =
        of_nat (Lcm_of (p # ps) div Gcd_of (p # ps))"
      by (rule of_nat_unat_same [symmetric])
    then show ?thesis
      unfolding calculate_def list.case nz major if_P [OF True] if_False sum.case Let_def
      by (simp only: minor)
  next
    case False
    show ?thesis
      unfolding calculate_def list.case nz major if_not_P [OF False] if_False sum.case ..
  qed
qed

lemma Lcm_of_bound:
  assumes "list_all small_period (p # ps)" and "ps = [] \<or> Lcm_of (p # ps) \<le> 1000"
  shows "Lcm_of (p # ps) < 2 ^ LENGTH(32)"
  using assms by (auto simp: small_period_def)

lemma calculate_nonzero: "calculate ps = Inr r \<Longrightarrow> q \<in> set ps \<Longrightarrow> q \<noteq> 0"
  by (auto simp: calculate_def list_ex_iff split: list.splits if_splits)

lemma calculate_schedule:
  assumes "calculate ps = Inr r" and "list_all (\<lambda>q. unat q < 2 ^ 16) ps" and "p \<in> set ps"
  shows "0 < unat (minor_cycle_ms r) \<and> unat (minor_cycle_ms r) dvd unat p \<and>
     unat p dvd unat (major_cycle_ms r) \<and>
     unat (major_cycle_ms r) = unat (minor_cycle_ms r) * unat (num_slots r)"
proof -
  obtain a qs where ps: "ps = a # qs" using assms(3) by (cases ps) auto
  have small: "list_all small_period (a # qs)"
    using calculate_nonzero [OF assms(1)] assms(2) by (auto simp: ps list_all_iff small_period_def)
  have le: "qs = [] \<or> Lcm_of (a # qs) \<le> 1000"
    using calculate_Cons [OF small] assms(1) unfolding ps by (metis sum.simps(4))
  have r: "r = \<lparr>minor_cycle_ms = of_nat (Gcd_of ps), major_cycle_ms = of_nat (Lcm_of ps),
               num_slots = of_nat (Lcm_of ps div Gcd_of ps)\<rparr>"
    using calculate_Cons [OF small] le assms(1) unfolding ps by (simp only: if_True sum.inject)
  have dvd: "Gcd_of ps dvd unat p" "unat p dvd Lcm_of ps" using assms(3) by auto
  then have "Gcd_of ps dvd Lcm_of ps" by (rule dvd_trans)
  moreover have "0 < Gcd_of ps"
    using dvd(1) calculate_nonzero [OF assms(1,3)] by (intro gr0I) (simp add: unat_eq_zero)
  moreover have L: "Lcm_of ps < 2 ^ LENGTH(32)" unfolding ps by (rule Lcm_of_bound [OF small le])
  moreover have "Gcd_of ps < 2 ^ LENGTH(32)"
    unfolding ps unat_minor_loop [symmetric] by (rule unsigned_less)
  moreover have "Lcm_of ps div Gcd_of ps < 2 ^ LENGTH(32)"
    using L div_le_dividend le_less_trans by blast
  ultimately show ?thesis
    using dvd unfolding r schedule_params.simps by (simp only: unat_of_nat_less dvd_mult_div_cancel)
qed

lemma calculate_small:
  assumes "calculate ps = Inr r" and "list_all (\<lambda>q. unat q < 2 ^ 16) ps"
  shows "0 < unat (major_cycle_ms r) \<and> unat (major_cycle_ms r) < 2 ^ 16"
proof -
  obtain a qs where ps: "ps = a # qs" using assms(1) by (cases ps) (auto simp: calculate_def)
  have small: "list_all small_period (a # qs)"
    using calculate_nonzero [OF assms(1)] assms(2) by (auto simp: ps list_all_iff small_period_def)
  have le: "qs = [] \<or> Lcm_of (a # qs) \<le> 1000"
    using calculate_Cons [OF small] assms(1) unfolding ps by (metis sum.simps(4))
  have "major_cycle_ms r = of_nat (Lcm_of ps)"
    using calculate_Cons [OF small] le assms(1) unfolding ps by auto
  moreover have "Lcm_of ps < 2 ^ 16" using le small by (auto simp: ps small_period_def)
  moreover have "0 < Lcm_of ps" by (rule Lcm_of_pos) (rule calculate_nonzero [OF assms(1)])
  ultimately show ?thesis
    using unat_of_nat_less [of "Lcm_of ps", where 'a = 32] by simp
qed

section \<open>Properties\<close>

text \<open>C16. For two or more periods of at most 65535 ms, none zero, the calculator returns exactly
  the greatest common divisor as the minor cycle, the least common multiple as the major cycle
  and their quotient as the number of slots when the least common multiple is at most 1000 ms,
  and reports an over-long major cycle otherwise; no intermediate product wraps.\<close>

theorem calculate_correct:
  assumes "2 \<le> length ps" and "list_all small_period ps"
  shows "calculate ps =
    (if Lcm_of ps \<le> 1000
     then Inr \<lparr>minor_cycle_ms = of_nat (Gcd_of ps), major_cycle_ms = of_nat (Lcm_of ps),
               num_slots = of_nat (Lcm_of ps div Gcd_of ps)\<rparr>
     else Inl MajorCycleExceedsMaximum)"
proof -
  obtain p qs where ps: "ps = p # qs" and ne: "qs \<noteq> []"
    using assms(1) by (cases ps; cases "tl ps") auto
  show ?thesis
    using calculate_Cons [of p qs] assms(2) ne unfolding ps by argo
qed

theorem calculate_correct_witness:
  "calculate [10, 15] = Inr \<lparr>minor_cycle_ms = 5, major_cycle_ms = 30, num_slots = 6\<rparr> \<and>
   calculate [999, 1000] = Inl MajorCycleExceedsMaximum"
proof -
  have "gcd (10 :: nat) 15 = 5" "lcm (10 :: nat) 15 = 30" "lcm (999 :: nat) 1000 = 999000"
    by (simp_all add: lcm_nat_def gcd_non_0_nat)
  then show ?thesis
    using calculate_correct [of "[10, 15]"] calculate_correct [of "[999, 1000]"]
    by (simp add: small_period_def)
qed

text \<open>A schedule the calculator accepts serves every period: the minor cycle divides each
  period, each period divides the major cycle, and the slots exactly fill the major cycle.\<close>

theorem calculate_serves_periods:
  assumes "calculate ps = Inr r" and "list_all (\<lambda>q. unat q < 2 ^ 16) ps" and "p \<in> set ps"
  shows "0 < unat (minor_cycle_ms r) \<and> unat (minor_cycle_ms r) dvd unat p \<and>
     unat p dvd unat (major_cycle_ms r) \<and>
     unat (major_cycle_ms r) = unat (minor_cycle_ms r) * unat (num_slots r)"
  using assms by (rule calculate_schedule)

theorem calculate_serves_periods_witness:
  "\<exists>r. calculate [10, 15] = Inr r \<and> unat (10 :: u32) dvd unat (major_cycle_ms r)"
proof -
  have "calculate [10, 15] = Inr \<lparr>minor_cycle_ms = 5, major_cycle_ms = 30, num_slots = 6\<rparr>"
    by (simp add: calculate_def gcd_u32.simps lcm_u32_def MAX_MAJOR_CYCLE_MS_def)
  from calculate_serves_periods [OF this, of 10] this show ?thesis by auto
qed

text \<open>The limit on the major cycle can be evaded. A single period is accepted whatever its
  length, because the limit is only tested after a least common multiple was formed; and the
  32-bit product in \<^verbatim>\<open>lcm\<close> can wrap to a small value: periods 2 and 2147483649 ms are accepted
  with a major cycle of 2 ms, which the second period does not divide.\<close>

theorem major_cycle_limit_evaded:
  "(p \<noteq> 0 \<longrightarrow> calculate [p] = Inr \<lparr>minor_cycle_ms = p, major_cycle_ms = p, num_slots = p div p\<rparr>) \<and>
   calculate [2, 2147483649] = Inr \<lparr>minor_cycle_ms = 1, major_cycle_ms = 2, num_slots = 2\<rparr>"
proof
  show "calculate [2, 2147483649] = Inr \<lparr>minor_cycle_ms = 1, major_cycle_ms = 2, num_slots = 2\<rparr>"
    by (simp add: calculate_def gcd_u32.simps lcm_u32_def MAX_MAJOR_CYCLE_MS_def)
qed (simp add: calculate_def)

theorem major_cycle_limit_evaded_witness:
  "calculate [5000] = Inr \<lparr>minor_cycle_ms = 5000, major_cycle_ms = 5000, num_slots = 1\<rparr>"
  using major_cycle_limit_evaded [of 5000] by simp

end
