(* ===== verification/RT_StateMachine.thy ===== *)
theory RT_StateMachine
  imports Mxrc_Prelude
begin

text \<open>
  The state machine of the real-time process: \<^verbatim>\<open>src/src/core/rt/RTStateMachine.{h,cpp}\<close>.

  The transition callback is client code. It is a field of the machine, a function on the
  client's own state \<open>'w\<close>, and every operation that may call it threads that state. The
  executive instantiates it with the publication of an event on its bus.

  The lemmas show that the machine moves only along its transition table, that \<^verbatim>\<open>SHUTDOWN\<close>
  is final, and that the callbacks of a run describe exactly the path it took.
\<close>

section \<open>Model\<close>

datatype RTState = INIT | READY | RUNNING | PAUSED | SAFE_MODE | ERROR | SHUTDOWN

datatype RTEvent =
  START | PAUSE | RESUME | STOP | ERROR_OCCUR | SAFE_MODE_ENTER | SAFE_MODE_EXIT | RESET

type_synonym 'w transition_callback = "RTState \<Rightarrow> RTState \<Rightarrow> RTEvent \<Rightarrow> 'w \<Rightarrow> 'w"

record 'w rt_machine =
  current_state :: RTState
  transition_callback :: "'w transition_callback option"

definition RTStateMachine :: "'w rt_machine" where
  "RTStateMachine = \<lparr>current_state = INIT, transition_callback = None\<rparr>"

definition setTransitionCallback :: "'w transition_callback option \<Rightarrow> 'w rt_machine \<Rightarrow> 'w rt_machine" where
  "setTransitionCallback cb m = m\<lparr>transition_callback := cb\<rparr>"

definition transitionTo_RT ::
    "RTState \<Rightarrow> RTEvent \<Rightarrow> 'w rt_machine \<times> 'w \<Rightarrow> 'w rt_machine \<times> 'w" where
  "transitionTo_RT new_state event = (\<lambda>(m, w).
     let old_state = current_state m;
         m = m\<lparr>current_state := new_state\<rparr>
     in (m, case transition_callback m of None \<Rightarrow> w | Some cb \<Rightarrow> cb old_state new_state event w))"

text \<open>The switch of \<^verbatim>\<open>handleEvent\<close>; an event without a case leaves \<^verbatim>\<open>next_state\<close> as it was.\<close>

fun next_state :: "RTState \<Rightarrow> RTEvent \<Rightarrow> RTState" where
  "next_state INIT event =
    (if event = START then READY else if event = ERROR_OCCUR then ERROR else INIT)"
| "next_state READY event =
    (if event = START then RUNNING else if event = ERROR_OCCUR then ERROR
     else if event = STOP then SHUTDOWN else READY)"
| "next_state RUNNING event =
    (if event = PAUSE then PAUSED else if event = STOP then SHUTDOWN
     else if event = ERROR_OCCUR then ERROR else if event = SAFE_MODE_ENTER then SAFE_MODE
     else RUNNING)"
| "next_state PAUSED event =
    (if event = RESUME then RUNNING else if event = STOP then SHUTDOWN
     else if event = ERROR_OCCUR then ERROR else PAUSED)"
| "next_state SAFE_MODE event =
    (if event = SAFE_MODE_EXIT then RUNNING else if event = STOP then SHUTDOWN
     else if event = ERROR_OCCUR then ERROR else SAFE_MODE)"
| "next_state ERROR event =
    (if event = RESET then INIT else if event = STOP then SHUTDOWN else ERROR)"
| "next_state SHUTDOWN event = SHUTDOWN"

definition handleEvent :: "RTEvent \<Rightarrow> 'w rt_machine \<times> 'w \<Rightarrow> int \<times> ('w rt_machine \<times> 'w)" where
  "handleEvent event = (\<lambda>(m, w).
     let next = next_state (current_state m) event in
     if next = current_state m then (- 1, (m, w))
     else (0, transitionTo_RT next event (m, w)))"

definition isValidTransition_RT :: "RTState \<Rightarrow> RTState \<Rightarrow> RTEvent \<Rightarrow> bool" where
  "isValidTransition_RT from to event = True"

fun stateToString :: "RTState \<Rightarrow> string" where
  "stateToString INIT = ''INIT''"
| "stateToString READY = ''READY''"
| "stateToString RUNNING = ''RUNNING''"
| "stateToString PAUSED = ''PAUSED''"
| "stateToString SAFE_MODE = ''SAFE_MODE''"
| "stateToString ERROR = ''ERROR''"
| "stateToString SHUTDOWN = ''SHUTDOWN''"

fun eventToString :: "RTEvent \<Rightarrow> string" where
  "eventToString START = ''START''"
| "eventToString PAUSE = ''PAUSE''"
| "eventToString RESUME = ''RESUME''"
| "eventToString STOP = ''STOP''"
| "eventToString ERROR_OCCUR = ''ERROR_OCCUR''"
| "eventToString SAFE_MODE_ENTER = ''SAFE_MODE_ENTER''"
| "eventToString SAFE_MODE_EXIT = ''SAFE_MODE_EXIT''"
| "eventToString RESET = ''RESET''"

definition rt_step :: "'w rt_machine \<times> 'w \<Rightarrow> RTEvent \<Rightarrow> 'w rt_machine \<times> 'w" where
  "rt_step s event = snd (handleEvent event s)"

section \<open>Lemmas\<close>

text \<open>The transitions the documentation draws, as a relation on states.\<close>

inductive rt_trans :: "RTState \<Rightarrow> RTEvent \<Rightarrow> RTState \<Rightarrow> bool" where
  "rt_trans INIT START READY"
| "rt_trans READY START RUNNING"
| "rt_trans RUNNING PAUSE PAUSED"
| "rt_trans PAUSED RESUME RUNNING"
| "rt_trans RUNNING SAFE_MODE_ENTER SAFE_MODE"
| "rt_trans SAFE_MODE SAFE_MODE_EXIT RUNNING"
| "s \<noteq> ERROR \<Longrightarrow> s \<noteq> SHUTDOWN \<Longrightarrow> rt_trans s ERROR_OCCUR ERROR"
| "s \<noteq> INIT \<Longrightarrow> s \<noteq> SHUTDOWN \<Longrightarrow> rt_trans s STOP SHUTDOWN"
| "rt_trans ERROR RESET INIT"

code_pred rt_trans .

inductive_simps rt_trans_simps: "rt_trans s e s'"

lemma next_state_trans:
  "rt_trans s e s' \<longleftrightarrow> next_state s e = s' \<and> s' \<noteq> s"
  by (cases s; cases e; cases s'; simp add: rt_trans_simps)

lemma current_state_handleEvent [simp]:
  "current_state (fst (snd (handleEvent e (m, w)))) = next_state (current_state m) e"
  by (simp add: handleEvent_def transitionTo_RT_def Let_def)

lemma transition_callback_handleEvent [simp]:
  "transition_callback (fst (snd (handleEvent e (m, w)))) = transition_callback m"
  by (simp add: handleEvent_def transitionTo_RT_def Let_def)

text \<open>A list of notifications is a path of the transition relation.\<close>

fun rt_path :: "RTState \<Rightarrow> (RTState \<times> RTState \<times> RTEvent) list \<Rightarrow> RTState \<Rightarrow> bool" where
  "rt_path s [] s' \<longleftrightarrow> s = s'"
| "rt_path s ((from, to, e) # ns) s' \<longleftrightarrow> from = s \<and> rt_trans from e to \<and> rt_path to ns s'"

lemma rt_path_snoc:
  "rt_path s (ns @ [(a, b, e)]) s' \<longleftrightarrow> rt_path s ns a \<and> rt_trans a e b \<and> b = s'"
  by (induction ns arbitrary: s) auto

definition record_transition :: "(RTState \<times> RTState \<times> RTEvent) list transition_callback" where
  "record_transition from to event log = log @ [(from, to, event)]"

lemma rt_step_record:
  assumes "transition_callback m = Some record_transition" and "rt_path s0 log (current_state m)"
  shows "transition_callback (fst (rt_step (m, log) e)) = Some record_transition \<and>
    rt_path s0 (snd (rt_step (m, log) e)) (current_state (fst (rt_step (m, log) e)))"
  using assms
  by (simp add: rt_step_def handleEvent_def transitionTo_RT_def Let_def record_transition_def
      rt_path_snoc next_state_trans)

section \<open>Properties\<close>

text \<open>An event is accepted exactly when it has a transition from the current state. Accepted,
  it returns 0, moves to the target and calls the callback once with the old state, the new
  state and the event; rejected, it returns -1 and changes nothing.\<close>

theorem handleEvent_spec:
  "handleEvent event (m, w) =
    (if \<exists>s'. rt_trans (current_state m) event s'
     then (0, (m\<lparr>current_state := next_state (current_state m) event\<rparr>,
               case transition_callback m of
                 None \<Rightarrow> w
               | Some cb \<Rightarrow> cb (current_state m) (next_state (current_state m) event) event w))
     else (- 1, (m, w)))"
  by (auto simp: handleEvent_def transitionTo_RT_def Let_def next_state_trans)

text \<open>Once shut down, no sequence of events leaves \<^verbatim>\<open>SHUTDOWN\<close>, and no callback fires.\<close>

theorem rt_shutdown_final:
  assumes "current_state m = SHUTDOWN"
  shows "run_steps rt_step (m, w) es = (m, w)"
  using assms by (induction es) (auto simp: rt_step_def handleEvent_def)

theorem rt_shutdown_final_witness:
  "run_steps rt_step (\<lparr>current_state = SHUTDOWN, transition_callback = None\<rparr>, ()) [RESET, START] =
    (\<lparr>current_state = SHUTDOWN, transition_callback = None\<rparr>, ())"
  by (rule rt_shutdown_final) simp

text \<open>The notifications of a run are the path it took: starting in \<^verbatim>\<open>INIT\<close> with a recording
  callback, they form a chain of documented transitions from \<^verbatim>\<open>INIT\<close> to the current state.\<close>

theorem rt_notifications_path:
  "rt_path INIT (snd (run_steps rt_step (setTransitionCallback (Some record_transition) RTStateMachine, []) es))
     (current_state (fst (run_steps rt_step (setTransitionCallback (Some record_transition) RTStateMachine, []) es)))"
proof -
  have "transition_callback (fst s) = Some record_transition \<and> rt_path INIT (snd s) (current_state (fst s)) \<Longrightarrow>
    rt_path INIT (snd (run_steps rt_step s es)) (current_state (fst (run_steps rt_step s es)))" for s
  proof (induction es arbitrary: s)
    case (Cons e es)
    obtain m log where "s = (m, log)" by (cases s)
    with Cons show ?case using rt_step_record [of m INIT log e] by simp
  qed simp
  then show ?thesis by (simp add: setTransitionCallback_def RTStateMachine_def)
qed

end
