(* ===== verification/RT_Executive.thy ===== *)
theory RT_Executive
  imports RT_Schedule RT_StateMachine
begin

text \<open>
  The cyclic executive of the real-time process: \<^verbatim>\<open>src/src/core/rt/RTExecutive.{h,cpp}\<close> with
  \<^verbatim>\<open>RTContext.h\<close> and the heartbeats of \<^verbatim>\<open>ipc/SharedMemoryData.h\<close>.

  The executive acts on an environment: the event bus (the events published so far), the
  heartbeats in shared memory and the calls of the registered actions, each with the context
  it was given. Clock readings are arguments. An iteration of the loop of \<^verbatim>\<open>run\<close> is
  \<open>run_cycle\<close>; \<open>rt_op\<close> adds what other threads may do between iterations. The result
  \<open>None\<close> stands for the divisions by zero and the out-of-range access of the C++ code, and
  for a registration loop that does not end.

  Performance counters, metrics and the thread's scheduling set-up are left out: they do not
  influence which actions run.

  The lemmas show at which cycles a registered action runs, that an executive created from a
  list of periods runs an action of such a period exactly every period, and when the loss of
  the heartbeat moves the process to \<^verbatim>\<open>SAFE_MODE\<close> and back.
\<close>

section \<open>Model\<close>

record rt_context =
  data_store :: bool
  context_slot :: u32
  context_cycle :: u64
  timestamp_ns :: u64

datatype rt_bus_event =
    RTStateChangedEvent string string string
  | RTSafeModeEnteredEvent u64 string
  | RTSafeModeExitedEvent u64

record shm_data =
  rt_heartbeat_ns :: u64
  nonrt_heartbeat_ns :: u64

definition HEARTBEAT_TIMEOUT_NS :: u64 where
  "HEARTBEAT_TIMEOUT_NS = 500000000"

record rt_env =
  published :: "rt_bus_event list"
  shm :: shm_data
  calls :: "(string \<times> rt_context) list"

record action_slot =
  action_name :: string
  period_ms :: u32
  callback :: bool
  guard :: "(RTState \<Rightarrow> bool) option"
  next_slot :: u32

record init_hook =
  hook_name :: string
  hook_throws :: bool

record rt_executive =
  ex_minor_cycle_ms :: u32
  ex_major_cycle_ms :: u32
  ex_num_slots :: u32
  running :: bool
  current_slot :: u32
  cycle_count :: u64
  ex_context :: rt_context
  state_machine :: "rt_env rt_machine"
  shared_memory_ptr :: bool
  heartbeat_monitoring_enabled :: bool
  last_heartbeat_check_ns :: u64
  safe_mode_enter_time_ns :: u64
  event_bus :: bool
  schedule :: "action_slot list list"
  init_hooks :: "init_hook list"

definition publish_rt :: "rt_bus_event \<Rightarrow> rt_env \<Rightarrow> rt_env" where
  "publish_rt ev w = w\<lparr>published := published w @ [ev]\<rparr>"

definition publish_transition :: "rt_env transition_callback" where
  "publish_transition from to event =
     publish_rt (RTStateChangedEvent (stateToString from) (stateToString to) (eventToString event))"

text \<open>\<^verbatim>\<open>state_machine_->handleEvent\<close> on the executive; the return code is not used.\<close>

definition machine_event :: "RTEvent \<Rightarrow> rt_executive \<times> rt_env \<Rightarrow> rt_executive \<times> rt_env" where
  "machine_event event = (\<lambda>(x, w).
     let (m, w) = snd (handleEvent event (state_machine x, w)) in (x\<lparr>state_machine := m\<rparr>, w))"

text \<open>The constructor; \<^verbatim>\<open>major_cycle_ms / minor_cycle_ms\<close> divides by zero when the minor cycle is 0.\<close>

definition RTExecutive :: "u32 \<Rightarrow> u32 \<Rightarrow> bool \<Rightarrow> rt_env \<Rightarrow> (rt_executive \<times> rt_env) option" where
  "RTExecutive minor major bus w =
    (if minor = 0 then None
     else Some (machine_event START
       (\<lparr>ex_minor_cycle_ms = minor, ex_major_cycle_ms = major, ex_num_slots = major div minor,
         running = False, current_slot = 0, cycle_count = 0,
         ex_context = \<lparr>data_store = False, context_slot = 0, context_cycle = 0, timestamp_ns = 0\<rparr>,
         state_machine = (if bus then setTransitionCallback (Some publish_transition) RTStateMachine
                          else RTStateMachine),
         shared_memory_ptr = False, heartbeat_monitoring_enabled = False,
         last_heartbeat_check_ns = 0, safe_mode_enter_time_ns = 0, event_bus = bus,
         schedule = replicate (unat (major div minor)) [], init_hooks = []\<rparr>, w)))"

definition createFromPeriods :: "u32 list \<Rightarrow> bool \<Rightarrow> rt_env \<Rightarrow> (rt_executive \<times> rt_env) option" where
  "createFromPeriods periods_ms bus w =
    (case calculate periods_ms of
       Inl e \<Rightarrow> None
     | Inr params \<Rightarrow> RTExecutive (minor_cycle_ms params) (major_cycle_ms params) bus w)"

text \<open>
  The loop of \<^verbatim>\<open>registerAction\<close>. \<^verbatim>\<open>slot += slot_interval\<close> is a 32-bit addition; when the
  interval is 0 the loop does not end.
\<close>

partial_function (option) register_slots ::
    "action_slot \<Rightarrow> u32 \<Rightarrow> u32 \<Rightarrow> u32 \<Rightarrow> action_slot list list \<Rightarrow> action_slot list list option" where
  "register_slots action slot_interval n_slots slot sched =
    (if slot < n_slots
     then register_slots action slot_interval n_slots (slot + slot_interval)
            (sched[unat slot := sched ! unat slot @ [action]])
     else Some sched)"

declare register_slots.simps [code]

definition registerAction ::
    "string \<Rightarrow> u32 \<Rightarrow> bool \<Rightarrow> (RTState \<Rightarrow> bool) option \<Rightarrow> rt_executive \<Rightarrow> (int \<times> rt_executive) option" where
  "registerAction name period cb g x =
    (if period mod ex_minor_cycle_ms x \<noteq> 0 then Some (- 1, x)
     else
       let slot_interval = period div ex_minor_cycle_ms x;
           action = \<lparr>action_name = name, period_ms = period, callback = cb, guard = g,
                     next_slot = slot_interval\<rparr>
       in map_option (\<lambda>sched. (0, x\<lparr>schedule := sched\<rparr>))
            (register_slots action slot_interval (ex_num_slots x) 0 (schedule x)))"

fun execute_actions :: "RTState \<Rightarrow> rt_context \<Rightarrow> action_slot list \<Rightarrow> rt_env \<Rightarrow> rt_env" where
  "execute_actions st ctx [] w = w"
| "execute_actions st ctx (a # as) w =
    execute_actions st ctx as
      (if (case guard a of None \<Rightarrow> True | Some g \<Rightarrow> g st) \<and> callback a
       then w\<lparr>calls := calls w @ [(action_name a, ctx)]\<rparr> else w)"

definition executeSlot :: "u32 \<Rightarrow> rt_executive \<times> rt_env \<Rightarrow> (rt_executive \<times> rt_env) option" where
  "executeSlot slot = (\<lambda>(x, w).
     if unat slot < length (schedule x)
     then Some (x, execute_actions (current_state (state_machine x)) (ex_context x) (schedule x ! unat slot) w)
     else None)"

definition setDataStore :: "bool \<Rightarrow> rt_executive \<Rightarrow> rt_executive" where
  "setDataStore ds x = x\<lparr>ex_context := (ex_context x)\<lparr>data_store := ds\<rparr>\<rparr>"

definition setSharedMemory :: "bool \<Rightarrow> u64 \<Rightarrow> rt_executive \<Rightarrow> rt_executive" where
  "setSharedMemory ptr now_ns x = x\<lparr>shared_memory_ptr := ptr, last_heartbeat_check_ns := now_ns\<rparr>"

definition enableHeartbeatMonitoring :: "bool \<Rightarrow> rt_executive \<Rightarrow> rt_executive" where
  "enableHeartbeatMonitoring enable x = x\<lparr>heartbeat_monitoring_enabled := enable\<rparr>"

definition enter_safe_mode :: "u64 \<Rightarrow> u64 \<Rightarrow> rt_executive \<times> rt_env \<Rightarrow> rt_executive \<times> rt_env" where
  "enter_safe_mode now_ns time_since_last_hb = (\<lambda>(x, w).
     let x = x\<lparr>safe_mode_enter_time_ns := now_ns\<rparr>;
         w = (if event_bus x
              then publish_rt (RTSafeModeEnteredEvent (time_since_last_hb div 1000000)
                     ''Non-RT heartbeat timeout'') w
              else w)
     in machine_event SAFE_MODE_ENTER (x, w))"

definition exit_safe_mode :: "u64 \<Rightarrow> rt_executive \<times> rt_env \<Rightarrow> rt_executive \<times> rt_env" where
  "exit_safe_mode now_ns = (\<lambda>(x, w).
     let w = (if event_bus x \<and> 0 < safe_mode_enter_time_ns x
              then publish_rt (RTSafeModeExitedEvent ((now_ns - safe_mode_enter_time_ns x) div 1000000)) w
              else w);
         (x, w) = machine_event SAFE_MODE_EXIT (x, w)
     in (x\<lparr>safe_mode_enter_time_ns := 0\<rparr>, w))"

definition checkHeartbeat :: "u64 \<Rightarrow> rt_executive \<times> rt_env \<Rightarrow> rt_executive \<times> rt_env" where
  "checkHeartbeat now_ns = (\<lambda>(x, w).
     if \<not> heartbeat_monitoring_enabled x \<or> \<not> shared_memory_ptr x then (x, w)
     else
       let time_since_last_hb = now_ns - nonrt_heartbeat_ns (shm w);
           (x, w) =
             (if HEARTBEAT_TIMEOUT_NS < time_since_last_hb
              then if current_state (state_machine x) = RUNNING
                   then enter_safe_mode now_ns time_since_last_hb (x, w) else (x, w)
              else if current_state (state_machine x) = SAFE_MODE
                   then exit_safe_mode now_ns (x, w) else (x, w))
       in (x, w\<lparr>shm := (shm w)\<lparr>rt_heartbeat_ns := now_ns\<rparr>\<rparr>))"

text \<open>\<^verbatim>\<open>run\<close> up to its loop; the local \<^verbatim>\<open>cycle_start_ns\<close> is the third component of the state.\<close>

type_synonym rt_run = "rt_executive \<times> rt_env \<times> u64"

definition run_begin :: "u64 \<Rightarrow> rt_executive \<times> rt_env \<Rightarrow> rt_run" where
  "run_begin now_ns = (\<lambda>(x, w).
     let (x, w) = (if current_state (state_machine x) = READY then machine_event START (x, w) else (x, w))
     in (x\<lparr>running := True, current_slot := 0, cycle_count := 0\<rparr>, w, now_ns))"

definition run_cycle :: "u64 \<Rightarrow> rt_run \<Rightarrow> rt_run option" where
  "run_cycle now_ns = (\<lambda>(x, w, cycle_start_ns).
     if \<not> running x then Some (x, w, cycle_start_ns)
     else
       let x = x\<lparr>ex_context := (ex_context x)\<lparr>context_slot := current_slot x,
                  context_cycle := cycle_count x, timestamp_ns := cycle_start_ns\<rparr>\<rparr>
       in case executeSlot (current_slot x) (checkHeartbeat now_ns (x, w)) of
            None \<Rightarrow> None
          | Some (x, w) \<Rightarrow>
              if ex_num_slots x = 0 then None
              else Some (x\<lparr>current_slot := (current_slot x + 1) mod ex_num_slots x,
                           cycle_count := cycle_count x + 1\<rparr>, w,
                         cycle_start_ns + ucast (ex_minor_cycle_ms x) * 1000000))"

text \<open>Iterations of the loop, one per clock reading of \<^verbatim>\<open>checkHeartbeat\<close>.\<close>

fun run_cycles :: "u64 list \<Rightarrow> rt_run \<Rightarrow> rt_run option" where
  "run_cycles [] s = Some s"
| "run_cycles (t # ts) s = (case run_cycle t s of None \<Rightarrow> None | Some s \<Rightarrow> run_cycles ts s)"

definition stop_rt :: "rt_executive \<times> rt_env \<Rightarrow> rt_executive \<times> rt_env" where
  "stop_rt = (\<lambda>(x, w).
     if running x
     then let x = x\<lparr>running := False\<rparr> in
          if current_state (state_machine x) = RUNNING \<or> current_state (state_machine x) = PAUSED
          then machine_event STOP (x, w) else (x, w)
     else (x, w))"

definition registerInitializationHook :: "init_hook \<Rightarrow> rt_executive \<Rightarrow> rt_executive" where
  "registerInitializationHook h x = x\<lparr>init_hooks := init_hooks x @ [h]\<rparr>"

text \<open>The names of the hooks that ran, and whether a hook threw (which ends the loop).\<close>

fun execute_hooks :: "init_hook list \<Rightarrow> string list \<times> bool" where
  "execute_hooks [] = ([], False)"
| "execute_hooks (h # hs) =
    (if hook_throws h then ([hook_name h], True)
     else case execute_hooks hs of (ns, thrown) \<Rightarrow> (hook_name h # ns, thrown))"

definition executeInitializationHooks :: "rt_executive \<Rightarrow> string list \<times> bool" where
  "executeInitializationHooks x = execute_hooks (init_hooks x)"

section \<open>Lemmas\<close>

subsection \<open>Registration\<close>

lemma register_slots_spec:
  assumes "0 < unat i" and "unat n + unat i \<le> 2 ^ 32" and "length sched = unat n"
  shows "register_slots a i n slot sched =
    Some (map (\<lambda>k. sched ! k @ (if unat slot \<le> k \<and> unat i dvd k - unat slot then [a] else [])) [0..<unat n])"
  using assms
proof (induction "unat n - unat slot" arbitrary: slot sched rule: less_induct)
  case less
  let ?s = "unat slot" and ?i = "unat i"
  show ?case
  proof (cases "slot < n")
    case False
    then have "map (\<lambda>k. sched ! k @ (if ?s \<le> k \<and> ?i dvd k - ?s then [a] else [])) [0..<unat n] = sched"
      using less.prems by (auto intro!: nth_equalityI simp: word_less_nat_alt)
    then show ?thesis using False by (simp add: register_slots.simps)
  next
    case True
    have sum: "unat (slot + i) = ?s + ?i"
      using True less.prems by (simp add: unat_word_ariths word_less_nat_alt)
    have "register_slots a i n slot sched =
        Some (map (\<lambda>k. sched[?s := sched ! ?s @ [a]] ! k @
          (if ?s + ?i \<le> k \<and> ?i dvd k - (?s + ?i) then [a] else [])) [0..<unat n])"
      using True less.prems less.hyps [of "slot + i" "sched[?s := sched ! ?s @ [a]]"]
      by (simp add: register_slots.simps [of a i n slot sched] sum word_less_nat_alt)
    moreover have "sched[?s := sched ! ?s @ [a]] ! k @ (if ?s + ?i \<le> k \<and> ?i dvd k - (?s + ?i) then [a] else []) =
        sched ! k @ (if ?s \<le> k \<and> ?i dvd k - ?s then [a] else [])" if "k < unat n" for k
    proof -
      consider "k < ?s" | "k = ?s" | "?s < k" "k < ?s + ?i" | "?s + ?i \<le> k" by linarith
      then show ?thesis
      proof cases
        case 3
        then have "\<not> ?i dvd k - ?s" by (auto dest!: dvd_imp_le)
        with 3 show ?thesis by simp
      next
        case 4
        then have "k - ?s = k - (?s + ?i) + ?i" by simp
        then have "?i dvd k - ?s \<longleftrightarrow> ?i dvd k - (?s + ?i)" by (metis dvd_add_left_iff dvd_refl)
        moreover have "k \<noteq> ?s" using 4 less.prems by linarith
        ultimately show ?thesis using 4 by simp
      qed (use that less.prems in auto)
    qed
    ultimately show ?thesis by simp
  qed
qed

lemma register_slots_zero:
  assumes "slot < n"
  shows "register_slots a 0 n slot sched = None"
proof (cases "register_slots a 0 n slot sched")
  case (Some y)
  then have "(0 :: u32) = 0 \<longrightarrow> \<not> slot < n"
    by (rule register_slots.raw_induct [where P = "\<lambda>a i n slot sched y. i = 0 \<longrightarrow> \<not> slot < n", rotated])
      (auto split: if_splits)
  with assms show ?thesis by simp
qed

text \<open>The invariant of an executive that can run.\<close>

definition exec_ok :: "rt_executive \<Rightarrow> bool" where
  "exec_ok x \<longleftrightarrow> 0 < unat (ex_minor_cycle_ms x) \<and> 0 < unat (ex_num_slots x) \<and>
     length (schedule x) = unat (ex_num_slots x) \<and>
     transition_callback (state_machine x) \<in> {None, Some publish_transition}"

text \<open>The actions of that name in a slot.\<close>

definition actions_named :: "string \<Rightarrow> rt_executive \<Rightarrow> nat \<Rightarrow> action_slot list" where
  "actions_named name x s = filter (\<lambda>a. action_name a = name) (schedule x ! s)"

lemma registerAction_spec:
  assumes "exec_ok x" and "unat (ex_minor_cycle_ms x) dvd unat p" and "0 < unat p"
    and "unat (ex_num_slots x) + unat p div unat (ex_minor_cycle_ms x) \<le> 2 ^ 32"
  shows "\<exists>x'. registerAction name p cb g x = Some (0, x') \<and> exec_ok x' \<and>
     x' = x\<lparr>schedule := schedule x'\<rparr> \<and>
     (\<forall>s < unat (ex_num_slots x). schedule x' ! s = schedule x ! s @
        (if unat p div unat (ex_minor_cycle_ms x) dvd s
         then [\<lparr>action_name = name, period_ms = p, callback = cb, guard = g,
                next_slot = p div ex_minor_cycle_ms x\<rparr>] else []))"
proof -
  have "p mod ex_minor_cycle_ms x = 0"
    using assms(2) by (simp add: unat_eq_zero [symmetric] unat_mod dvd_eq_mod_eq_0)
  moreover have "0 < unat (p div ex_minor_cycle_ms x)"
    using assms(1-3) by (simp add: unat_div exec_ok_def div_greater_zero_iff dvd_imp_le)
  ultimately show ?thesis
    using assms(1,4) by (auto simp: registerAction_def Let_def register_slots_spec exec_ok_def unat_div)
qed

subsection \<open>Cycles\<close>

text \<open>What the state machine and the heartbeat leave alone.\<close>

definition same_frame :: "rt_executive \<Rightarrow> rt_executive \<Rightarrow> bool" where
  "same_frame x x' \<longleftrightarrow>
     (\<exists>m t. x' = x\<lparr>state_machine := m, safe_mode_enter_time_ns := t\<rparr>)"

lemma same_frame_refl: "same_frame x x"
  unfolding same_frame_def
  by (rule exI [of _ "state_machine x"], rule exI [of _ "safe_mode_enter_time_ns x"]) simp

lemma same_frame_machine: "same_frame x (x\<lparr>state_machine := m\<rparr>)"
  unfolding same_frame_def
  by (rule exI [of _ m], rule exI [of _ "safe_mode_enter_time_ns x"]) simp

lemma same_frameI: "same_frame x (x\<lparr>state_machine := m, safe_mode_enter_time_ns := t\<rparr>)"
  unfolding same_frame_def by blast

lemma same_frame_time: "same_frame x y \<Longrightarrow> same_frame x (y\<lparr>safe_mode_enter_time_ns := t\<rparr>)"
  unfolding same_frame_def [of x y] by (auto intro: same_frameI)

lemma machine_event_frame:
  assumes "machine_event e (x, w) = (x', w')" and "exec_ok x"
  shows "exec_ok x' \<and> same_frame x x' \<and> calls w' = calls w"
  using assms
  by (auto simp: machine_event_def exec_ok_def same_frame_refl same_frame_machine handleEvent_def transitionTo_RT_def
      publish_transition_def publish_rt_def Let_def split: if_splits)

lemma exec_ok_enter_time [simp]: "exec_ok (x\<lparr>safe_mode_enter_time_ns := t\<rparr>) = exec_ok x"
  by (simp add: exec_ok_def)

lemma calls_publish [simp]: "calls (publish_rt ev w) = calls w"
  by (simp add: publish_rt_def)

lemma enter_safe_mode_frame:
  assumes "enter_safe_mode t d (x, w) = (x', w')" and "exec_ok x"
  shows "exec_ok x' \<and> same_frame x x' \<and> calls w' = calls w"
  using machine_event_frame [OF assms(1) [unfolded enter_safe_mode_def prod.case Let_def]] assms(2)
  by (auto simp: same_frame_def)

lemma exit_safe_mode_frame:
  assumes "exit_safe_mode t (x, w) = (x', w')" and "exec_ok x"
  shows "exec_ok x' \<and> same_frame x x' \<and> calls w' = calls w"
proof -
  define w1 where "w1 = (if event_bus x \<and> 0 < safe_mode_enter_time_ns x
      then publish_rt (RTSafeModeExitedEvent ((t - safe_mode_enter_time_ns x) div 1000000)) w else w)"
  then have w1: "calls w1 = calls w" by simp
  obtain x2 w2 where m: "machine_event SAFE_MODE_EXIT (x, w1) = (x2, w2)" by fastforce
  have "x' = x2\<lparr>safe_mode_enter_time_ns := 0\<rparr>" "w' = w2"
    using assms(1) m by (auto simp: exit_safe_mode_def w1_def)
  with machine_event_frame [OF m assms(2)] w1 show ?thesis by (auto intro: same_frame_time)
qed

lemma checkHeartbeat_frame:
  assumes "checkHeartbeat t (x, w) = (x', w')" and "exec_ok x"
  shows "exec_ok x' \<and> same_frame x x' \<and> calls w' = calls w"
proof -
  let ?d = "t - nonrt_heartbeat_ns (shm w)"
  consider "x' = x" "calls w' = calls w"
    | w1 where "enter_safe_mode t ?d (x, w) = (x', w1)" "calls w' = calls w1"
    | w1 where "exit_safe_mode t (x, w) = (x', w1)" "calls w' = calls w1"
    using assms(1) by (auto simp: checkHeartbeat_def Let_def split: if_splits prod.splits)
  then show ?thesis
    by cases (use assms(2) enter_safe_mode_frame exit_safe_mode_frame in \<open>auto simp: same_frame_refl\<close>)
qed

text \<open>The cycles in which actions of a name were called.\<close>

definition called_cycles :: "string \<Rightarrow> rt_env \<Rightarrow> nat list" where
  "called_cycles name w =
     map (\<lambda>c. unat (context_cycle (snd c))) (filter (\<lambda>c. fst c = name) (calls w))"

definition unguarded :: "action_slot \<Rightarrow> bool" where
  "unguarded a \<longleftrightarrow> guard a = None \<and> callback a"

lemma called_cycles_execute:
  assumes "list_all unguarded (filter (\<lambda>a. action_name a = name) as)"
  shows "called_cycles name (execute_actions st ctx as w) = called_cycles name w @
    replicate (length (filter (\<lambda>a. action_name a = name) as)) (unat (context_cycle ctx))"
  using assms
proof (induction as arbitrary: w)
  case (Cons a as)
  then show ?case
    by (auto simp: unguarded_def called_cycles_def replicate_append_same split: if_splits)
qed (simp add: called_cycles_def)

lemma run_begin_frame:
  assumes "exec_ok x"
  shows "\<exists>x1 w1. run_begin t0 (x, w) = (x1\<lparr>running := True, current_slot := 0, cycle_count := 0\<rparr>, w1, t0) \<and>
    exec_ok x1 \<and> same_frame x x1 \<and> calls w1 = calls w"
proof (cases "current_state (state_machine x) = READY")
  case True
  obtain x1 w1 where m: "machine_event START (x, w) = (x1, w1)" by fastforce
  with True show ?thesis
    using machine_event_frame [OF m assms] by (auto simp: run_begin_def)
next
  case False
  then show ?thesis using assms same_frame_refl by (auto simp: run_begin_def)
qed

lemma run_cycle_spec:
  assumes ok: "exec_ok x" and run: "running x" and slot: "current_slot x < ex_num_slots x"
    and ung: "list_all unguarded (actions_named name x (unat (current_slot x)))"
  shows "\<exists>x' w'. run_cycle t (x, w, cs) = Some (x', w', cs + ucast (ex_minor_cycle_ms x) * 1000000) \<and>
    exec_ok x' \<and> running x' \<and> schedule x' = schedule x \<and>
    ex_num_slots x' = ex_num_slots x \<and> ex_minor_cycle_ms x' = ex_minor_cycle_ms x \<and>
    current_slot x' = (current_slot x + 1) mod ex_num_slots x \<and>
    cycle_count x' = cycle_count x + 1 \<and>
    called_cycles name w' = called_cycles name w @
      replicate (length (actions_named name x (unat (current_slot x)))) (unat (cycle_count x))"
proof -
  define ctx where "ctx = (ex_context x)\<lparr>context_slot := current_slot x,
    context_cycle := cycle_count x, timestamp_ns := cs\<rparr>"
  obtain x1 w1 where hb: "checkHeartbeat t (x\<lparr>ex_context := ctx\<rparr>, w) = (x1, w1)" by fastforce
  have ok1: "exec_ok (x\<lparr>ex_context := ctx\<rparr>)" using ok by (simp add: exec_ok_def)
  note fr = checkHeartbeat_frame [OF hb ok1]
  then have same: "schedule x1 = schedule x" "ex_num_slots x1 = ex_num_slots x"
      "ex_minor_cycle_ms x1 = ex_minor_cycle_ms x" "current_slot x1 = current_slot x"
      "cycle_count x1 = cycle_count x" "ex_context x1 = ctx" "running x1 = running x"
    by (auto simp: same_frame_def)
  let ?w = "execute_actions (current_state (state_machine x1)) ctx (schedule x ! unat (current_slot x)) w1"
  have "executeSlot (current_slot x) (x1, w1) = Some (x1, ?w)"
    using ok slot by (simp add: executeSlot_def same exec_ok_def word_less_nat_alt)
  moreover have "ex_num_slots x \<noteq> 0" using ok by (auto simp: exec_ok_def)
  moreover have "called_cycles name w1 = called_cycles name w" using fr by (simp add: called_cycles_def)
  then have "called_cycles name ?w = called_cycles name w @
      replicate (length (actions_named name x (unat (current_slot x)))) (unat (cycle_count x))"
    using ung by (simp add: called_cycles_execute actions_named_def ctx_def)
  moreover have "exec_ok (x1\<lparr>current_slot := s, cycle_count := c\<rparr>)" for s c
    using fr by (simp add: exec_ok_def)
  ultimately show ?thesis
    using run by (simp add: run_cycle_def Let_def ctx_def [symmetric] hb same)
qed

lemma run_cycles_spec:
  assumes "exec_ok x" and "running x"
    and "unat (current_slot x) = c mod unat (ex_num_slots x)" and "unat (cycle_count x) = c"
    and "c + length ts < 2 ^ 64"
    and "\<And>s. s < unat (ex_num_slots x) \<Longrightarrow> list_all unguarded (actions_named name x s)"
  shows "\<exists>x' w' cs'. run_cycles ts (x, w, cs) = Some (x', w', cs') \<and>
    called_cycles name w' = called_cycles name w @
      concat (map (\<lambda>k. replicate (length (actions_named name x (k mod unat (ex_num_slots x)))) k)
        [c ..< c + length ts])"
  using assms
proof (induction ts arbitrary: x w cs c)
  case (Cons t ts)
  let ?n = "ex_num_slots x"
  have slot: "current_slot x < ?n"
    using Cons.prems(1,3) by (simp add: word_less_nat_alt exec_ok_def)
  obtain x1 w1 where step: "run_cycle t (x, w, cs) = Some (x1, w1, cs + ucast (ex_minor_cycle_ms x) * 1000000)"
    and x1: "exec_ok x1" "running x1" "schedule x1 = schedule x" "ex_num_slots x1 = ?n"
      "current_slot x1 = (current_slot x + 1) mod ?n" "cycle_count x1 = cycle_count x + 1"
    and called: "called_cycles name w1 = called_cycles name w @
      replicate (length (actions_named name x (c mod unat ?n))) c"
    using run_cycle_spec [OF Cons.prems(1,2) slot, of name t w cs] Cons.prems(3,4,6) slot
    by (auto simp: word_less_nat_alt)
  have same: "actions_named name x1 s = actions_named name x s" for s
    by (simp add: actions_named_def x1)
  have "unat (current_slot x1) = Suc c mod unat (ex_num_slots x1)"
    using slot by (simp add: x1 unat_mod unat_inc_less Cons.prems(3) mod_Suc_eq)
  moreover have "unat (cycle_count x1) = Suc c"
    using Cons.prems(4,5) by (simp add: x1 unat_inc)
  ultimately obtain x' w' cs' where
    "run_cycles ts (x1, w1, cs + ucast (ex_minor_cycle_ms x) * 1000000) = Some (x', w', cs')"
    "called_cycles name w' = called_cycles name w1 @
      concat (map (\<lambda>k. replicate (length (actions_named name x (k mod unat ?n))) k) [Suc c ..< Suc c + length ts])"
    using Cons.IH [of x1 "Suc c" w1 "cs + ucast (ex_minor_cycle_ms x) * 1000000"] x1 Cons.prems(5,6)
    by (auto simp: same simp del: upt_Suc)
  then show ?case
    using step called by (simp add: upt_conv_Cons del: upt_Suc)
qed simp

subsection \<open>Several registrations\<close>

type_synonym action_req = "string \<times> u32 \<times> bool \<times> (RTState \<Rightarrow> bool) option"

fun register_all :: "action_req list \<Rightarrow> rt_executive \<Rightarrow> rt_executive option" where
  "register_all [] x = Some x"
| "register_all ((name, p, cb, g) # reqs) x =
    (case registerAction name p cb g x of None \<Rightarrow> None | Some (_, x) \<Rightarrow> register_all reqs x)"

definition action_of :: "u32 \<Rightarrow> action_req \<Rightarrow> action_slot" where
  "action_of minor = (\<lambda>(name, p, cb, g). \<lparr>action_name = name, period_ms = p, callback = cb,
     guard = g, next_slot = p div minor\<rparr>)"

definition good_period :: "rt_executive \<Rightarrow> u32 \<Rightarrow> bool" where
  "good_period x p \<longleftrightarrow> 0 < unat p \<and> unat (ex_minor_cycle_ms x) dvd unat p \<and>
     unat (ex_num_slots x) + unat p div unat (ex_minor_cycle_ms x) \<le> 2 ^ 32"

lemma register_all_spec:
  assumes "exec_ok x" and "list_all (\<lambda>r. good_period x (fst (snd r))) reqs"
  shows "\<exists>x'. register_all reqs x = Some x' \<and> exec_ok x' \<and> x' = x\<lparr>schedule := schedule x'\<rparr> \<and>
    (\<forall>s < unat (ex_num_slots x). schedule x' ! s = schedule x ! s @
       map (action_of (ex_minor_cycle_ms x))
         (filter (\<lambda>r. unat (fst (snd r)) div unat (ex_minor_cycle_ms x) dvd s) reqs))"
  using assms
proof (induction reqs arbitrary: x)
  case (Cons r reqs)
  obtain name p cb g where r: "r = (name, p, cb, g)" by (cases r)
  obtain x1 where x1: "registerAction name p cb g x = Some (0, x1)" "exec_ok x1"
    and frame: "x1 = x\<lparr>schedule := schedule x1\<rparr>"
    and sched: "\<forall>s < unat (ex_num_slots x). schedule x1 ! s = schedule x ! s @
      (if unat p div unat (ex_minor_cycle_ms x) dvd s then [action_of (ex_minor_cycle_ms x) r] else [])"
    using registerAction_spec [OF Cons.prems(1), of p name cb g] Cons.prems(2)
    by (auto simp: r good_period_def action_of_def)
  have same: "ex_minor_cycle_ms x1 = ex_minor_cycle_ms x" "ex_num_slots x1 = ex_num_slots x"
    by (subst frame, simp)+
  obtain x2 where x2: "register_all reqs x1 = Some x2" "exec_ok x2" "x2 = x1\<lparr>schedule := schedule x2\<rparr>"
    "\<forall>s < unat (ex_num_slots x). schedule x2 ! s = schedule x1 ! s @
       map (action_of (ex_minor_cycle_ms x))
         (filter (\<lambda>r. unat (fst (snd r)) div unat (ex_minor_cycle_ms x) dvd s) reqs)"
    using Cons.IH [OF x1(2)] Cons.prems(2) by (auto simp: same good_period_def)
  have "x2 = x\<lparr>schedule := schedule x2\<rparr>"
    using x2(3) frame by (metis (no_types) rt_executive.surjective rt_executive.update_convs(14))
  with x1(1) x2 sched show ?case by (auto simp: r)
qed simp

lemma createFromPeriods_ok:
  assumes "createFromPeriods ps bus w0 = Some (x, w)" and "list_all (\<lambda>q. unat q < 2 ^ 16) ps"
  shows "exec_ok x \<and> calls w = calls w0 \<and> schedule x = replicate (unat (ex_num_slots x)) [] \<and>
    (\<forall>p \<in> set ps. good_period x p \<and> unat p dvd unat (ex_minor_cycle_ms x) * unat (ex_num_slots x))"
proof -
  obtain r where r: "calculate ps = Inr r"
    and new: "RTExecutive (minor_cycle_ms r) (major_cycle_ms r) bus w0 = Some (x, w)"
    using assms(1) by (auto simp: createFromPeriods_def split: sum.splits)
  obtain p0 where p0: "p0 \<in> set ps" using r by (cases ps) (auto simp: calculate_def)
  note sched = calculate_schedule [OF r assms(2)]
  have quot: "unat (major_cycle_ms r div minor_cycle_ms r) = unat (num_slots r)"
    using sched [OF p0] by (simp add: unat_div)
  have pos: "0 < unat (major_cycle_ms r)" and small: "unat (major_cycle_ms r) < 2 ^ 16"
    using calculate_small [OF r assms(2)] by simp_all
  have "0 < unat (num_slots r)"
    using sched [OF p0] pos by (intro gr0I) auto
  have fields: "ex_minor_cycle_ms x = minor_cycle_ms r" "unat (ex_num_slots x) = unat (num_slots r)"
      "schedule x = replicate (unat (num_slots r)) []" "calls w = calls w0"
      "transition_callback (state_machine x) \<in> {None, Some publish_transition}"
    using new by (auto simp: RTExecutive_def machine_event_def handleEvent_def transitionTo_RT_def
        setTransitionCallback_def RTStateMachine_def publish_transition_def quot split: if_splits)
  have "good_period x p" if "p \<in> set ps" for p
  proof -
    have "unat p \<le> unat (major_cycle_ms r)"
      using sched [OF that] \<open>0 < unat (num_slots r)\<close> by (intro dvd_imp_le) auto
    moreover have "unat (num_slots r) \<le> unat (major_cycle_ms r)" using sched [OF that] by simp
    moreover have "unat p div unat (minor_cycle_ms r) \<le> unat p" by simp
    moreover have "(2 :: nat) ^ 16 + 2 ^ 16 \<le> 2 ^ 32" by simp
    ultimately have "unat (num_slots r) + unat p div unat (minor_cycle_ms r) \<le> 2 ^ 32"
      using small by linarith
    then show ?thesis
      using sched [OF that] calculate_nonzero [OF r that]
      by (simp add: good_period_def fields unat_gt_0)
  qed
  moreover have "unat p dvd unat (minor_cycle_ms r) * unat (num_slots r)" if "p \<in> set ps" for p
    using sched [OF that] by metis
  ultimately show ?thesis
    using sched [OF p0] fields \<open>0 < unat (num_slots r)\<close> by (auto simp: exec_ok_def)
qed

lemma concat_replicate_filter:
  "concat (map (\<lambda>k. replicate (if P k then 1 else 0) k) ks) = filter P ks"
  by (induction ks) auto

lemma filter_unique:
  assumes "distinct (map f xs)" and "r \<in> set xs"
  shows "filter (\<lambda>x. f x = f r \<and> Q x) xs = (if Q r then [r] else [])"
  using assms by (induction xs) (auto simp: filter_empty_conv intro: rev_image_eqI)

lemma registered_action_cycles:
  assumes ok0: "exec_ok x0" and empty: "schedule x0 = replicate (unat (ex_num_slots x0)) []"
    and good: "list_all (\<lambda>r. good_period x0 (fst (snd r))) reqs" and dist: "distinct (map fst reqs)"
    and req: "(name, p, True, None) \<in> set reqs" and len: "length ts < 2 ^ 64"
  shows "\<exists>x x' w' cs'. register_all reqs x0 = Some x \<and>
    run_cycles ts (run_begin t0 (x, w)) = Some (x', w', cs') \<and>
    called_cycles name w' = called_cycles name w @
      filter (\<lambda>k. unat p div unat (ex_minor_cycle_ms x0) dvd k mod unat (ex_num_slots x0)) [0..<length ts]"
proof -
  let ?m = "ex_minor_cycle_ms x0" and ?n = "unat (ex_num_slots x0)" and ?r = "(name, p, True, None)"
  obtain x where reg: "register_all reqs x0 = Some x" and ok: "exec_ok x"
    and frame: "x = x0\<lparr>schedule := schedule x\<rparr>"
    and sched: "\<And>s. s < ?n \<Longrightarrow> schedule x ! s = map (action_of ?m)
        (filter (\<lambda>r. unat (fst (snd r)) div unat ?m dvd s) reqs)"
    using register_all_spec [OF ok0 good] by (auto simp: empty)
  have n: "ex_num_slots x = ex_num_slots x0" by (subst frame) simp
  have named: "actions_named name x s =
      (if unat p div unat ?m dvd s then [action_of ?m ?r] else [])" if "s < ?n" for s
  proof -
    have "actions_named name x s = map (action_of ?m)
        (filter (\<lambda>r. fst r = fst ?r \<and> unat (fst (snd r)) div unat ?m dvd s) reqs)"
      using that by (auto simp: actions_named_def sched filter_map comp_def action_of_def
          case_prod_beta conj_commute intro!: arg_cong [where f = "map _"] filter_cong)
    then show ?thesis
      using filter_unique [OF dist req, of "\<lambda>r. unat (fst (snd r)) div unat ?m dvd s"] by simp
  qed
  obtain x1 w1 where b: "run_begin t0 (x, w) = (x1\<lparr>running := True, current_slot := 0, cycle_count := 0\<rparr>, w1, t0)"
    and "exec_ok x1" and fr: "same_frame x x1" and "calls w1 = calls w"
    using run_begin_frame [OF ok] by blast
  let ?x = "x1\<lparr>running := True, current_slot := 0, cycle_count := 0\<rparr>"
  have x1: "exec_ok ?x" "ex_num_slots x1 = ex_num_slots x0" "\<And>s. actions_named name ?x s = actions_named name x s"
    using \<open>exec_ok x1\<close> fr n by (auto simp: exec_ok_def same_frame_def actions_named_def)
  have "0 < ?n" using ok0 by (simp add: exec_ok_def)
  then have "length (actions_named name ?x (k mod ?n)) = (if unat p div unat ?m dvd k mod ?n then 1 else 0)" for k
    by (simp add: x1 named)
  moreover have "list_all unguarded (actions_named name ?x s)" if "s < ?n" for s
    using named [OF that] by (simp add: x1 unguarded_def action_of_def)
  ultimately show ?thesis
    using run_cycles_spec [OF x1(1), of 0 ts name w1 t0] len reg b x1(2) \<open>calls w1 = calls w\<close>
    by (simp add: concat_replicate_filter called_cycles_def)
qed

lemma dvd_slot_iff:
  assumes "good_period x p" and "exec_ok x"
    and "unat p dvd unat (ex_minor_cycle_ms x) * unat (ex_num_slots x)"
  shows "unat p div unat (ex_minor_cycle_ms x) dvd k mod unat (ex_num_slots x) \<longleftrightarrow>
    unat p dvd k * unat (ex_minor_cycle_ms x)"
proof -
  obtain q where q: "unat p = unat (ex_minor_cycle_ms x) * q"
    using assms(1) by (auto simp: good_period_def elim: dvdE)
  have m: "0 < unat (ex_minor_cycle_ms x)" using assms(2) by (simp add: exec_ok_def)
  then have "q dvd unat (ex_num_slots x)" using assms(3) q by simp
  then show ?thesis using q m by (simp add: dvd_mod_iff mult.commute)
qed

subsection \<open>Heartbeat\<close>

lemma current_state_machine_event [simp]:
  "current_state (state_machine (fst (machine_event e (x, w)))) =
     next_state (current_state (state_machine x)) e"
  by (simp add: machine_event_def case_prod_beta)

lemma checkHeartbeat_state:
  assumes "heartbeat_monitoring_enabled x" and "shared_memory_ptr x"
  shows "current_state (state_machine (fst (checkHeartbeat now (x, w)))) =
    (if HEARTBEAT_TIMEOUT_NS < now - nonrt_heartbeat_ns (shm w)
     then if current_state (state_machine x) = RUNNING then SAFE_MODE
          else current_state (state_machine x)
     else if current_state (state_machine x) = SAFE_MODE then RUNNING
          else current_state (state_machine x))"
  using assms
  by (simp add: checkHeartbeat_def enter_safe_mode_def exit_safe_mode_def Let_def case_prod_beta)

lemma age_of_heartbeat:
  "unat (now - hb :: u64) =
     (if unat hb \<le> unat now then unat now - unat hb else 2 ^ 64 + unat now - unat hb)"
  by (auto simp: unat_sub_if' word_le_nat_alt)

section \<open>Properties\<close>


definition idle_env :: rt_env where
  "idle_env = \<lparr>published = [], shm = \<lparr>rt_heartbeat_ns = 0, nonrt_heartbeat_ns = 0\<rparr>, calls = []\<rparr>"


text \<open>An action whose period does not divide the major cycle does not run every period: slots
  are counted from the start of each major cycle, so it runs in the cycles whose number within
  the major cycle is a multiple of its slot interval, and the last gap of a major cycle is short.\<close>

theorem action_restarts_each_major_cycle:
  assumes "RTExecutive minor major bus w0 = Some (x0, w)" and "minor \<le> major"
    and "0 < unat p" and "unat minor dvd unat p" and "unat major + unat p \<le> 2 ^ 32"
    and "length ts < 2 ^ 64"
  shows "\<exists>x x' w' cs'. registerAction name p True None x0 = Some (0, x) \<and>
    run_cycles ts (run_begin t0 (x, w)) = Some (x', w', cs') \<and>
    called_cycles name w' = called_cycles name w @
      filter (\<lambda>k. unat p div unat minor dvd k mod (unat major div unat minor)) [0..<length ts]"
proof -
  have x0: "minor \<noteq> 0" "ex_minor_cycle_ms x0 = minor" "ex_num_slots x0 = major div minor"
      "schedule x0 = replicate (unat (major div minor)) []"
      "transition_callback (state_machine x0) \<in> {None, Some publish_transition}"
    using assms(1) by (auto simp: RTExecutive_def machine_event_def handleEvent_def
        transitionTo_RT_def setTransitionCallback_def RTStateMachine_def split: if_splits)
  have ok: "exec_ok x0"
    using x0 assms(2) by (simp add: exec_ok_def unat_div unat_gt_0 div_greater_zero_iff word_le_nat_alt)
  moreover have "unat major div unat minor + unat p div unat minor \<le> unat major + unat p"
    by (intro add_mono) simp_all
  then have "good_period x0 p"
    using assms(3-5) by (simp add: good_period_def x0 unat_div)
  moreover obtain x where reg: "registerAction name p True None x0 = Some (0, x)"
    using registerAction_spec [OF ok, of p name True None] \<open>good_period x0 p\<close>
    by (auto simp: good_period_def)
  ultimately obtain x' w' cs' where "run_cycles ts (run_begin t0 (x, w)) = Some (x', w', cs')"
    "called_cycles name w' = called_cycles name w @
      filter (\<lambda>k. unat p div unat (ex_minor_cycle_ms x0) dvd k mod unat (ex_num_slots x0)) [0..<length ts]"
    using registered_action_cycles [of x0 "[(name, p, True, None)]" name p ts t0 w] assms(6) x0(3,4)
    by auto
  with reg show ?thesis unfolding x0 unat_div by blast
qed

theorem action_restarts_each_major_cycle_witness:
  "\<exists>x0 w x x' w' cs'. RTExecutive 10 50 False idle_env = Some (x0, w) \<and>
    registerAction ''a'' 20 True None x0 = Some (0, x) \<and>
    run_cycles (replicate 8 0) (run_begin 0 (x, w)) = Some (x', w', cs') \<and>
    called_cycles ''a'' w' = [0, 2, 4, 5, 7]"
proof -
  obtain x0 w where c: "RTExecutive 10 50 False idle_env = Some (x0, w)" and w: "calls w = []"
    by (auto simp: RTExecutive_def machine_event_def handleEvent_def transitionTo_RT_def
        RTStateMachine_def idle_env_def Let_def)
  have "filter (\<lambda>k. 20 div 10 dvd k mod (50 div (10 :: nat))) [0..<8] = [0, 2, 4, 5, 7]"
    by (simp add: upt_rec)
  with action_restarts_each_major_cycle [OF c, of 20 "replicate 8 0" "''a''" 0] w c
  show ?thesis by (auto simp: called_cycles_def)
qed

text \<open>\<^verbatim>\<open>registerAction\<close> accepts a period of 0, because 0 is a multiple of the minor cycle, and
  then never returns: the slot interval is 0 and the loop stays in slot 0.\<close>

theorem registerAction_zero_diverges:
  assumes "exec_ok x"
  shows "registerAction name 0 cb g x = None"
  using assms by (simp add: registerAction_def exec_ok_def register_slots_zero word_less_nat_alt)

theorem registerAction_zero_diverges_witness:
  "\<exists>x w. RTExecutive 10 50 False idle_env = Some (x, w) \<and> registerAction ''a'' 0 True None x = None"
proof -
  obtain x w where c: "RTExecutive 10 50 False idle_env = Some (x, w)" and "exec_ok x"
    by (auto simp: RTExecutive_def machine_event_def handleEvent_def transitionTo_RT_def
        RTStateMachine_def idle_env_def exec_ok_def Let_def)
  with registerAction_zero_diverges [of x "''a''" True None] show ?thesis by auto
qed

text \<open>C31. With monitoring on and a heartbeat not in the future, the heartbeat check enters
  \<^verbatim>\<open>SAFE_MODE\<close> exactly from \<^verbatim>\<open>RUNNING\<close> when the last heartbeat is more than 500 ms old, leaves it
  exactly when it is not, and moves no other state.\<close>

theorem heartbeat_safe_mode:
  assumes "heartbeat_monitoring_enabled x" and "shared_memory_ptr x"
    and "unat (nonrt_heartbeat_ns (shm w)) \<le> unat now"
  shows "current_state (state_machine (fst (checkHeartbeat now (x, w)))) =
    (case current_state (state_machine x) of
       RUNNING \<Rightarrow> if unat now - unat (nonrt_heartbeat_ns (shm w)) > 500000000 then SAFE_MODE else RUNNING
     | SAFE_MODE \<Rightarrow> if unat now - unat (nonrt_heartbeat_ns (shm w)) > 500000000 then SAFE_MODE else RUNNING
     | s \<Rightarrow> s)"
  using assms
  by (simp add: checkHeartbeat_state HEARTBEAT_TIMEOUT_NS_def word_less_nat_alt age_of_heartbeat
      split: RTState.splits)

definition monitored :: "RTState \<Rightarrow> rt_executive" where
  "monitored s =
    \<lparr>ex_minor_cycle_ms = 10, ex_major_cycle_ms = 10, ex_num_slots = 1, running = True,
     current_slot = 0, cycle_count = 0,
     ex_context = \<lparr>data_store = False, context_slot = 0, context_cycle = 0, timestamp_ns = 0\<rparr>,
     state_machine = \<lparr>current_state = s, transition_callback = None\<rparr>,
     shared_memory_ptr = True, heartbeat_monitoring_enabled = True,
     last_heartbeat_check_ns = 0, safe_mode_enter_time_ns = 0, event_bus = False,
     schedule = [[]], init_hooks = []\<rparr>"

theorem heartbeat_safe_mode_witness:
  "current_state (state_machine (fst (checkHeartbeat 500000001 (monitored RUNNING, idle_env)))) = SAFE_MODE \<and>
   current_state (state_machine (fst (checkHeartbeat 500000000 (monitored SAFE_MODE, idle_env)))) = RUNNING"
  using heartbeat_safe_mode [of "monitored RUNNING" idle_env 500000001]
    heartbeat_safe_mode [of "monitored SAFE_MODE" idle_env 500000000]
  by (simp add: monitored_def idle_env_def)

text \<open>A heartbeat newer than the clock reading, which the check takes before it loads the
  heartbeat, makes the 64-bit age wrap: the running process enters \<^verbatim>\<open>SAFE_MODE\<close> although the
  heartbeat is fresh.\<close>

theorem newer_heartbeat_enters_safe_mode:
  assumes "heartbeat_monitoring_enabled x" and "shared_memory_ptr x"
    and "current_state (state_machine x) = RUNNING"
    and "unat now < unat (nonrt_heartbeat_ns (shm w))"
    and "unat (nonrt_heartbeat_ns (shm w)) - unat now < 2 ^ 64 - 500000000"
  shows "current_state (state_machine (fst (checkHeartbeat now (x, w)))) = SAFE_MODE"
  using assms
  by (simp add: checkHeartbeat_state HEARTBEAT_TIMEOUT_NS_def word_less_nat_alt age_of_heartbeat)

theorem newer_heartbeat_enters_safe_mode_witness:
  "current_state (state_machine (fst (checkHeartbeat 1000
     (monitored RUNNING, idle_env\<lparr>shm := \<lparr>rt_heartbeat_ns = 0, nonrt_heartbeat_ns = 1001\<rparr>\<rparr>)))) = SAFE_MODE"
  by (rule newer_heartbeat_enters_safe_mode) (simp_all add: monitored_def)

text \<open>\<^verbatim>\<open>stop\<close> of a running executive always ends the loop, but reaches \<^verbatim>\<open>SHUTDOWN\<close> only from
  \<^verbatim>\<open>RUNNING\<close> and \<^verbatim>\<open>PAUSED\<close>: an executive stopped in \<^verbatim>\<open>SAFE_MODE\<close> stays in \<^verbatim>\<open>SAFE_MODE\<close>, although
  the state machine has a transition from there.\<close>

theorem stop_state:
  "running x \<Longrightarrow>
   \<not> running (fst (stop_rt (x, w))) \<and>
   current_state (state_machine (fst (stop_rt (x, w)))) =
     (if current_state (state_machine x) \<in> {RUNNING, PAUSED} then SHUTDOWN
      else current_state (state_machine x)) \<and>
   run_cycle t (fst (stop_rt (x, w)), snd (stop_rt (x, w)), cs) =
     Some (fst (stop_rt (x, w)), snd (stop_rt (x, w)), cs)"
  by (auto simp: stop_rt_def run_cycle_def machine_event_def handleEvent_def transitionTo_RT_def
      Let_def case_prod_beta)

theorem stop_state_witness:
  "current_state (state_machine (fst (stop_rt (monitored SAFE_MODE, idle_env)))) = SAFE_MODE"
  using stop_state [of "monitored SAFE_MODE" idle_env 0 0] by (simp add: monitored_def)

end
