(* ===== verification/RT_DataStore.thy ===== *)
theory RT_DataStore
  imports Mxrc_Prelude
begin

text \<open>
  The fixed-size store of the real-time process: \<^verbatim>\<open>src/src/core/rt/RTDataStore.{h,cpp}\<close> and
  its shared-memory wrapper \<^verbatim>\<open>RTDataStoreShared.{h,cpp}\<close>.

  An entry is as the code lays it out: a 32-byte union, a type tag, a time stamp and the
  64-bit sequence number of a seqlock. Numbers are stored in their little-endian bytes; a
  \<^verbatim>\<open>float\<close> and a \<^verbatim>\<open>double\<close> are their bit patterns. Keys are 16-bit numbers.

  The operations appear twice. As functions on the store (no other thread runs meanwhile) they
  give the functional behaviour, with the retry loop of a getter as a partial function, since it
  need not end. As steps on one entry (\<open>writer_program\<close>, \<open>reader_step\<close>), interleaved by a
  schedule under sequentially consistent memory, they give the behaviour of the seqlock: what a
  getter returns while a setter runs. The getters read the union one byte at a time there, so
  torn values are possible. Uninitialised locals of the getters are arguments.
\<close>

section \<open>Model\<close>

datatype DataType = NONE | INT32 | FLOAT | DOUBLE | UINT64 | STRING

record data_entry =
  value_bytes :: "u8 list"
  type_tag :: DataType
  timestamp :: u64
  seq :: u64

type_synonym data_key = u16

definition MAX_KEYS :: u16 where
  "MAX_KEYS = 512"

definition DataEntry :: data_entry where
  "DataEntry = \<lparr>value_bytes = replicate 32 0, type_tag = NONE, timestamp = 0, seq = 0\<rparr>"

type_synonym rt_store = "data_entry list"

definition RTDataStore :: rt_store where
  "RTDataStore = replicate 512 DataEntry"

definition isValidKey :: "data_key \<Rightarrow> bool" where
  "isValidKey key \<longleftrightarrow> key < MAX_KEYS"

text \<open>Little-endian bytes of a number and back.\<close>

fun le_bytes :: "nat \<Rightarrow> nat \<Rightarrow> u8 list" where
  "le_bytes 0 v = []"
| "le_bytes (Suc n) v = of_nat (v mod 256) # le_bytes n (v div 256)"

fun le_nat :: "u8 list \<Rightarrow> nat" where
  "le_nat [] = 0"
| "le_nat (b # bs) = unat b + 256 * le_nat bs"

text \<open>Bytes written at the start of the union; the others keep their values.\<close>

definition write_bytes :: "u8 list \<Rightarrow> u8 list \<Rightarrow> u8 list" where
  "write_bytes bs old = bs @ drop (length bs) old"

definition i32_bytes :: "u32 \<Rightarrow> u8 list" where "i32_bytes v = le_bytes 4 (unat v)"
definition f32_bytes :: "u32 \<Rightarrow> u8 list" where "f32_bytes v = le_bytes 4 (unat v)"
definition f64_bytes :: "u64 \<Rightarrow> u8 list" where "f64_bytes v = le_bytes 8 (unat v)"
definition u64_bytes :: "u64 \<Rightarrow> u8 list" where "u64_bytes v = le_bytes 8 (unat v)"

text \<open>\<^verbatim>\<open>setString\<close> copies at most 31 bytes and a terminator.\<close>

definition str_bytes :: "u8 list \<Rightarrow> u8 list" where
  "str_bytes v = (let copy_len = (if length v < 31 then length v else 31) in take copy_len v @ [0])"

subsection \<open>Setters: the accesses to the entry, in program order\<close>

datatype entry_access = FetchAddSeq | StoreValue "u8 list" | StoreType DataType | StoreTime u64

fun do_access :: "entry_access \<Rightarrow> data_entry \<Rightarrow> data_entry" where
  "do_access FetchAddSeq e = e\<lparr>seq := seq e + 1\<rparr>"
| "do_access (StoreValue bs) e = e\<lparr>value_bytes := write_bytes bs (value_bytes e)\<rparr>"
| "do_access (StoreType ty) e = e\<lparr>type_tag := ty\<rparr>"
| "do_access (StoreTime t) e = e\<lparr>timestamp := t\<rparr>"

definition writer_program :: "u8 list \<Rightarrow> DataType \<Rightarrow> u64 \<Rightarrow> entry_access list" where
  "writer_program bs ty now_ns =
     [FetchAddSeq, StoreValue bs, StoreType ty, StoreTime now_ns, FetchAddSeq]"

definition set_entry :: "u8 list \<Rightarrow> DataType \<Rightarrow> u64 \<Rightarrow> data_key \<Rightarrow> rt_store \<Rightarrow> int \<times> rt_store" where
  "set_entry bs ty now_ns key s =
    (if \<not> isValidKey key then (- 1, s)
     else (0, s[unat key := fold do_access (writer_program bs ty now_ns) (s ! unat key)]))"

definition setInt32 :: "u32 \<Rightarrow> u64 \<Rightarrow> data_key \<Rightarrow> rt_store \<Rightarrow> int \<times> rt_store" where
  "setInt32 v = set_entry (i32_bytes v) INT32"

definition setFloat :: "u32 \<Rightarrow> u64 \<Rightarrow> data_key \<Rightarrow> rt_store \<Rightarrow> int \<times> rt_store" where
  "setFloat v = set_entry (f32_bytes v) FLOAT"

definition setDouble :: "u64 \<Rightarrow> u64 \<Rightarrow> data_key \<Rightarrow> rt_store \<Rightarrow> int \<times> rt_store" where
  "setDouble v = set_entry (f64_bytes v) DOUBLE"

definition setUint64 :: "u64 \<Rightarrow> u64 \<Rightarrow> data_key \<Rightarrow> rt_store \<Rightarrow> int \<times> rt_store" where
  "setUint64 v = set_entry (u64_bytes v) UINT64"

text \<open>The argument \<open>None\<close> is the null pointer.\<close>

definition setString :: "u8 list option \<Rightarrow> u64 \<Rightarrow> data_key \<Rightarrow> rt_store \<Rightarrow> int \<times> rt_store" where
  "setString v now_ns key s =
    (case v of None \<Rightarrow> (- 1, s) | Some bs \<Rightarrow> set_entry (str_bytes bs) STRING now_ns key s)"

subsection \<open>Getters\<close>

text \<open>The locals of a getter; before the loop they are uninitialised.\<close>

record get_locals =
  seq1 :: u64
  seq2 :: u64
  temp_type :: DataType
  temp_value :: "u8 list"

text \<open>
  The retry loop when nobody writes meanwhile. \<^verbatim>\<open>continue\<close> in a \<^verbatim>\<open>do\<close>-\<^verbatim>\<open>while\<close> loop goes to the
  loop condition, which compares with \<^verbatim>\<open>seq2\<close> of an earlier pass.
\<close>

partial_function (option) read_loop :: "nat \<Rightarrow> data_entry \<Rightarrow> get_locals \<Rightarrow> get_locals option" where
  "read_loop n e l =
    (let l = l\<lparr>seq1 := seq e\<rparr> in
     if odd (unat (seq1 l))
     then if seq1 l \<noteq> seq2 l then read_loop n e l else Some l
     else
       let l = l\<lparr>temp_type := type_tag e, temp_value := take n (value_bytes e), seq2 := seq e\<rparr> in
       if seq1 l \<noteq> seq2 l then read_loop n e l else Some l)"

declare read_loop.simps [code]

text \<open>A getter of an \<open>n\<close>-byte value of type \<open>ty\<close>: the return code and the bytes it delivers.\<close>

definition get_entry ::
    "nat \<Rightarrow> DataType \<Rightarrow> get_locals \<Rightarrow> data_key \<Rightarrow> rt_store \<Rightarrow> (int \<times> u8 list option) option" where
  "get_entry n ty l key s =
    (if \<not> isValidKey key then Some (- 1, None)
     else map_option (\<lambda>l. if temp_type l \<noteq> ty then (- 1, None) else (0, Some (temp_value l)))
            (read_loop n (s ! unat key) l))"

definition getInt32 :: "get_locals \<Rightarrow> data_key \<Rightarrow> rt_store \<Rightarrow> (int \<times> u32 option) option" where
  "getInt32 l key s =
     map_option (map_prod id (map_option (\<lambda>bs. of_nat (le_nat bs)))) (get_entry 4 INT32 l key s)"

definition getFloat :: "get_locals \<Rightarrow> data_key \<Rightarrow> rt_store \<Rightarrow> (int \<times> u32 option) option" where
  "getFloat l key s =
     map_option (map_prod id (map_option (\<lambda>bs. of_nat (le_nat bs)))) (get_entry 4 FLOAT l key s)"

definition getDouble :: "get_locals \<Rightarrow> data_key \<Rightarrow> rt_store \<Rightarrow> (int \<times> u64 option) option" where
  "getDouble l key s =
     map_option (map_prod id (map_option (\<lambda>bs. of_nat (le_nat bs)))) (get_entry 8 DOUBLE l key s)"

definition getUint64 :: "get_locals \<Rightarrow> data_key \<Rightarrow> rt_store \<Rightarrow> (int \<times> u64 option) option" where
  "getUint64 l key s =
     map_option (map_prod id (map_option (\<lambda>bs. of_nat (le_nat bs)))) (get_entry 8 UINT64 l key s)"

text \<open>\<open>buffer_size\<close> is \<open>None\<close> for a null buffer; the result is what is written to the buffer.\<close>

definition getString ::
    "nat option \<Rightarrow> get_locals \<Rightarrow> data_key \<Rightarrow> rt_store \<Rightarrow> (int \<times> u8 list option) option" where
  "getString buffer_size l key s =
    (case buffer_size of
       None \<Rightarrow> Some (- 1, None)
     | Some sz \<Rightarrow>
         if \<not> isValidKey key \<or> sz = 0 then Some (- 1, None)
         else map_option (map_prod id (map_option (\<lambda>bs.
                let copy_len = (if sz < 32 then sz - 1 else 31) in take copy_len bs @ [0])))
              (get_entry 32 STRING l key s))"

subsection \<open>Sequence number and age\<close>

definition incrementSeq :: "data_key \<Rightarrow> rt_store \<Rightarrow> u64 \<times> rt_store" where
  "incrementSeq key s =
    (if \<not> isValidKey key then (0, s)
     else (seq (s ! unat key), s[unat key := do_access FetchAddSeq (s ! unat key)]))"

definition getSeq :: "data_key \<Rightarrow> rt_store \<Rightarrow> u64" where
  "getSeq key s = (if \<not> isValidKey key then 0 else seq (s ! unat key))"

definition isFresh :: "u64 \<Rightarrow> u64 \<Rightarrow> data_key \<Rightarrow> rt_store \<Rightarrow> bool" where
  "isFresh current_time max_age_ns key s \<longleftrightarrow>
     isValidKey key \<and> type_tag (s ! unat key) \<noteq> NONE \<and>
     current_time - timestamp (s ! unat key) \<le> max_age_ns"

definition getTimestamp :: "data_key \<Rightarrow> rt_store \<Rightarrow> u64" where
  "getTimestamp key s = (if \<not> isValidKey key then 0 else timestamp (s ! unat key))"

subsection \<open>A getter and a setter interleaved\<close>

datatype reader_pc = LoadSeq1 | LoadType | LoadByte nat | LoadSeq2 | Done

text \<open>One access of a getter of an \<open>n\<close>-byte value, with the control flow up to its next access.\<close>

fun reader_step :: "nat \<Rightarrow> data_entry \<Rightarrow> reader_pc \<times> get_locals \<Rightarrow> reader_pc \<times> get_locals" where
  "reader_step n e (LoadSeq1, l) =
    (let l = l\<lparr>seq1 := seq e\<rparr> in
     if odd (unat (seq1 l)) then (if seq1 l \<noteq> seq2 l then LoadSeq1 else Done, l)
     else (LoadType, l))"
| "reader_step n e (LoadType, l) =
    (LoadByte 0, l\<lparr>temp_type := type_tag e, temp_value := []\<rparr>)"
| "reader_step n e (LoadByte i, l) =
    (if i < n then (LoadByte (Suc i), l\<lparr>temp_value := temp_value l @ [value_bytes e ! i]\<rparr>)
     else (LoadSeq2, l))"
| "reader_step n e (LoadSeq2, l) =
    (let l = l\<lparr>seq2 := seq e\<rparr> in (if seq1 l \<noteq> seq2 l then LoadSeq1 else Done, l))"
| "reader_step n e (Done, l) = (Done, l)"

datatype agent = Writer | Reader

record seqlock =
  entry :: data_entry
  pending :: "entry_access list"
  reader :: "reader_pc \<times> get_locals"

fun seqlock_step :: "nat \<Rightarrow> seqlock \<Rightarrow> agent \<Rightarrow> seqlock" where
  "seqlock_step n s Writer =
    (case pending s of
       [] \<Rightarrow> s
     | a # as \<Rightarrow> s\<lparr>entry := do_access a (entry s), pending := as\<rparr>)"
| "seqlock_step n s Reader = s\<lparr>reader := reader_step n (entry s) (reader s)\<rparr>"

section \<open>Lemmas\<close>

subsection \<open>Bytes\<close>

lemma length_le_bytes [simp]: "length (le_bytes n v) = n"
  by (induction n arbitrary: v) auto

lemma le_nat_le_bytes: "le_nat (le_bytes n v) = v mod 256 ^ n"
proof (induction n arbitrary: v)
  case (Suc n)
  have "unat (of_nat (v mod 256) :: u8) = v mod 256" by (rule unat_of_nat_less) simp
  with Suc show ?case by (simp add: mod_mult2_eq)
qed simp

lemma of_nat_le_nat:
  fixes v :: "'a::len word"
  assumes "256 ^ n = (2 :: nat) ^ LENGTH('a)"
  shows "of_nat (le_nat (le_bytes n (unat v))) = v"
proof -
  have "unat v < 2 ^ LENGTH('a)" by (rule unsigned_less)
  then show ?thesis by (simp add: le_nat_le_bytes assms)
qed

lemma length_write_bytes: "length bs \<le> length old \<Longrightarrow> length (write_bytes bs old) = length old"
  by (simp add: write_bytes_def)

lemma take_write_bytes [simp]: "take (length bs) (write_bytes bs old) = bs"
  by (simp add: write_bytes_def)

lemma length_str_bytes: "length (str_bytes v) \<le> 32"
  by (simp add: str_bytes_def Let_def)

subsection \<open>The store without concurrency\<close>

definition entry_ok :: "data_entry \<Rightarrow> bool" where
  "entry_ok e \<longleftrightarrow> length (value_bytes e) = 32 \<and> even (unat (seq e))"

definition store_ok :: "rt_store \<Rightarrow> bool" where
  "store_ok s \<longleftrightarrow> length s = 512 \<and> list_all entry_ok s"

lemma store_ok_new: "store_ok RTDataStore"
  by (simp add: store_ok_def RTDataStore_def entry_ok_def DataEntry_def list_all_iff)

lemma even_add_2: "even (unat (x + 2 :: u64)) = even (unat x)"
  by (simp add: unat_word_ariths dvd_mod_iff)

lemma set_entry_result:
  "fold do_access (writer_program bs ty now) e =
     \<lparr>value_bytes = write_bytes bs (value_bytes e), type_tag = ty, timestamp = now, seq = seq e + 2\<rparr>"
  by (simp add: writer_program_def)

lemma store_ok_nth: "store_ok s \<Longrightarrow> isValidKey key \<Longrightarrow> unat key < length s \<and> entry_ok (s ! unat key)"
  by (auto simp: store_ok_def isValidKey_def MAX_KEYS_def word_less_nat_alt list_all_length)

lemma set_entry_ok:
  assumes "store_ok s" and "length bs \<le> 32"
  shows "store_ok (snd (set_entry bs ty now key s))"
proof (cases "isValidKey key")
  case True
  with store_ok_nth [OF assms(1) True] assms show ?thesis
    by (auto simp: set_entry_def set_entry_result store_ok_def list_all_iff entry_ok_def
        even_add_2 length_write_bytes dest!: set_update_subset_insert [THEN subsetD])
qed (use assms in \<open>simp add: set_entry_def\<close>)

lemma read_loop_even:
  assumes "even (unat (seq e))"
  shows "read_loop n e l = Some (l\<lparr>seq1 := seq e, temp_type := type_tag e,
    temp_value := take n (value_bytes e), seq2 := seq e\<rparr>)"
  using assms by (subst read_loop.simps) (simp add: Let_def)

lemma read_loop_odd:
  assumes "odd (unat (seq e))" and "seq2 l \<noteq> seq e"
  shows "read_loop n e l = None"
proof (cases "read_loop n e l")
  case (Some y)
  then have "\<not> (odd (unat (seq e)) \<and> seq2 l \<noteq> seq e)"
    by (rule read_loop.raw_induct [where P = "\<lambda>n e l y. \<not> (odd (unat (seq e)) \<and> seq2 l \<noteq> seq e)", rotated])
      (fastforce simp: Let_def split: if_splits)
  with assms show ?thesis by simp
qed

lemma get_after_set:
  assumes "store_ok s" and "isValidKey key" and "length bs = n"
  shows "get_entry n ty' l key (snd (set_entry bs ty now key s)) =
    Some (if ty' = ty then (0, Some bs) else (- 1, None))"
proof -
  have "even (unat (seq (s ! unat key) + 2))"
    using store_ok_nth [OF assms(1,2)] by (simp add: even_add_2 entry_ok_def)
  then show ?thesis
    using store_ok_nth [OF assms(1,2)] assms(2,3)
    by (auto simp: get_entry_def set_entry_def set_entry_result read_loop_even)
qed

lemma get_frame:
  assumes "key' \<noteq> key"
  shows "get_entry n ty' l key' (snd (set_entry bs ty now key s)) = get_entry n ty' l key' s"
  using assms by (simp add: get_entry_def set_entry_def word_unat_eq_iff)

subsection \<open>The seqlock\<close>

type_synonym entry_write = "u8 list \<times> DataType \<times> u64"

definition program_of :: "entry_write \<Rightarrow> entry_access list" where
  "program_of = (\<lambda>(bs, ty, now). writer_program bs ty now)"

text \<open>The entry after the first \<open>k\<close> of some calls of setters.\<close>

definition committed :: "data_entry \<Rightarrow> entry_write list \<Rightarrow> nat \<Rightarrow> data_entry" where
  "committed e writes k = fold do_access (concat (map program_of (take k writes))) e"

fun increments :: "entry_access list \<Rightarrow> nat" where
  "increments [] = 0"
| "increments (FetchAddSeq # as) = Suc (increments as)"
| "increments (_ # as) = increments as"

lemma increments_append [simp]: "increments (as @ bs) = increments as + increments bs"
  by (induction as rule: increments.induct) auto

lemma increments_program [simp]: "increments (program_of w) = 2"
  by (cases w) (simp add: program_of_def writer_program_def)

lemma increments_programs: "increments (concat (map program_of ws)) = 2 * length ws"
  by (induction ws) auto

lemma seq_fold: "seq (fold do_access as e) = seq e + of_nat (increments as)"
  by (induction as arbitrary: e rule: increments.induct) (auto simp: algebra_simps)

text \<open>A prefix of the setters' accesses with an even number of increments ends between calls.\<close>

lemma program_prefix:
  assumes "as @ bs = program_of w" and "even (increments as)"
  shows "as = [] \<or> bs = []"
proof -
  obtain v ty now where "program_of w = [FetchAddSeq, StoreValue v, StoreType ty, StoreTime now, FetchAddSeq]"
    by (cases w) (simp add: program_of_def writer_program_def)
  with assms show ?thesis
    by (auto simp: append_eq_Cons_conv)
qed

lemma even_prefix:
  assumes "as @ bs = concat (map program_of ws)" and "even (increments as)"
  shows "\<exists>k \<le> length ws. as = concat (map program_of (take k ws))"
  using assms
proof (induction ws arbitrary: as)
  case (Cons w ws)
  from Cons.prems(1) obtain us where
    "as = program_of w @ us \<and> us @ bs = concat (map program_of ws) \<or>
     as @ us = program_of w"
    by (auto simp: append_eq_append_conv2)
  then show ?case
  proof
    assume us: "as = program_of w @ us \<and> us @ bs = concat (map program_of ws)"
    then obtain k where "k \<le> length ws" "us = concat (map program_of (take k ws))"
      using Cons.IH [of us] Cons.prems(2) by auto
    then show ?thesis using us by (intro exI [of _ "Suc k"]) simp
  next
    assume us: "as @ us = program_of w"
    from program_prefix [OF this Cons.prems(2)] show ?thesis
    proof
      assume "as = []"
      then show ?thesis by (intro exI [of _ 0]) simp
    next
      assume "us = []"
      then show ?thesis using us by (intro exI [of _ 1]) simp
    qed
  qed
qed auto

text \<open>While the sequence number stays the same and even, the data does not change.\<close>

lemma program_writes_odd:
  assumes "as @ a # bs = concat (map program_of ws)" and "even (increments as)"
  shows "a = FetchAddSeq"
proof -
  obtain k where k: "k \<le> length ws" "as = concat (map program_of (take k ws))"
    using even_prefix [OF assms] by blast
  then have "as @ a # bs = as @ concat (map program_of (drop k ws))"
    using assms(1) by (metis append_take_drop_id concat_append map_append)
  then have "a # bs = concat (map program_of (drop k ws))" by simp
  then show ?thesis
    by (cases "drop k ws") (auto simp: program_of_def writer_program_def split: prod.splits)
qed

definition writes_ok :: "nat \<Rightarrow> data_entry \<Rightarrow> entry_write list \<Rightarrow> bool" where
  "writes_ok n e0 ws \<longleftrightarrow> entry_ok e0 \<and> n \<le> 32 \<and> list_all (\<lambda>(bs, _, _). length bs \<le> 32) ws \<and>
     unat (seq e0) + 2 * length ws < 2 ^ 64"

fun reader_inv :: "nat \<Rightarrow> data_entry \<Rightarrow> reader_pc \<times> get_locals \<Rightarrow> bool" where
  "reader_inv n e (LoadSeq1, l) = True"
| "reader_inv n e (Done, l) = True"
| "reader_inv n e (LoadType, l) = (even (unat (seq1 l)) \<and> seq1 l \<le> seq e)"
| "reader_inv n e (LoadByte i, l) = (even (unat (seq1 l)) \<and> seq1 l \<le> seq e \<and> i \<le> n \<and>
     (seq1 l = seq e \<longrightarrow> temp_type l = type_tag e \<and> temp_value l = take i (value_bytes e)))"
| "reader_inv n e (LoadSeq2, l) = (even (unat (seq1 l)) \<and> seq1 l \<le> seq e \<and>
     (seq1 l = seq e \<longrightarrow> temp_type l = type_tag e \<and> temp_value l = take n (value_bytes e)))"

definition seqlock_inv :: "nat \<Rightarrow> data_entry \<Rightarrow> entry_write list \<Rightarrow> seqlock \<Rightarrow> bool" where
  "seqlock_inv n e0 ws s \<longleftrightarrow> writes_ok n e0 ws \<and>
     (\<exists>as. as @ pending s = concat (map program_of ws) \<and> entry s = fold do_access as e0) \<and>
     reader_inv n (entry s) (reader s)"

fun access_fits :: "nat \<Rightarrow> entry_access \<Rightarrow> bool" where
  "access_fits m (StoreValue bs) = (length bs \<le> m)"
| "access_fits m _ = True"

lemma length_value_fold:
  assumes "list_all (access_fits (length (value_bytes e))) as"
  shows "length (value_bytes (fold do_access as e)) = length (value_bytes e)"
  using assms
proof (induction as arbitrary: e)
  case (Cons a as)
  then show ?case by (cases a) (auto simp: length_write_bytes)
qed simp

lemma seqlock_prefix:
  assumes "writes_ok n e0 ws" and "as @ bs = concat (map program_of ws)"
  shows "length (value_bytes (fold do_access as e0)) = 32 \<and>
    unat (seq (fold do_access as e0)) = unat (seq e0) + increments as \<and>
    unat (seq e0) + increments as + increments bs < 2 ^ 64"
proof -
  have "list_all (access_fits 32) (concat (map program_of ws))"
    using assms(1) by (auto simp: writes_ok_def list_all_iff program_of_def writer_program_def)
  then have "list_all (access_fits 32) as"
    unfolding assms(2) [symmetric] by simp
  then have len: "length (value_bytes (fold do_access as e0)) = 32"
    using assms(1) by (subst length_value_fold) (auto simp: writes_ok_def entry_ok_def)
  have "increments as + increments bs = 2 * length ws"
    using assms(2) by (metis increments_append increments_programs)
  then have *: "unat (seq e0) + increments as + increments bs < 2 ^ 64"
    using assms(1) by (simp add: writes_ok_def)
  moreover have "unat (seq e0 + of_nat (increments as)) = unat (seq e0) + increments as"
    using * by (simp add: unat_word_ariths unat_of_nat)
  ultimately show ?thesis using len by (simp add: seq_fold)
qed

lemma reader_inv_seq_change:
  assumes "reader_inv n e r" and "seq e < seq e'"
  shows "reader_inv n e' r"
  using assms by (induction n e r rule: reader_inv.induct) auto

lemma reader_inv_odd:
  assumes "reader_inv n e r" and "odd (unat (seq e))" and "seq e' = seq e"
  shows "reader_inv n e' r"
  using assms by (induction n e r rule: reader_inv.induct) auto

lemma reader_inv_step:
  assumes "reader_inv n e r" and "n \<le> length (value_bytes e)"
  shows "reader_inv n e (reader_step n e r)"
  using assms
  by (induction n e r rule: reader_step.induct) (auto simp: Let_def take_Suc_conv_app_nth)

lemma writer_inv_step:
  assumes ok: "writes_ok n e0 ws" and as: "as @ a # bs = concat (map program_of ws)"
    and inv: "reader_inv n (fold do_access as e0) r"
  shows "reader_inv n (do_access a (fold do_access as e0)) r"
proof (cases "a = FetchAddSeq")
  case True
  note seqlock_prefix [OF ok as]
  then have "seq (fold do_access as e0) < seq (fold do_access as e0) + 1"
    using True by (simp add: word_less_nat_alt unat_inc)
  then show ?thesis using inv True by (intro reader_inv_seq_change [OF inv]) simp
next
  case False
  then have "odd (increments as)" using program_writes_odd [OF as] by blast
  then have "odd (unat (seq (fold do_access as e0)))"
    using seqlock_prefix [OF ok as] ok by (simp add: writes_ok_def entry_ok_def)
  then show ?thesis
    using inv False by (intro reader_inv_odd [OF inv]) (cases a; simp)+
qed

interpretation sl: step_system "seqlock_step n" "seqlock_inv n e0 ws" for n e0 ws
proof unfold_locales
  fix s ag
  assume inv: "seqlock_inv n e0 ws s"
  then obtain as where ok: "writes_ok n e0 ws" and as: "as @ pending s = concat (map program_of ws)"
    and e: "entry s = fold do_access as e0" and r: "reader_inv n (fold do_access as e0) (reader s)"
    by (auto simp: seqlock_inv_def)
  show "seqlock_inv n e0 ws (seqlock_step n s ag)"
  proof (cases ag)
    case Writer
    show ?thesis
    proof (cases "pending s")
      case (Cons a bs)
      have "(as @ [a]) @ bs = concat (map program_of ws)" using as Cons by simp
      moreover have "do_access a (entry s) = fold do_access (as @ [a]) e0" by (simp add: e)
      moreover have "reader_inv n (do_access a (fold do_access as e0)) (reader s)"
        using writer_inv_step [OF ok _ r] as Cons by simp
      ultimately show ?thesis
        using Writer Cons ok by (auto simp: seqlock_inv_def e intro!: exI [of _ "as @ [a]"])
    qed (use inv Writer in simp)
  next
    case Reader
    have "n \<le> length (value_bytes (fold do_access as e0))"
      using seqlock_prefix [OF ok as] ok by (simp add: writes_ok_def)
    with reader_inv_step [OF r] show ?thesis using ok as e Reader by (auto simp: seqlock_inv_def)
  qed
qed

section \<open>Properties\<close>

text \<open>C30. Reading back: after a set of a valid key, the getter of the same type returns 0 and the value
  written, whatever its uninitialised locals hold, for all four number types.\<close>

theorem rt_store_roundtrip:
  assumes "store_ok s" and "isValidKey key"
  shows "getInt32 l key (snd (setInt32 i now key s)) = Some (0, Some i) \<and>
    getFloat l key (snd (setFloat f now key s)) = Some (0, Some f) \<and>
    getDouble l key (snd (setDouble d now key s)) = Some (0, Some d) \<and>
    getUint64 l key (snd (setUint64 u now key s)) = Some (0, Some u)"
  using assms
  by (simp add: getInt32_def setInt32_def i32_bytes_def getFloat_def setFloat_def f32_bytes_def
      getDouble_def setDouble_def f64_bytes_def getUint64_def setUint64_def u64_bytes_def
      get_after_set of_nat_le_nat)

theorem rt_store_roundtrip_witness:
  "getInt32 \<lparr>seq1 = 0, seq2 = 0, temp_type = NONE, temp_value = []\<rparr> 3
     (snd (setInt32 7 0 3 RTDataStore)) = Some (0, Some 7)"
  using rt_store_roundtrip [OF store_ok_new, of 3 _ 7] by (simp add: isValidKey_def MAX_KEYS_def)

text \<open>Reading a string back gives its longest prefix that fits: at most 31 bytes and at most one
  less than the buffer. The bytes up to the first terminator in the buffer are that prefix.\<close>

theorem rt_string_roundtrip:
  assumes "store_ok s" and "isValidKey key" and "0 \<notin> set v" and "0 < sz"
  shows "\<exists>out. getString (Some sz) l key (snd (setString (Some v) now key s)) = Some (0, Some out) \<and>
    takeWhile (\<lambda>b. b \<noteq> 0) out = take (min 31 (sz - 1)) v"
proof -
  let ?e = "s ! unat key" and ?c = "if sz < 32 then sz - 1 else 31"
  let ?bs = "take 32 (write_bytes (str_bytes v) (value_bytes ?e))"
  note k = store_ok_nth [OF assms(1,2)]
  have "get_entry 32 STRING l key (snd (setString (Some v) now key s)) = Some (0, Some ?bs)"
    using k assms(2) even_add_2 [of "seq ?e"]
    by (simp add: get_entry_def setString_def set_entry_def set_entry_result read_loop_even entry_ok_def)
  then have "getString (Some sz) l key (snd (setString (Some v) now key s)) =
      Some (0, Some (take ?c ?bs @ [0]))"
    using assms(2,4) by (simp add: getString_def)
  moreover have "takeWhile (\<lambda>b. b \<noteq> 0) (take ?c ?bs @ [0]) = take (min 31 (sz - 1)) v"
  proof -
    have sb: "str_bytes v = take 31 v @ [0]" by (simp add: str_bytes_def)
    have c: "?c = min 31 (sz - 1)" by auto
    have "take ?c ?bs = take ?c (take 31 v @ 0 # drop (length (str_bytes v)) (value_bytes ?e))"
      by (simp add: write_bytes_def sb)
    moreover have "b \<noteq> 0" if "b \<in> set (take m v)" for b m
      using that assms(3) by (metis in_set_takeD)
    moreover have "b \<noteq> 0" if "b \<in> set v" for b using that assms(3) by metis
    ultimately show ?thesis unfolding c
      by (cases "min 31 (sz - 1) \<le> length v")
        (auto simp: take_Cons' takeWhile_append2 min_def split: if_splits)
  qed
  ultimately show ?thesis by blast
qed

theorem rt_string_roundtrip_witness:
  "\<exists>out. getString (Some 3) \<lparr>seq1 = 0, seq2 = 0, temp_type = NONE, temp_value = []\<rparr> 4
     (snd (setString (Some [65, 66, 67]) 0 4 RTDataStore)) = Some (0, Some out) \<and>
   takeWhile (\<lambda>b. b \<noteq> 0) out = [65, 66]"
  using rt_string_roundtrip [OF store_ok_new, of 4 "[65, 66, 67]" 3]
  by (simp add: isValidKey_def MAX_KEYS_def)

text \<open>C2. A getter that leaves its loop through the second load of the sequence number returns a
  consistent snapshot: for every interleaving of its accesses with those of a sequence of
  setter calls, the type tag and the bytes it read are those of the entry after the first
  \<open>k\<close> calls, for some \<open>k\<close>.\<close>

theorem seqlock_snapshot:
  assumes "writes_ok n e0 ws"
    and "s = run_steps (seqlock_step n) \<lparr>entry = e0, pending = concat (map program_of ws), reader = (LoadSeq1, l0)\<rparr> sched"
    and "reader s = (LoadSeq2, l)" and "fst (reader (seqlock_step n s Reader)) = Done"
  shows "\<exists>k \<le> length ws. temp_type l = type_tag (committed e0 ws k) \<and>
    temp_value l = take n (value_bytes (committed e0 ws k))"
proof -
  have "seqlock_inv n e0 ws s"
    unfolding assms(2) by (rule sl.run_inv) (use assms(1) in \<open>simp add: seqlock_inv_def\<close>)
  then obtain as where as: "as @ pending s = concat (map program_of ws)"
    and e: "entry s = fold do_access as e0" and r: "reader_inv n (entry s) (LoadSeq2, l)"
    using assms(3) by (auto simp: seqlock_inv_def)
  have eq: "seq1 l = seq (entry s)"
    using assms(3,4) by (auto simp: Let_def split: if_splits)
  then have "even (unat (seq (entry s)))" using r by simp
  then have "even (increments as)"
    using seqlock_prefix [OF assms(1) as] assms(1) by (simp add: e writes_ok_def entry_ok_def)
  then obtain k where "k \<le> length ws" "as = concat (map program_of (take k ws))"
    using even_prefix [OF as] by blast
  then show ?thesis using r eq e by (auto simp: committed_def)
qed

theorem seqlock_snapshot_witness:
  "\<exists>k \<le> 1. NONE = type_tag (committed DataEntry [(i32_bytes 7, INT32, 0)] k)"
proof -
  let ?ws = "[(i32_bytes 7, INT32, 0 :: u64)]"
  let ?l0 = "\<lparr>seq1 = 0, seq2 = 0, temp_type = NONE, temp_value = []\<rparr>"
  let ?s = "run_steps (seqlock_step 1) \<lparr>entry = DataEntry, pending = concat (map program_of ?ws),
    reader = (LoadSeq1, ?l0)\<rparr> [Reader, Reader, Reader, Reader]"
  have a: "writes_ok 1 DataEntry ?ws" by (simp add: writes_ok_def entry_ok_def DataEntry_def i32_bytes_def)
  have b: "reader ?s = (LoadSeq2, \<lparr>seq1 = 0, seq2 = 0, temp_type = NONE, temp_value = [0]\<rparr>)"
    by (simp add: DataEntry_def Let_def)
  have c: "fst (reader (seqlock_step 1 ?s Reader)) = Done" by (simp add: DataEntry_def Let_def)
  from seqlock_snapshot [OF a refl b c] show ?thesis by auto
qed

text \<open>The other way out of the loop is unsafe. \<^verbatim>\<open>continue\<close> on an odd sequence number compares it with
  \<^verbatim>\<open>seq2\<close> of the previous pass, and a setter that started during that pass makes them equal.
  A float holds \<open>f\<close>; a setter stores the integer \<open>v\<close>: then \<^verbatim>\<open>getFloat\<close> can leave its loop with the tag
  \<^verbatim>\<open>FLOAT\<close> and the bytes of \<open>v\<close>, so it returns success with a float that was never stored.\<close>

theorem seqlock_torn_read:
  "\<exists>sched l. reader (run_steps (seqlock_step 4)
       \<lparr>entry = committed DataEntry [(f32_bytes f, FLOAT, t0)] 1,
        pending = program_of (i32_bytes v, INT32, t1), reader = (LoadSeq1, l0)\<rparr> sched) = (Done, l) \<and>
     temp_type l = FLOAT \<and> of_nat (le_nat (temp_value l)) = v"
proof -
  have "length (i32_bytes v) = 4" by (simp add: i32_bytes_def)
  then obtain a b c d where v: "i32_bytes v = [a, b, c, d]"
    by (auto simp: length_Suc_conv numeral_eq_Suc)
  let ?l = "l0\<lparr>seq1 := 3, temp_type := FLOAT, temp_value := i32_bytes v, seq2 := 3\<rparr>"
  have "reader (run_steps (seqlock_step 4)
       \<lparr>entry = committed DataEntry [(f32_bytes f, FLOAT, t0)] 1,
        pending = program_of (i32_bytes v, INT32, t1), reader = (LoadSeq1, l0)\<rparr>
       [Reader, Writer, Writer, Reader, Reader, Reader, Reader, Reader, Reader, Reader, Reader]) = (Done, ?l)"
    by (simp add: v committed_def program_of_def writer_program_def DataEntry_def Let_def write_bytes_def)
  moreover have "of_nat (le_nat (i32_bytes v)) = v" by (simp add: i32_bytes_def of_nat_le_nat)
  ultimately show ?thesis by fastforce
qed

text \<open>The public \<^verbatim>\<open>incrementSeq\<close> breaks the seqlock: it leaves the sequence number odd with no setter
  running, and from then on every getter of that key retries for ever (unless its
  uninitialised \<^verbatim>\<open>seq2\<close> happens to hold that number).\<close>

theorem incrementSeq_blocks_getters:
  assumes "store_ok s" and "isValidKey key" and "seq2 l \<noteq> getSeq key s + 1"
  shows "get_entry n ty l key (snd (incrementSeq key s)) = None"
proof -
  note k = store_ok_nth [OF assms(1,2)]
  have "odd (unat (seq (s ! unat key) + 1))"
    using k by (simp add: unat_word_ariths dvd_mod_iff entry_ok_def)
  then have "read_loop n ((s ! unat key)\<lparr>seq := seq (s ! unat key) + 1\<rparr>) l = None"
    using assms(2,3) by (intro read_loop_odd) (auto simp: getSeq_def)
  then show ?thesis
    using k assms(2) by (simp add: get_entry_def incrementSeq_def)
qed

theorem incrementSeq_blocks_getters_witness:
  "getInt32 \<lparr>seq1 = 0, seq2 = 0, temp_type = NONE, temp_value = []\<rparr> 3
     (snd (incrementSeq 3 RTDataStore)) = None"
  using incrementSeq_blocks_getters [OF store_ok_new, of 3 _ 4 INT32]
  by (simp add: isValidKey_def MAX_KEYS_def getInt32_def getSeq_def RTDataStore_def DataEntry_def)

end
