(* ===== verification/Event_LockFree.thy ===== *)
theory Event_LockFree
  imports Mxrc_Prelude
begin

text \<open>
  The lock-free ring buffers of the event layer: \<^verbatim>\<open>src/src/core/event/util/LockFreeQueue.h\<close> (one producer, one
  consumer) and \<^verbatim>\<open>MPSCLockFreeQueue.h\<close> (several producers, one consumer).

  Each access to an atomic variable or to a slot of the buffer is one step, and the steps of the
  threads are interleaved by a schedule. Memory is sequentially consistent; the acquire and
  release orders of the code give that for the values that are passed on. The histories \<open>pushed\<close> and
  \<open>popped\<close> record the elements of the calls that returned true. A capacity of 0 makes the code divide by
  zero and is excluded.

  The single-producer queue is a bounded FIFO queue under every interleaving. The
  multi-producer queue is not: a slot is visible to the consumer before it is written.
\<close>

section \<open>One producer, one consumer\<close>

datatype 'a producer = PIdle | PCheck 'a nat | PWrite 'a nat | PPublish 'a nat

datatype 'a consumer = CIdle | CCheck nat | CRead nat | CAdvance nat 'a

record 'a spsc =
  buffer :: "'a list"
  writePos :: nat
  readPos :: nat
  ring_capacity :: nat
  producer :: "'a producer"
  consumer :: "'a consumer"
  pushed :: "'a list"
  popped :: "'a list"

text \<open>The buffer starts with default elements.\<close>

definition SPSCLockFreeQueue :: "nat \<Rightarrow> 'a \<Rightarrow> 'a spsc" where
  "SPSCLockFreeQueue cap d =
    \<lparr>buffer = replicate cap d, writePos = 0, readPos = 0, ring_capacity = cap, producer = PIdle, consumer = CIdle,
     pushed = [], popped = []\<rparr>"

text \<open>One step of \<^verbatim>\<open>tryPush\<close>; \<open>x\<close> is the element of a call that begins with it.\<close>

fun push_step :: "'a \<Rightarrow> 'a producer \<Rightarrow> 'a spsc \<Rightarrow> 'a spsc" where
  "push_step x PIdle s = s\<lparr>producer := PCheck x (writePos s)\<rparr>"
| "push_step _ (PCheck x currentWrite) s =
    (if (currentWrite + 1) mod ring_capacity s = readPos s then s\<lparr>producer := PIdle\<rparr>
     else s\<lparr>producer := PWrite x currentWrite\<rparr>)"
| "push_step _ (PWrite x currentWrite) s =
    s\<lparr>buffer := (buffer s)[currentWrite := x], producer := PPublish x currentWrite\<rparr>"
| "push_step _ (PPublish x currentWrite) s =
    s\<lparr>writePos := (currentWrite + 1) mod ring_capacity s, producer := PIdle, pushed := pushed s @ [x]\<rparr>"

text \<open>One step of \<^verbatim>\<open>tryPop\<close>.\<close>

fun pop_step :: "'a consumer \<Rightarrow> 'a spsc \<Rightarrow> 'a spsc" where
  "pop_step CIdle s = s\<lparr>consumer := CCheck (readPos s)\<rparr>"
| "pop_step (CCheck currentRead) s =
    (if currentRead = writePos s then s\<lparr>consumer := CIdle\<rparr> else s\<lparr>consumer := CRead currentRead\<rparr>)"
| "pop_step (CRead currentRead) s = s\<lparr>consumer := CAdvance currentRead (buffer s ! currentRead)\<rparr>"
| "pop_step (CAdvance currentRead x) s =
    s\<lparr>readPos := (currentRead + 1) mod ring_capacity s, consumer := CIdle, popped := popped s @ [x]\<rparr>"

datatype 'a ring_agent = Producer 'a | Consumer

fun spsc_step :: "'a spsc \<Rightarrow> 'a ring_agent \<Rightarrow> 'a spsc" where
  "spsc_step s (Producer x) = push_step x (producer s) s"
| "spsc_step s Consumer = pop_step (consumer s) s"

definition size_ring :: "nat \<Rightarrow> nat \<Rightarrow> nat \<Rightarrow> nat" where
  "size_ring cap write read = (if read \<le> write then write - read else cap - read + write)"

definition empty_ring :: "nat \<Rightarrow> nat \<Rightarrow> bool" where
  "empty_ring write read = (read = write)"

section \<open>Several producers\<close>

datatype 'a mpsc_pc = MIdle | MLoadWrite 'a | MLoadRead 'a nat | MCas 'a nat | MWrite 'a nat

record 'a mpsc =
  mbuffer :: "'a list"
  mwritePos :: nat
  mreadPos :: nat
  mcapacity :: nat
  producers :: "nat \<Rightarrow> 'a mpsc_pc"
  mconsumer :: "'a consumer"
  mpushed :: "'a list"
  mpopped :: "'a list"

definition MPSCLockFreeQueue :: "nat \<Rightarrow> 'a \<Rightarrow> 'a mpsc" where
  "MPSCLockFreeQueue cap d =
    \<lparr>mbuffer = replicate cap d, mwritePos = 0, mreadPos = 0, mcapacity = cap, producers = (\<lambda>_. MIdle),
     mconsumer = CIdle, mpushed = [], mpopped = []\<rparr>"

text \<open>One step of \<^verbatim>\<open>tryPush\<close> of producer \<open>i\<close>: a failed compare-and-swap loads again.\<close>

fun mpush_step :: "'a \<Rightarrow> nat \<Rightarrow> 'a mpsc_pc \<Rightarrow> 'a mpsc \<Rightarrow> 'a mpsc" where
  "mpush_step x i MIdle s = s\<lparr>producers := (producers s)(i := MLoadWrite x)\<rparr>"
| "mpush_step _ i (MLoadWrite x) s = s\<lparr>producers := (producers s)(i := MLoadRead x (mwritePos s))\<rparr>"
| "mpush_step _ i (MLoadRead x currentWrite) s =
    (if (currentWrite + 1) mod mcapacity s = mreadPos s then s\<lparr>producers := (producers s)(i := MIdle)\<rparr>
     else s\<lparr>producers := (producers s)(i := MCas x currentWrite)\<rparr>)"
| "mpush_step _ i (MCas x currentWrite) s =
    (if mwritePos s = currentWrite
     then s\<lparr>mwritePos := (currentWrite + 1) mod mcapacity s, producers := (producers s)(i := MWrite x currentWrite)\<rparr>
     else s\<lparr>producers := (producers s)(i := MLoadWrite x)\<rparr>)"
| "mpush_step _ i (MWrite x currentWrite) s =
    s\<lparr>mbuffer := (mbuffer s)[currentWrite := x], producers := (producers s)(i := MIdle), mpushed := mpushed s @ [x]\<rparr>"

fun mpop_step :: "'a consumer \<Rightarrow> 'a mpsc \<Rightarrow> 'a mpsc" where
  "mpop_step CIdle s = s\<lparr>mconsumer := CCheck (mreadPos s)\<rparr>"
| "mpop_step (CCheck currentRead) s =
    (if currentRead = mwritePos s then s\<lparr>mconsumer := CIdle\<rparr> else s\<lparr>mconsumer := CRead currentRead\<rparr>)"
| "mpop_step (CRead currentRead) s = s\<lparr>mconsumer := CAdvance currentRead (mbuffer s ! currentRead)\<rparr>"
| "mpop_step (CAdvance currentRead x) s =
    s\<lparr>mreadPos := (currentRead + 1) mod mcapacity s, mconsumer := CIdle, mpopped := mpopped s @ [x]\<rparr>"

datatype 'a mpsc_agent = MProducer nat 'a | MConsumer

fun mpsc_step :: "'a mpsc \<Rightarrow> 'a mpsc_agent \<Rightarrow> 'a mpsc" where
  "mpsc_step s (MProducer i x) = mpush_step x i (producers s i) s"
| "mpsc_step s MConsumer = mpop_step (mconsumer s) s"

section \<open>Lemmas\<close>

lemma mod_neq:
  assumes "i < j" and "j < i + (c :: nat)"
  shows "i mod c \<noteq> j mod c"
proof
  assume "i mod c = j mod c"
  then have "c dvd j - i" by (metis assms(1) less_imp_le_nat mod_eq_dvd_iff_nat)
  then show False using assms by (auto dest: dvd_imp_le)
qed

lemma size_ring_count:
  assumes "i \<le> j" and "j < i + c"
  shows "size_ring c (j mod c) (i mod c) = j - i"
proof -
  define r n where "r = i mod c" and "n = j - i"
  have n: "n < c" "j = i + n" using assms by (auto simp: n_def)
  then have r: "r < c" by (simp add: r_def)
  have "j mod c = (r + n) mod c" by (simp add: r_def n(2) mod_add_left_eq)
  also have "\<dots> = (if r + n < c then r + n else r + n - c)"
    using n(1) r by (auto simp: mod_if)
  finally show ?thesis using n r by (auto simp: size_ring_def r_def [symmetric])
qed

text \<open>The positions count the completed calls, and every element that waits is in its slot.\<close>

definition ring_ok :: "'a spsc \<Rightarrow> bool" where
  "ring_ok s \<longleftrightarrow> 0 < ring_capacity s \<and> length (buffer s) = ring_capacity s \<and>
     popped s = take (length (popped s)) (pushed s) \<and>
     length (pushed s) < length (popped s) + ring_capacity s \<and>
     writePos s = length (pushed s) mod ring_capacity s \<and> readPos s = length (popped s) mod ring_capacity s \<and>
     (\<forall>i. length (popped s) \<le> i \<and> i < length (pushed s) \<longrightarrow> buffer s ! (i mod ring_capacity s) = pushed s ! i)"

fun producer_ok :: "'a producer \<Rightarrow> 'a spsc \<Rightarrow> bool" where
  "producer_ok PIdle s = True"
| "producer_ok (PCheck x w) s = (w = writePos s)"
| "producer_ok (PWrite x w) s = (w = writePos s \<and> Suc (length (pushed s)) < length (popped s) + ring_capacity s)"
| "producer_ok (PPublish x w) s = (w = writePos s \<and> Suc (length (pushed s)) < length (popped s) + ring_capacity s \<and>
     buffer s ! w = x)"

fun consumer_ok :: "'a consumer \<Rightarrow> 'a spsc \<Rightarrow> bool" where
  "consumer_ok CIdle s = True"
| "consumer_ok (CCheck r) s = (r = readPos s)"
| "consumer_ok (CRead r) s = (r = readPos s \<and> length (popped s) < length (pushed s))"
| "consumer_ok (CAdvance r x) s = (r = readPos s \<and> length (popped s) < length (pushed s) \<and> x = pushed s ! length (popped s))"

definition spsc_ok :: "'a spsc \<Rightarrow> bool" where
  "spsc_ok s \<longleftrightarrow> ring_ok s \<and> producer_ok (producer s) s \<and> consumer_ok (consumer s) s"

lemma spsc_ok_new: "0 < cap \<Longrightarrow> spsc_ok (SPSCLockFreeQueue cap d)"
  by (simp add: spsc_ok_def ring_ok_def SPSCLockFreeQueue_def)

lemma length_popped: "ring_ok s \<Longrightarrow> length (popped s) \<le> length (pushed s)"
  unfolding ring_ok_def by (metis length_take min.absorb_iff2 min.commute)

lemma spsc_ok_push:
  assumes "spsc_ok s"
  shows "spsc_ok (push_step x (producer s) s)"
proof (cases "producer s")
  case PIdle
  then show ?thesis using assms by (cases "consumer s") (auto simp: spsc_ok_def ring_ok_def)
next
  case (PCheck y w)
  have "Suc (length (pushed s)) \<noteq> length (popped s) + ring_capacity s"
    if "(w + 1) mod ring_capacity s \<noteq> readPos s"
  proof
    assume "Suc (length (pushed s)) = length (popped s) + ring_capacity s"
    then have "Suc (length (pushed s)) mod ring_capacity s = length (popped s) mod ring_capacity s" by simp
    with that assms PCheck show False by (simp add: spsc_ok_def ring_ok_def mod_Suc_eq)
  qed
  then show ?thesis using assms PCheck by (cases "consumer s") (auto simp: spsc_ok_def ring_ok_def)
next
  case (PWrite y w)
  let ?c = "ring_capacity s"
  have w: "w = length (pushed s) mod ?c" "w < length (buffer s)"
    using assms PWrite by (auto simp: spsc_ok_def ring_ok_def)
  have keep: "(buffer s)[w := y] ! (i mod ?c) = pushed s ! i"
    if i: "length (popped s) \<le> i" "i < length (pushed s)" for i
  proof -
    have "w \<noteq> i mod ?c"
      using mod_neq [of i "length (pushed s)" ?c] i assms w(1) by (auto simp: spsc_ok_def ring_ok_def)
    then show ?thesis using i assms by (simp add: spsc_ok_def ring_ok_def)
  qed
  have ring: "ring_ok (push_step x (producer s) s)"
    using assms keep unfolding PWrite push_step.simps spsc_ok_def ring_ok_def by simp
  have "consumer_ok (consumer s) (push_step x (producer s) s)"
    using assms by (cases "consumer s") (simp_all add: PWrite spsc_ok_def)
  then show ?thesis using assms PWrite w ring by (simp add: spsc_ok_def)
next
  case (PPublish y w)
  let ?c = "ring_capacity s"
  have "buffer s ! (i mod ?c) = (pushed s @ [y]) ! i" if "length (popped s) \<le> i" "i < Suc (length (pushed s))" for i
    using that assms PPublish by (cases "i = length (pushed s)") (auto simp: spsc_ok_def ring_ok_def nth_append)
  moreover have "popped s = take (length (popped s)) (pushed s @ [y])"
    using assms length_popped [of s] by (auto simp: spsc_ok_def ring_ok_def)
  ultimately show ?thesis
    using assms PPublish by (cases "consumer s") (auto simp: spsc_ok_def ring_ok_def mod_Suc_eq nth_append)
qed

lemma spsc_ok_pop:
  assumes "spsc_ok s"
  shows "spsc_ok (pop_step (consumer s) s)"
proof (cases "consumer s")
  case CIdle
  then show ?thesis using assms by (cases "producer s") (auto simp: spsc_ok_def ring_ok_def)
next
  case (CCheck r)
  have "length (popped s) < length (pushed s)" if "r \<noteq> writePos s"
    using that assms CCheck length_popped [of s] by (auto simp: spsc_ok_def ring_ok_def le_less)
  then show ?thesis using assms CCheck by (cases "producer s") (auto simp: spsc_ok_def ring_ok_def)
next
  case (CRead r)
  then show ?thesis using assms by (cases "producer s") (auto simp: spsc_ok_def ring_ok_def)
next
  case (CAdvance r x)
  have "popped s @ [x] = take (Suc (length (popped s))) (pushed s)"
    using assms CAdvance by (auto simp: spsc_ok_def ring_ok_def take_Suc_conv_app_nth)
  then show ?thesis
    using assms CAdvance by (cases "producer s") (auto simp: spsc_ok_def ring_ok_def mod_Suc_eq)
qed

interpretation spsc: step_system spsc_step spsc_ok
proof unfold_locales
  fix s :: "'a spsc" and e
  assume "spsc_ok s"
  then show "spsc_ok (spsc_step s e)" by (cases e) (simp_all add: spsc_ok_push spsc_ok_pop)
qed

section \<open>Properties\<close>



text \<open>C34. The multi-producer queue can give out an element that nobody pushed. A producer first advances
  the write position and then writes its slot; a consumer that pops in between reads what the slot held
  before, and the element of the producer is lost: its call returns true, the queue is empty,
  and the element never comes out.\<close>

theorem mpsc_reads_unwritten:
  assumes "2 \<le> cap" and "x \<noteq> d"
  shows "\<exists>sched. let s = run_steps mpsc_step (MPSCLockFreeQueue cap d) sched in
    mpushed s = [x] \<and> mpopped s = [d] \<and> producers s 0 = MIdle \<and> mconsumer s = CIdle \<and>
    empty_ring (mwritePos s) (mreadPos s)"
proof (rule exI)
  let ?sched = "replicate 4 (MProducer 0 x) @ replicate 4 MConsumer @ [MProducer 0 x]"
  have "1 mod cap = 1" "(1 :: nat) \<noteq> 0" "replicate cap d ! 0 = d" using assms(1) by auto
  then show "let s = run_steps mpsc_step (MPSCLockFreeQueue cap d) ?sched in
    mpushed s = [x] \<and> mpopped s = [d] \<and> producers s 0 = MIdle \<and> mconsumer s = CIdle \<and>
    empty_ring (mwritePos s) (mreadPos s)"
    by (simp add: MPSCLockFreeQueue_def numeral_eq_Suc empty_ring_def Let_def)
qed

theorem mpsc_reads_unwritten_witness:
  "\<exists>sched. let s = run_steps mpsc_step (MPSCLockFreeQueue 16 (0 :: int)) sched in
    mpushed s = [5] \<and> mpopped s = [0] \<and> producers s 0 = MIdle \<and> mconsumer s = CIdle \<and>
    empty_ring (mwritePos s) (mreadPos s)"
  by (rule mpsc_reads_unwritten) simp_all

end
