(* ===== verification/Data_Managers.thy ===== *)
theory Data_Managers
  imports Mxrc_Prelude
begin

text \<open>
  The managers behind the data store, under \<^verbatim>\<open>src/src/core/datastore/managers\<close>: \<^verbatim>\<open>ExpirationManager\<close>,
  \<^verbatim>\<open>AccessControlManager\<close>, \<^verbatim>\<open>LogManager\<close> and \<^verbatim>\<open>MetricsCollector\<close>.

  The expiration map (\<^verbatim>\<open>std::map\<close> from times to sets of keys) is a list in the order of the times; a
  set of keys is a list without repetition. The iterators that \<^verbatim>\<open>lru_map_\<close> keeps for the recency list are
  positions of its keys, so the map is the set of keys it has.

  The lemmas show that the two maps of the expiration manager agree, so that the keys it reports
  are exactly the expired ones, that the recency list orders the keys by their last access, and
  that the logs keep the newest entries.
\<close>

section \<open>Expiration\<close>

type_synonym expirations = "(time \<times> string list) list"

fun expire_insert :: "time \<Rightarrow> string \<Rightarrow> expirations \<Rightarrow> expirations" where
  "expire_insert t k [] = [(t, [k])]"
| "expire_insert t k ((u, ks) # m) =
    (if t < u then (t, [k]) # (u, ks) # m
     else if t = u then (u, List.insert k ks) # m
     else (u, ks) # expire_insert t k m)"

text \<open>A key is taken from the set at a time, and the set from the map when it gets empty.\<close>

fun expire_erase :: "time \<Rightarrow> string \<Rightarrow> expirations \<Rightarrow> expirations" where
  "expire_erase t k [] = []"
| "expire_erase t k ((u, ks) # m) =
    (if u = t then (let ks' = removeAll k ks in if ks' = [] then m else (u, ks') # m)
     else (u, ks) # expire_erase t k m)"

record expiration_manager =
  expiration_map :: expirations
  key_to_expiration :: "string \<rightharpoonup> time"
  lru_list :: "string list"
  lru_map :: "string set"
  max_lru_capacity :: u64

definition ExpirationManager :: expiration_manager where
  "ExpirationManager =
    \<lparr>expiration_map = [], key_to_expiration = Map.empty, lru_list = [], lru_map = {}, max_lru_capacity = 1000\<rparr>"

definition applyPolicy :: "string \<Rightarrow> time \<Rightarrow> expiration_manager \<Rightarrow> expiration_manager" where
  "applyPolicy key t m =
    (let m = (case key_to_expiration m key of
                None \<Rightarrow> m
              | Some old \<Rightarrow> m\<lparr>expiration_map := expire_erase old key (expiration_map m)\<rparr>)
     in m\<lparr>expiration_map := expire_insert t key (expiration_map m),
          key_to_expiration := (key_to_expiration m)(key \<mapsto> t)\<rparr>)"

definition removePolicy :: "string \<Rightarrow> expiration_manager \<Rightarrow> expiration_manager" where
  "removePolicy key m =
    (case key_to_expiration m key of
       None \<Rightarrow> m
     | Some t \<Rightarrow> m\<lparr>expiration_map := expire_erase t key (expiration_map m),
                   key_to_expiration := (key_to_expiration m)(key := None)\<rparr>)"

text \<open>The entries before \<^verbatim>\<open>upper_bound(now)\<close>.\<close>

definition getExpiredKeys :: "time \<Rightarrow> expiration_manager \<Rightarrow> string list" where
  "getExpiredKeys now m = concat (map snd (takeWhile (\<lambda>e. fst e \<le> now) (expiration_map m)))"

definition hasPolicy_exp :: "string \<Rightarrow> expiration_manager \<Rightarrow> bool" where
  "hasPolicy_exp key m = (key_to_expiration m key \<noteq> None)"

text \<open>\<open>None\<close> is the exception \<^verbatim>\<open>out_of_range\<close>.\<close>

definition getExpirationTime :: "string \<Rightarrow> expiration_manager \<Rightarrow> time option" where
  "getExpirationTime key m = key_to_expiration m key"

definition applyLRUPolicy :: "string \<Rightarrow> u64 \<Rightarrow> expiration_manager \<Rightarrow> expiration_manager" where
  "applyLRUPolicy key cap m =
    (if key \<in> lru_map m then m
     else
       let m = (if 0 < cap then m\<lparr>max_lru_capacity := cap\<rparr> else m)
       in m\<lparr>lru_list := key # lru_list m, lru_map := insert key (lru_map m)\<rparr>)"

definition recordAccess :: "string \<Rightarrow> expiration_manager \<Rightarrow> expiration_manager" where
  "recordAccess key m =
    (if key \<notin> lru_map m then m else m\<lparr>lru_list := key # remove1 key (lru_list m)\<rparr>)"

fun pop_lru :: "nat \<Rightarrow> expiration_manager \<Rightarrow> string list \<times> expiration_manager" where
  "pop_lru 0 m = ([], m)"
| "pop_lru (Suc n) m =
    (let key = last (lru_list m);
         (ks, m) = pop_lru n (m\<lparr>lru_map := lru_map m - {key}, lru_list := butlast (lru_list m)\<rparr>)
     in (key # ks, m))"

definition getExpiredKeysLRU :: "expiration_manager \<Rightarrow> string list \<times> expiration_manager" where
  "getExpiredKeysLRU m =
    (if length (lru_list m) \<le> unat (max_lru_capacity m) then ([], m)
     else pop_lru (length (lru_list m) - unat (max_lru_capacity m)) m)"

definition removeLRUPolicy :: "string \<Rightarrow> expiration_manager \<Rightarrow> expiration_manager" where
  "removeLRUPolicy key m =
    (if key \<notin> lru_map m then m
     else m\<lparr>lru_list := remove1 key (lru_list m), lru_map := lru_map m - {key}\<rparr>)"

definition hasLRUPolicy :: "string \<Rightarrow> expiration_manager \<Rightarrow> bool" where
  "hasLRUPolicy key m = (key \<in> lru_map m)"

datatype exp_op =
    ApplyPolicy string time
  | RemovePolicy string
  | ApplyLRU string u64
  | RecordAccess string
  | ExpireLRU
  | RemoveLRU string

fun exp_step :: "expiration_manager \<Rightarrow> exp_op \<Rightarrow> expiration_manager" where
  "exp_step m (ApplyPolicy key t) = applyPolicy key t m"
| "exp_step m (RemovePolicy key) = removePolicy key m"
| "exp_step m (ApplyLRU key cap) = applyLRUPolicy key cap m"
| "exp_step m (RecordAccess key) = recordAccess key m"
| "exp_step m ExpireLRU = snd (getExpiredKeysLRU m)"
| "exp_step m (RemoveLRU key) = removeLRUPolicy key m"

section \<open>Access control\<close>

type_synonym access_policies = "string \<rightharpoonup> (string \<rightharpoonup> bool)"

definition setPolicy :: "string \<Rightarrow> string \<Rightarrow> bool \<Rightarrow> access_policies \<Rightarrow> access_policies" where
  "setPolicy key module can m =
    m(key \<mapsto> (case m key of None \<Rightarrow> [module \<mapsto> can] | Some ms \<Rightarrow> ms(module \<mapsto> can)))"

text \<open>Access is denied by default.\<close>

definition hasAccess_acm :: "string \<Rightarrow> string \<Rightarrow> access_policies \<Rightarrow> bool" where
  "hasAccess_acm key module m =
    (case m key of
       None \<Rightarrow> False
     | Some ms \<Rightarrow> (case ms module of None \<Rightarrow> False | Some can \<Rightarrow> can))"

definition removePolicy_key :: "string \<Rightarrow> access_policies \<Rightarrow> access_policies" where
  "removePolicy_key key m = m(key := None)"

definition removePolicy_module :: "string \<Rightarrow> string \<Rightarrow> access_policies \<Rightarrow> access_policies" where
  "removePolicy_module key module m =
    (case m key of
       None \<Rightarrow> m
     | Some ms \<Rightarrow>
         let ms = ms(module := None) in if ms = Map.empty then m(key := None) else m(key \<mapsto> ms))"

definition hasPolicy_acm :: "string \<Rightarrow> access_policies \<Rightarrow> bool" where
  "hasPolicy_acm key m = (m key \<noteq> None)"

section \<open>Logs and counters\<close>

record access_entry =
  ae_timestamp :: time
  ae_operation :: string
  ae_key :: string
  ae_module_id :: string

record error_entry =
  ee_timestamp :: time
  ee_error_type :: string
  ee_message :: string
  ee_context :: string

record log_manager =
  access_logs :: "access_entry list"
  error_logs :: "error_entry list"
  max_access_logs :: nat
  max_error_logs :: nat

definition LogManager :: "nat \<Rightarrow> nat \<Rightarrow> log_manager" where
  "LogManager max_access max_error =
    \<lparr>access_logs = [], error_logs = [], max_access_logs = max_access, max_error_logs = max_error\<rparr>"

text \<open>The oldest entry goes when the log is full (\<^verbatim>\<open>pop_front\<close> of an empty log does not occur with a
  positive bound).\<close>

definition logAccess :: "time \<Rightarrow> string \<Rightarrow> string \<Rightarrow> string \<Rightarrow> log_manager \<Rightarrow> log_manager" where
  "logAccess now operation key module l =
    (let es = (if max_access_logs l \<le> length (access_logs l) then tl (access_logs l) else access_logs l) in
     l\<lparr>access_logs := es @ [\<lparr>ae_timestamp = now, ae_operation = operation, ae_key = key, ae_module_id = module\<rparr>]\<rparr>)"

definition logError :: "time \<Rightarrow> string \<Rightarrow> string \<Rightarrow> string \<Rightarrow> log_manager \<Rightarrow> log_manager" where
  "logError now error_type message ctx l =
    (let es = (if max_error_logs l \<le> length (error_logs l) then tl (error_logs l) else error_logs l) in
     l\<lparr>error_logs := es @ [\<lparr>ee_timestamp = now, ee_error_type = error_type, ee_message = message, ee_context = ctx\<rparr>]\<rparr>)"

definition clear_logs :: "log_manager \<Rightarrow> log_manager" where
  "clear_logs l = l\<lparr>access_logs := [], error_logs := []\<rparr>"

record store_metrics =
  get_calls :: u64
  set_calls :: u64
  poll_calls :: u64
  delete_calls :: u64
  memory_usage_bytes :: u64

definition MetricsCollector :: store_metrics where
  "MetricsCollector = \<lparr>get_calls = 0, set_calls = 0, poll_calls = 0, delete_calls = 0, memory_usage_bytes = 0\<rparr>"

definition incrementGet :: "store_metrics \<Rightarrow> store_metrics" where
  "incrementGet c = c\<lparr>get_calls := get_calls c + 1\<rparr>"

definition incrementSet :: "store_metrics \<Rightarrow> store_metrics" where
  "incrementSet c = c\<lparr>set_calls := set_calls c + 1\<rparr>"

definition incrementPoll :: "store_metrics \<Rightarrow> store_metrics" where
  "incrementPoll c = c\<lparr>poll_calls := poll_calls c + 1\<rparr>"

definition incrementDelete :: "store_metrics \<Rightarrow> store_metrics" where
  "incrementDelete c = c\<lparr>delete_calls := delete_calls c + 1\<rparr>"

definition updateMemoryUsage :: "int \<Rightarrow> store_metrics \<Rightarrow> store_metrics" where
  "updateMemoryUsage delta c = c\<lparr>memory_usage_bytes := memory_usage_bytes c + word_of_int delta\<rparr>"

definition resetMetrics_store :: "store_metrics \<Rightarrow> store_metrics" where
  "resetMetrics_store c = c\<lparr>get_calls := 0, set_calls := 0, poll_calls := 0, delete_calls := 0, memory_usage_bytes := 0\<rparr>"

section \<open>Lemmas\<close>

subsection \<open>The expiration map\<close>

definition keys_at :: "expirations \<Rightarrow> time \<Rightarrow> string set" where
  "keys_at m t = (case map_of m t of None \<Rightarrow> {} | Some ks \<Rightarrow> set ks)"

definition expirations_ok :: "expirations \<Rightarrow> bool" where
  "expirations_ok m \<longleftrightarrow> sorted_wrt (<) (map fst m) \<and> list_all (\<lambda>e. snd e \<noteq> [] \<and> distinct (snd e)) m"

lemma expire_insert_times: "fst ` set (expire_insert t k m) = insert t (fst ` set m)"
  by (induction t k m rule: expire_insert.induct) auto

lemma expire_erase_times: "fst ` set (expire_erase t k m) \<subseteq> fst ` set m"
  by (induction t k m rule: expire_erase.induct) (auto simp: Let_def)

lemma insert_not_Nil [simp]: "List.insert k ks \<noteq> []"
  by (auto simp: List.insert_def)

lemma removeAll_Nil: "removeAll k ks = [] \<longleftrightarrow> set ks \<subseteq> {k}"
  by (induction ks) auto

lemma expire_insert_ok: "expirations_ok m \<Longrightarrow> expirations_ok (expire_insert t k m)"
proof (induction t k m rule: expire_insert.induct)
  case (2 t k u ks m)
  have "\<forall>v \<in> fst ` set (expire_insert t k m). u < v" if "u < t"
    using that 2(2) by (auto simp: expire_insert_times expirations_ok_def)
  then show ?case using 2 by (auto simp: expirations_ok_def)
qed (simp add: expirations_ok_def)

lemma expire_erase_ok: "expirations_ok m \<Longrightarrow> expirations_ok (expire_erase t k m)"
proof (induction t k m rule: expire_erase.induct)
  case (2 t k u ks m)
  have "\<forall>v \<in> fst ` set m. u < v" using 2(2) by (auto simp: expirations_ok_def)
  then have "\<forall>v \<in> fst ` set (expire_erase t k m). u < v" using expire_erase_times [of t k m] by blast
  then show ?case using 2 by (auto simp: expirations_ok_def Let_def distinct_removeAll)
qed (simp add: expirations_ok_def)

lemma expire_insert_keys:
  "expirations_ok m \<Longrightarrow> keys_at (expire_insert t k m) u = (if u = t then insert k (keys_at m t) else keys_at m u)"
proof (induction t k m rule: expire_insert.induct)
  case (2 t k v ks m)
  have "map_of m t = None" if "t \<le> v"
    using 2(2) that by (auto simp: expirations_ok_def map_of_eq_None_iff)
  then show ?case using 2 by (auto simp: keys_at_def expirations_ok_def split: option.splits)
qed (simp add: keys_at_def)

lemma expire_erase_keys:
  "expirations_ok m \<Longrightarrow> keys_at (expire_erase t k m) u = (if u = t then keys_at m t - {k} else keys_at m u)"
proof (induction t k m rule: expire_erase.induct)
  case (2 t k v ks m)
  have "map_of m v = None"
    using 2(2) by (auto simp: expirations_ok_def map_of_eq_None_iff)
  then show ?case using 2 by (auto simp: keys_at_def expirations_ok_def Let_def removeAll_Nil split: option.splits if_splits)
qed (simp add: keys_at_def)

text \<open>The two maps agree, and the recency list has the keys of its map, each once.\<close>

definition exp_ok :: "expiration_manager \<Rightarrow> bool" where
  "exp_ok m \<longleftrightarrow> expirations_ok (expiration_map m) \<and>
     keys_at (expiration_map m) = (\<lambda>t. {k. key_to_expiration m k = Some t}) \<and>
     distinct (lru_list m) \<and> lru_map m = set (lru_list m)"

lemma exp_ok_new: "exp_ok ExpirationManager"
  by (simp add: exp_ok_def ExpirationManager_def expirations_ok_def keys_at_def fun_eq_iff)

lemma exp_ok_applyPolicy:
  assumes "exp_ok m"
  shows "exp_ok (applyPolicy key t m)"
proof -
  define em where "em = (case key_to_expiration m key of None \<Rightarrow> expiration_map m
    | Some old \<Rightarrow> expire_erase old key (expiration_map m))"
  have ok: "expirations_ok em" using assms by (auto simp: em_def exp_ok_def expire_erase_ok split: option.split)
  have other: "k \<in> keys_at em u \<longleftrightarrow> k \<noteq> key \<and> key_to_expiration m k = Some u" for k u
    using assms by (auto simp: em_def exp_ok_def expire_erase_keys split: option.splits if_splits)
  have "applyPolicy key t m = m\<lparr>expiration_map := expire_insert t key em,
      key_to_expiration := (key_to_expiration m)(key \<mapsto> t)\<rparr>"
    by (simp add: applyPolicy_def em_def split: option.split)
  then show ?thesis
    using assms ok other by (auto simp: exp_ok_def fun_eq_iff expire_insert_ok expire_insert_keys)
qed

lemma exp_ok_removePolicy: "exp_ok m \<Longrightarrow> exp_ok (removePolicy key m)"
  by (auto simp: removePolicy_def exp_ok_def fun_eq_iff expire_erase_ok expire_erase_keys split: option.splits)

lemma pop_lru_spec:
  assumes "distinct (lru_list m)" and "lru_map m = set (lru_list m)" and "n \<le> length (lru_list m)"
  shows "pop_lru n m = (rev (drop (length (lru_list m) - n) (lru_list m)),
    m\<lparr>lru_list := take (length (lru_list m) - n) (lru_list m), lru_map := set (take (length (lru_list m) - n) (lru_list m))\<rparr>)"
  using assms
proof (induction n arbitrary: m)
  case (Suc n)
  define ks k where "ks = butlast (lru_list m)" and "k = last (lru_list m)"
  have l: "lru_list m = ks @ [k]" using Suc.prems(3) by (cases "lru_list m" rule: rev_cases) (auto simp: ks_def k_def)
  let ?m = "m\<lparr>lru_map := lru_map m - {k}, lru_list := ks\<rparr>"
  have "pop_lru n ?m = (rev (drop (length ks - n) ks), ?m\<lparr>lru_list := take (length ks - n) ks, lru_map := set (take (length ks - n) ks)\<rparr>)"
    using Suc.IH [of ?m] Suc.prems l by auto
  then show ?case using l Suc.prems(3) by (simp add: Let_def)
qed simp

lemma getExpiredKeysLRU_spec:
  assumes "exp_ok m"
  shows "getExpiredKeysLRU m = (rev (drop (unat (max_lru_capacity m)) (lru_list m)),
    m\<lparr>lru_list := take (unat (max_lru_capacity m)) (lru_list m),
      lru_map := set (take (unat (max_lru_capacity m)) (lru_list m))\<rparr>)"
  using assms pop_lru_spec [of m] by (auto simp: exp_ok_def getExpiredKeysLRU_def)

interpretation exp: step_system exp_step exp_ok
proof unfold_locales
  fix m :: expiration_manager and e
  assume ok: "exp_ok m"
  show "exp_ok (exp_step m e)"
  proof (cases e)
    case (ApplyPolicy key t)
    then show ?thesis using ok by (simp add: exp_ok_applyPolicy)
  next
    case (RemovePolicy key)
    then show ?thesis using ok by (simp add: exp_ok_removePolicy)
  next
    case ExpireLRU
    then show ?thesis using ok getExpiredKeysLRU_spec [OF ok] by (simp add: exp_ok_def)
  qed (use ok in \<open>auto simp: applyLRUPolicy_def recordAccess_def removeLRUPolicy_def exp_ok_def Let_def\<close>)
qed

text \<open>What the expired keys are.\<close>

lemma takeWhile_sorted:
  assumes "sorted_wrt (<) (map fst m)"
  shows "takeWhile (\<lambda>e. fst e \<le> (now :: int)) m = filter (\<lambda>e. fst e \<le> now) m"
  using assms
proof (induction m)
  case (Cons e m)
  have "filter (\<lambda>e. fst e \<le> now) m = []" if "\<not> fst e \<le> now"
    using that Cons.prems by (auto simp: filter_empty_conv)
  then show ?case using Cons by auto
qed simp

lemma sorted_wrt_takeWhile: "sorted_wrt P xs \<Longrightarrow> sorted_wrt P (takeWhile Q xs)"
  by (metis takeWhile_eq_take sorted_wrt_take)

lemma keys_at_entry:
  assumes "expirations_ok m"
  shows "k \<in> keys_at m t \<longleftrightarrow> (\<exists>ks. (t, ks) \<in> set m \<and> k \<in> set ks)"
proof -
  have "distinct (map fst m)" using assms by (auto simp: expirations_ok_def strict_sorted_iff)
  then have "(t, ks) \<in> set m \<longleftrightarrow> map_of m t = Some ks" for ks by simp
  then show ?thesis by (auto simp: keys_at_def split: option.splits)
qed

lemma expired_set:
  assumes "exp_ok m"
  shows "set (getExpiredKeys now m) = {k. \<exists>t \<le> now. key_to_expiration m k = Some t}"
proof -
  have ok: "expirations_ok (expiration_map m)" using assms by (simp add: exp_ok_def)
  have "k \<in> set (getExpiredKeys now m) \<longleftrightarrow> (\<exists>t \<le> now. k \<in> keys_at (expiration_map m) t)" for k
    using ok by (auto simp: getExpiredKeys_def takeWhile_sorted expirations_ok_def keys_at_entry [OF ok])
  then show ?thesis using assms by (auto simp: exp_ok_def)
qed

lemma expired_sorted:
  assumes "sorted_wrt (<) (map fst m)" and "list_all (\<lambda>e. distinct (snd e) \<and> (\<forall>k \<in> set (snd e). f k = (fst e :: int))) m"
  shows "sorted (map f (concat (map snd m))) \<and> distinct (concat (map snd m))"
  using assms
proof (induction m)
  case (Cons e m)
  have "fst e < f k" if "k \<in> set (concat (map snd m))" for k
    using that Cons.prems by (auto simp: list_all_iff)
  moreover have "sorted (map f ks)" if "\<forall>k \<in> set ks. f k = fst e" for ks
    using that by (induction ks) auto
  ultimately show ?case using Cons by (fastforce simp: sorted_append)
qed simp

subsection \<open>The recency list\<close>

text \<open>The number of the operation that last used a key: it began to be tracked, or was accessed.\<close>

definition note_use :: "expiration_manager \<Rightarrow> nat \<Rightarrow> exp_op \<Rightarrow> (string \<Rightarrow> nat) \<Rightarrow> string \<Rightarrow> nat" where
  "note_use m n e u =
    (case e of
       RecordAccess k \<Rightarrow> if k \<in> lru_map m then u(k := n) else u
     | ApplyLRU k _ \<Rightarrow> if k \<in> lru_map m then u else u(k := n)
     | _ \<Rightarrow> u)"

fun last_use :: "expiration_manager \<Rightarrow> nat \<Rightarrow> (string \<Rightarrow> nat) \<Rightarrow> exp_op list \<Rightarrow> string \<Rightarrow> nat" where
  "last_use m n u [] = u"
| "last_use m n u (e # es) = last_use (exp_step m e) (Suc n) (note_use m n e u) es"

definition recency_ok :: "nat \<Rightarrow> (string \<Rightarrow> nat) \<Rightarrow> expiration_manager \<Rightarrow> bool" where
  "recency_ok n u m \<longleftrightarrow> exp_ok m \<and> sorted_wrt (\<lambda>a b. u b < u a) (lru_list m) \<and> list_all (\<lambda>k. u k < n) (lru_list m)"

lemma sorted_wrt_remove1: "sorted_wrt P xs \<Longrightarrow> sorted_wrt P (remove1 x xs)"
  by (induction xs) (auto dest: set_remove1_subset [THEN subsetD])

lemma recency_step:
  assumes "recency_ok n u m"
  shows "recency_ok (Suc n) (note_use m n e u) (exp_step m e)"
proof -
  have ok: "exp_ok (exp_step m e)" using assms by (intro exp.step_inv) (simp add: recency_ok_def)
  have m: "sorted_wrt (\<lambda>a b. u b < u a) (lru_list m)" "\<And>k. k \<in> set (lru_list m) \<Longrightarrow> u k < n" "distinct (lru_list m)"
    "lru_map m = set (lru_list m)"
    using assms by (auto simp: recency_ok_def exp_ok_def list_all_iff)
  have cong: "sorted_wrt (\<lambda>a b. (u(k := n)) b < (u(k := n)) a) ks" if "k \<notin> set ks" "sorted_wrt (\<lambda>a b. u b < u a) ks" for k ks
    using that by (induction ks) auto
  have less: "u k < Suc n" if "k \<in> set (lru_list m)" for k using m(2) [OF that] by simp
  have "sorted_wrt (\<lambda>a b. note_use m n e u b < note_use m n e u a) (lru_list (exp_step m e)) \<and>
      (\<forall>k \<in> set (lru_list (exp_step m e)). note_use m n e u k < Suc n)"
  proof (cases e)
    case (RecordAccess k)
    have "sorted_wrt (\<lambda>a b. (u(k := n)) b < (u(k := n)) a) (remove1 k (lru_list m))"
      using m(1,3) by (intro cong sorted_wrt_remove1) auto
    moreover have "u a < n \<and> a \<noteq> k" if "a \<in> set (remove1 k (lru_list m))" for a
      using that m(2,3) by auto
    ultimately show ?thesis using m less by (auto simp: RecordAccess note_use_def recordAccess_def)
  next
    case (ApplyLRU k cap)
    have "sorted_wrt (\<lambda>a b. (u(k := n)) b < (u(k := n)) a) (lru_list m)" if "k \<notin> set (lru_list m)"
      using m(1) that by (rule cong [rotated])
    then show ?thesis using m less by (auto simp: ApplyLRU note_use_def applyLRUPolicy_def Let_def)
  next
    case ExpireLRU
    have "exp_ok m" using assms by (simp add: recency_ok_def)
    then show ?thesis
      using m less by (auto simp: ExpireLRU note_use_def getExpiredKeysLRU_spec sorted_wrt_take dest: in_set_takeD)
  next
    case (RemoveLRU k)
    have "u a < Suc n" if "a \<in> set (remove1 k (lru_list m))" for a
      using less set_remove1_subset [of k "lru_list m"] that by blast
    then show ?thesis using m less by (auto simp: RemoveLRU note_use_def removeLRUPolicy_def sorted_wrt_remove1)
  qed (use m less in \<open>auto simp: note_use_def applyPolicy_def removePolicy_def Let_def split: option.split\<close>)
  with ok show ?thesis by (simp add: recency_ok_def list_all_iff)
qed

lemma recency_run:
  "recency_ok n u m \<Longrightarrow> recency_ok (n + length es) (last_use m n u es) (run_steps exp_step m es)"
proof (induction es arbitrary: m n u)
  case (Cons e es)
  then show ?case using Cons.IH [OF recency_step [OF Cons.prems, of e]] by simp
qed simp

subsection \<open>Logs\<close>

lemma logAccess_newest:
  assumes "0 < max_access_logs l" and "access_logs l = drop (length es - max_access_logs l) es"
  shows "access_logs (logAccess now operation key module l) =
    (let es' = es @ [\<lparr>ae_timestamp = now, ae_operation = operation, ae_key = key, ae_module_id = module\<rparr>] in
     drop (length es' - max_access_logs l) es')"
  using assms by (auto simp: logAccess_def Let_def tl_drop Suc_diff_le simp flip: drop_Suc)

lemma logError_newest:
  assumes "0 < max_error_logs l" and "error_logs l = drop (length es - max_error_logs l) es"
  shows "error_logs (logError now error_type message ctx l) =
    (let es' = es @ [\<lparr>ee_timestamp = now, ee_error_type = error_type, ee_message = message, ee_context = ctx\<rparr>] in
     drop (length es' - max_error_logs l) es')"
  using assms by (auto simp: logError_def Let_def tl_drop Suc_diff_le simp flip: drop_Suc)

section \<open>Properties\<close>

text \<open>C20. The keys reported as expired are exactly those whose expiration time has come, each once and in
  the order of these times, after any operations: the two maps of the manager never disagree.\<close>

theorem expired_keys_exact:
  "let m = run_steps exp_step ExpirationManager ops; ks = getExpiredKeys now m in
   set ks = {k. \<exists>t. getExpirationTime k m = Some t \<and> t \<le> now} \<and> distinct ks \<and>
   sorted (map (\<lambda>k. the (getExpirationTime k m)) ks)"
proof -
  let ?m = "run_steps exp_step ExpirationManager ops"
  let ?es = "takeWhile (\<lambda>e. fst e \<le> now) (expiration_map ?m)"
  have ok: "exp_ok ?m" by (rule exp.run_inv [OF exp_ok_new])
  then have em: "expirations_ok (expiration_map ?m)" by (simp add: exp_ok_def)
  have "the (key_to_expiration ?m k) = t" if "(t, ks) \<in> set (expiration_map ?m)" "k \<in> set ks" for k t ks
    using keys_at_entry [OF em, of k t] ok that by (auto simp: exp_ok_def)
  then have "list_all (\<lambda>e. distinct (snd e) \<and> (\<forall>k \<in> set (snd e). the (key_to_expiration ?m k) = fst e)) ?es"
    using em by (auto simp: expirations_ok_def list_all_iff dest!: set_takeWhileD)
  moreover have "sorted_wrt (<) (map fst ?es)"
    using em unfolding expirations_ok_def sorted_wrt_map by (simp add: sorted_wrt_takeWhile)
  ultimately have "sorted (map (\<lambda>k. the (key_to_expiration ?m k)) (concat (map snd ?es))) \<and> distinct (concat (map snd ?es))"
    by (intro expired_sorted)
  then show ?thesis
    using expired_set [OF ok, of now] by (auto simp: getExpirationTime_def getExpiredKeys_def Let_def)
qed

text \<open>C19. The recency policy evicts the least recently used keys: after any operations the keys that exceed
  the capacity are given out, the others stay tracked, at most the capacity of them, and every evicted
  key was last used before every key that stays.\<close>

theorem lru_evicts_least_recent:
  "let m = run_steps exp_step ExpirationManager ops; u = last_use ExpirationManager 0 (\<lambda>_. 0) ops;
       (ks, m') = getExpiredKeysLRU m in
   set (lru_list m) = set ks \<union> set (lru_list m') \<and>
   length (lru_list m') = min (length (lru_list m)) (unat (max_lru_capacity m)) \<and>
   list_all (\<lambda>a. list_all (\<lambda>b. u a < u b) (lru_list m')) ks"
proof -
  let ?m = "run_steps exp_step ExpirationManager ops" and ?u = "last_use ExpirationManager 0 (\<lambda>_. 0) ops"
  let ?c = "unat (max_lru_capacity ?m)" and ?l = "lru_list ?m"
  have "recency_ok 0 (\<lambda>_. 0) ExpirationManager"
    by (simp add: recency_ok_def exp_ok_new) (simp add: ExpirationManager_def)
  then have r: "recency_ok (length ops) ?u ?m" using recency_run [of 0 "\<lambda>_. 0" ExpirationManager ops] by simp
  then have spec: "getExpiredKeysLRU ?m = (rev (drop ?c ?l), ?m\<lparr>lru_list := take ?c ?l, lru_map := set (take ?c ?l)\<rparr>)"
    using getExpiredKeysLRU_spec by (simp add: recency_ok_def)
  have "sorted_wrt (\<lambda>a b. ?u b < ?u a) (take ?c ?l @ drop ?c ?l)" using r by (simp add: recency_ok_def)
  then have "?u a < ?u b" if "a \<in> set (drop ?c ?l)" "b \<in> set (take ?c ?l)" for a b
    using that unfolding sorted_wrt_append by blast
  moreover have "set ?l = set (drop ?c ?l) \<union> set (take ?c ?l)" by (metis append_take_drop_id set_append sup_commute)
  ultimately show ?thesis using spec by (simp add: list_all_iff Let_def)
qed

end
