(* ===== verification/Data_Store.thy ===== *)
theory Data_Store
  imports Data_Managers
begin

text \<open>
  The data store, \<^verbatim>\<open>src/src/core/datastore/DataStore.h\<close> and \<^verbatim>\<open>DataStore.cpp\<close>, its notifier
  (\<^verbatim>\<open>MapNotifier.h\<close>), its versioned values (\<^verbatim>\<open>core/VersionedData.h\<close>) and the accessor of the robot state.

  A \<^verbatim>\<open>std::any\<close> is a \<open>any_value\<close>; doubles and floats are their bits, and the types the store itself never
  names are \<open>AnyOther\<close> with the name of the type and its contents as words. An observer is a number; \<open>store_env\<close> says which observers are alive, what a
  callback throws, the readings of the clock in their order and the compiler's names of types. Callbacks are
  recorded in \<open>notified\<close>; they do not call back into the store, where they would wait for the mutex of the
  notifier that called them. The JSON library is an argument, \<open>json_lib\<close>, and so is the outcome of the file
  operations.

  The lemmas show what each operation does on every branch, that cleaning removes exactly the expired data,
  that saving is atomic and loading reads back what was saved, and where versions, types and
  expiration times of entries go wrong.
\<close>

section \<open>Values and entries\<close>

datatype any_value =
    AnyInt u32
  | AnyDouble u64
  | AnyFloat u32
  | AnyString string
  | AnyBool bool
  | AnyLong u64
  | AnyOther string "u64 list"

datatype value_type = TInt | TDouble | TFloat | TString | TBool | TLong | TOther string

fun type_of :: "any_value \<Rightarrow> value_type" where
  "type_of (AnyInt _) = TInt"
| "type_of (AnyDouble _) = TDouble"
| "type_of (AnyFloat _) = TFloat"
| "type_of (AnyString _) = TString"
| "type_of (AnyBool _) = TBool"
| "type_of (AnyLong _) = TLong"
| "type_of (AnyOther t _) = TOther t"

text \<open>A number that is no enumerator is a value of the enum as well: \<^verbatim>\<open>loadState\<close> casts what it reads.\<close>

datatype DataType =
    RobotMode | InterfaceData | Config | Para | Alarm | Event | MissionState | TaskState
  | OtherType u32

fun data_type_int :: "DataType \<Rightarrow> u32" where
  "data_type_int RobotMode = 0"
| "data_type_int InterfaceData = 1"
| "data_type_int Config = 2"
| "data_type_int Para = 3"
| "data_type_int Alarm = 4"
| "data_type_int Event = 5"
| "data_type_int MissionState = 6"
| "data_type_int TaskState = 7"
| "data_type_int (OtherType n) = n"

definition int_data_type :: "u32 \<Rightarrow> DataType" where
  "int_data_type n =
    (if n = 0 then RobotMode else if n = 1 then InterfaceData else if n = 2 then Config else if n = 3 then Para
     else if n = 4 then Alarm else if n = 5 then Event else if n = 6 then MissionState
     else if n = 7 then TaskState else OtherType n)"

record shared_data =
  sd_id :: string
  sd_type :: DataType
  sd_value :: any_value
  sd_timestamp :: time
  sd_expiration_time :: time

datatype ExpirationPolicyType = TTL | LRU | NoPolicy

text \<open>The duration counts milliseconds.\<close>

record data_policy =
  policy_type :: ExpirationPolicyType
  duration :: int

definition no_policy :: data_policy where
  "no_policy = \<lparr>policy_type = NoPolicy, duration = 0\<rparr>"

datatype store_error =
    DataTypeMismatch string
  | ValueTypeMismatch string value_type value_type
  | NotFound string
  | TypeMismatch string
  | VersionedNotFound string
  | BadAnyCast

record store_env =
  readings :: "nat \<Rightarrow> time"
  type_name :: "value_type \<Rightarrow> string"
  alive :: "nat \<Rightarrow> bool"
  throws :: "nat \<Rightarrow> string option"

definition what :: "store_env \<Rightarrow> store_error \<Rightarrow> string" where
  "what env e =
    (case e of
       DataTypeMismatch key \<Rightarrow> ''Data type mismatch for existing ID: '' @ key
     | ValueTypeMismatch key t u \<Rightarrow> ''Value type mismatch for existing ID: '' @ key @ '' (expected: '' @ type_name env t @
         '', got: '' @ type_name env u @ '')''
     | NotFound key \<Rightarrow> ''Data not found for ID: '' @ key
     | TypeMismatch key \<Rightarrow> ''Type mismatch for ID: '' @ key
     | VersionedNotFound key \<Rightarrow> ''DataStore::getVersioned: Key not found: '' @ key
     | BadAnyCast \<Rightarrow> ''bad any_cast'')"

record data_store =
  data_map :: "string \<rightharpoonup> shared_data"
  version_map :: "string \<rightharpoonup> u64"
  notifiers :: "string \<rightharpoonup> nat list"
  expirations :: expiration_manager
  policies :: access_policies
  metrics :: store_metrics
  logs :: log_manager
  notified :: "(nat \<times> shared_data) list"

definition DataStore :: data_store where
  "DataStore =
    \<lparr>data_map = Map.empty, version_map = Map.empty, notifiers = Map.empty, expirations = ExpirationManager,
     policies = Map.empty, metrics = MetricsCollector, logs = LogManager 1000 1000, notified = []\<rparr>"

section \<open>Observers\<close>

definition subscribe_notifier :: "nat option \<Rightarrow> nat list \<Rightarrow> nat list" where
  "subscribe_notifier obs subs = (case obs of None \<Rightarrow> subs | Some w \<Rightarrow> subs @ [w])"

definition unsubscribe_notifier :: "store_env \<Rightarrow> nat option \<Rightarrow> nat list \<Rightarrow> nat list" where
  "unsubscribe_notifier env obs subs =
    (case obs of None \<Rightarrow> subs | Some w \<Rightarrow> filter (\<lambda>x. alive env x \<and> x \<noteq> w) subs)"

text \<open>The subscribers that stay, the ones called, and what ended the loop when a callback threw.\<close>

fun notify :: "store_env \<Rightarrow> nat list \<Rightarrow> nat list \<times> nat list \<times> string option" where
  "notify env [] = ([], [], None)"
| "notify env (w # ws) =
    (if alive env w then
       case throws env w of
         Some e \<Rightarrow> (w # ws, [w], Some e)
       | None \<Rightarrow> (let (keep, called, err) = notify env ws in (w # keep, w # called, err))
     else notify env ws)"

definition subscribe_data :: "string \<Rightarrow> nat option \<Rightarrow> data_store \<Rightarrow> data_store" where
  "subscribe_data key obs s =
    (if obs = None then s
     else
       let subs = (case notifiers s key of None \<Rightarrow> [] | Some subs \<Rightarrow> subs)
       in s\<lparr>notifiers := (notifiers s)(key \<mapsto> subscribe_notifier obs subs)\<rparr>)"

definition unsubscribe_data :: "store_env \<Rightarrow> string \<Rightarrow> nat option \<Rightarrow> data_store \<Rightarrow> data_store" where
  "unsubscribe_data env key obs s =
    (if obs = None then s
     else
       case notifiers s key of
         None \<Rightarrow> s
       | Some subs \<Rightarrow> s\<lparr>notifiers := (notifiers s)(key \<mapsto> unsubscribe_notifier env obs subs)\<rparr>)"

text \<open>The reading with number \<open>n\<close> is the one an error log takes.\<close>

definition notifySubscribers :: "store_env \<Rightarrow> nat \<Rightarrow> shared_data \<Rightarrow> data_store \<Rightarrow> data_store" where
  "notifySubscribers env n d s =
    (case notifiers s (sd_id d) of
       None \<Rightarrow> s
     | Some subs \<Rightarrow>
         let (keep, called, err) = notify env subs;
             s = s\<lparr>notifiers := (notifiers s)(sd_id d \<mapsto> keep), notified := notified s @ map (\<lambda>w. (w, d)) called\<rparr>
         in case err of
              None \<Rightarrow> s
            | Some e \<Rightarrow> s\<lparr>logs := logError (readings env n) ''callback_exception'' e (''id='' @ sd_id d) (logs s)\<rparr>)"

section \<open>Reading and writing\<close>

definition store_log_error :: "store_env \<Rightarrow> nat \<Rightarrow> string \<Rightarrow> string \<Rightarrow> string \<Rightarrow> data_store \<Rightarrow> data_store" where
  "store_log_error env n kind message ctx s = s\<lparr>logs := logError (readings env n) kind message ctx (logs s)\<rparr>"

definition store_log_access :: "store_env \<Rightarrow> nat \<Rightarrow> string \<Rightarrow> string \<Rightarrow> data_store \<Rightarrow> data_store" where
  "store_log_access env n operation key s = s\<lparr>logs := logAccess (readings env n) operation key '''' (logs s)\<rparr>"

text \<open>The checks of \<^verbatim>\<open>set\<close> against an entry that exists.\<close>

definition set_mismatch :: "string \<Rightarrow> any_value \<Rightarrow> DataType \<Rightarrow> data_store \<Rightarrow> store_error option" where
  "set_mismatch key v ty s =
    (case data_map s key of
       None \<Rightarrow> None
     | Some old \<Rightarrow>
         if sd_type old \<noteq> ty then Some (DataTypeMismatch key)
         else if type_of (sd_value old) \<noteq> type_of v then
           Some (ValueTypeMismatch key (type_of (sd_value old)) (type_of v))
         else None)"

definition ms :: "int \<Rightarrow> time" where
  "ms d = d * 1000000"

definition set_data ::
  "store_env \<Rightarrow> string \<Rightarrow> any_value \<Rightarrow> DataType \<Rightarrow> data_policy \<Rightarrow> data_store \<Rightarrow> data_store \<times> store_error option" where
  "set_data env key v ty pol s =
    (let now = readings env 0;
         d = \<lparr>sd_id = key, sd_type = ty, sd_value = v, sd_timestamp = now,
              sd_expiration_time = (if policy_type pol = TTL then now + ms (duration pol) else 0)\<rparr>
     in case set_mismatch key v ty s of
          Some e \<Rightarrow>
            (store_log_error env 2 ''set_failed'' (what env e) (''id='' @ key)
               (store_log_error env 1 ''type_mismatch'' (what env e) '''' s), Some e)
        | None \<Rightarrow>
            let s = s\<lparr>data_map := (data_map s)(key \<mapsto> d)\<rparr>;
                s = s\<lparr>metrics := incrementSet (metrics s)\<rparr>;
                s = store_log_access env 1 ''set'' key s;
                s = (case policy_type pol of
                       TTL \<Rightarrow> s\<lparr>expirations := applyPolicy key (now + ms (duration pol)) (expirations s)\<rparr>
                     | LRU \<Rightarrow> s\<lparr>expirations := applyLRUPolicy key (word_of_int (duration pol)) (expirations s)\<rparr>
                     | NoPolicy \<Rightarrow> s)
            in (notifySubscribers env 2 d s, None))"

definition get_failure :: "string \<Rightarrow> value_type \<Rightarrow> data_store \<Rightarrow> store_error option" where
  "get_failure key t s =
    (case data_map s key of
       None \<Rightarrow> Some (NotFound key)
     | Some d \<Rightarrow> if type_of (sd_value d) \<noteq> t then Some (TypeMismatch key) else None)"

text \<open>\<^verbatim>\<open>get\<close> and \<^verbatim>\<open>poll\<close> log the failure twice, once where it is found and once where it is rethrown.\<close>

definition get_data :: "store_env \<Rightarrow> string \<Rightarrow> value_type \<Rightarrow> data_store \<Rightarrow> data_store \<times> (store_error + any_value)" where
  "get_data env key t s =
    (case get_failure key t s of
       Some e \<Rightarrow>
         (store_log_error env 1 ''get_failed'' (what env e) (''id='' @ key)
            (store_log_error env 0 (if data_map s key = None then ''not_found'' else ''type_mismatch'') (what env e) '''' s),
          Inl e)
     | None \<Rightarrow>
         let s' = s\<lparr>metrics := incrementGet (metrics s)\<rparr>;
             s' = store_log_access env 0 ''get'' key s';
             s' = s'\<lparr>expirations := recordAccess key (expirations s')\<rparr>
         in (s', Inr (sd_value (the (data_map s key)))))"

definition poll_data :: "store_env \<Rightarrow> string \<Rightarrow> value_type \<Rightarrow> data_store \<Rightarrow> data_store \<times> (store_error + any_value)" where
  "poll_data env key t s =
    (case get_failure key t s of
       Some e \<Rightarrow>
         (store_log_error env 1 ''poll_failed'' (what env e) (''id='' @ key)
            (store_log_error env 0 (if data_map s key = None then ''not_found'' else ''type_mismatch'') (what env e) '''' s),
          Inl e)
     | None \<Rightarrow>
         let s' = s\<lparr>metrics := incrementPoll (metrics s)\<rparr>;
             s' = store_log_access env 0 ''poll'' key s';
             s' = s'\<lparr>expirations := recordAccess key (expirations s')\<rparr>
         in (s', Inr (sd_value (the (data_map s key)))))"

section \<open>Expiration and access\<close>

text \<open>The kind of the policy is not looked at: every policy gets the expiration time of its duration.\<close>

definition applyExpirationPolicy :: "time \<Rightarrow> string \<Rightarrow> data_policy \<Rightarrow> data_store \<Rightarrow> data_store" where
  "applyExpirationPolicy now key pol s = s\<lparr>expirations := applyPolicy key (now + ms (duration pol)) (expirations s)\<rparr>"

definition removeExpirationPolicy :: "string \<Rightarrow> data_store \<Rightarrow> data_store" where
  "removeExpirationPolicy key s = s\<lparr>expirations := removePolicy key (expirations s)\<rparr>"

definition clean_ttl_key :: "string \<Rightarrow> data_store \<Rightarrow> data_store" where
  "clean_ttl_key key s =
    s\<lparr>data_map := (data_map s)(key := None),
      expirations := removeLRUPolicy key (removePolicy key (expirations s))\<rparr>"

definition clean_lru_key :: "string \<Rightarrow> data_store \<Rightarrow> data_store" where
  "clean_lru_key key s =
    s\<lparr>data_map := (data_map s)(key := None), expirations := removePolicy key (expirations s)\<rparr>"

definition cleanExpiredData :: "time \<Rightarrow> data_store \<Rightarrow> data_store" where
  "cleanExpiredData now s =
    (let s = fold clean_ttl_key (getExpiredKeys now (expirations s)) s;
         (ks, m) = getExpiredKeysLRU (expirations s)
     in fold clean_lru_key ks (s\<lparr>expirations := m\<rparr>))"

definition setAccessPolicy :: "string \<Rightarrow> string \<Rightarrow> bool \<Rightarrow> data_store \<Rightarrow> data_store" where
  "setAccessPolicy key module can s = s\<lparr>policies := setPolicy key module can (policies s)\<rparr>"

definition hasAccess :: "string \<Rightarrow> string \<Rightarrow> data_store \<Rightarrow> bool" where
  "hasAccess key module s = hasAccess_acm key module (policies s)"

definition getCurrentDataCount :: "data_store \<Rightarrow> nat" where
  "getCurrentDataCount s = card (dom (data_map s))"

section \<open>Versioned values\<close>

record versioned_data =
  vd_value :: any_value
  vd_version :: u64
  vd_timestamp_ns :: u64

definition update_value :: "any_value \<Rightarrow> versioned_data \<Rightarrow> versioned_data" where
  "update_value v d = d\<lparr>vd_value := v\<rparr>"

definition update_version :: "versioned_data \<Rightarrow> versioned_data" where
  "update_version d = d\<lparr>vd_version := vd_version d + 1\<rparr>"

text \<open>The three assignments of \<^verbatim>\<open>update\<close>, in their order.\<close>

definition update_vd :: "time \<Rightarrow> any_value \<Rightarrow> versioned_data \<Rightarrow> versioned_data" where
  "update_vd now v d = (update_version (update_value v d))\<lparr>vd_timestamp_ns := word_of_int now\<rparr>"

definition isConsistentWith :: "versioned_data \<Rightarrow> versioned_data \<Rightarrow> bool" where
  "isConsistentWith d e = (vd_version d = vd_version e)"

definition isNewerThan :: "versioned_data \<Rightarrow> versioned_data \<Rightarrow> bool" where
  "isNewerThan d e = (vd_version e < vd_version d)"

definition isModified :: "versioned_data \<Rightarrow> bool" where
  "isModified d = (0 < vd_version d)"

text \<open>The three reads see the object in the states \<open>d0\<close>, \<open>d1\<close> and \<open>d2\<close>.\<close>

definition tryOptimisticRead :: "versioned_data \<Rightarrow> versioned_data \<Rightarrow> versioned_data \<Rightarrow> bool \<times> any_value" where
  "tryOptimisticRead d0 d1 d2 = (vd_version d0 = vd_version d2, vd_value d1)"

definition getVersioned :: "string \<Rightarrow> value_type \<Rightarrow> data_store \<Rightarrow> store_error + versioned_data" where
  "getVersioned key t s =
    (case data_map s key of
       None \<Rightarrow> Inl (VersionedNotFound key)
     | Some d \<Rightarrow>
         if type_of (sd_value d) \<noteq> t then Inl BadAnyCast
         else
           let version = (case version_map s key of None \<Rightarrow> 0 | Some n \<Rightarrow> n)
           in Inr \<lparr>vd_value = sd_value d, vd_version = version, vd_timestamp_ns = word_of_int (sd_timestamp d)\<rparr>)"

text \<open>\<^verbatim>\<open>setVersioned\<close> releases the entry before it counts the version, so it is two steps that other calls
  can come between.\<close>

definition versioned_entry :: "store_env \<Rightarrow> string \<Rightarrow> any_value \<Rightarrow> DataType \<Rightarrow> shared_data" where
  "versioned_entry env key v ty =
    \<lparr>sd_id = key, sd_type = ty, sd_value = v, sd_timestamp = readings env 0, sd_expiration_time = 0\<rparr>"

definition setVersioned_store :: "store_env \<Rightarrow> string \<Rightarrow> any_value \<Rightarrow> DataType \<Rightarrow> data_store \<Rightarrow> data_store" where
  "setVersioned_store env key v ty s = s\<lparr>data_map := (data_map s)(key \<mapsto> versioned_entry env key v ty)\<rparr>"

definition setVersioned_count :: "string \<Rightarrow> data_store \<Rightarrow> data_store" where
  "setVersioned_count key s =
    s\<lparr>version_map := (version_map s)(key \<mapsto> (case version_map s key of None \<Rightarrow> 1 | Some n \<Rightarrow> n + 1))\<rparr>"

definition setVersioned :: "store_env \<Rightarrow> string \<Rightarrow> any_value \<Rightarrow> DataType \<Rightarrow> data_store \<Rightarrow> data_store" where
  "setVersioned env key v ty s =
    notifySubscribers env 1 (versioned_entry env key v ty)
      (setVersioned_count key (setVersioned_store env key v ty s))"

section \<open>Saving and loading\<close>

text \<open>The conversions of the JSON library; a reading gives \<open>None\<close> where it throws. A document is what the code reads
  of it: the field \<^verbatim>\<open>version\<close> when it is an integer, and the items of \<^verbatim>\<open>data\<close> when it is an array; an item that
  is no object has none of the fields.\<close>

record 'j state_item =
  it_id :: "string json_field"
  it_type :: "u32 json_field"
  it_value_type :: "string json_field"
  it_value :: "'j option"

record 'j state_doc =
  doc_version :: "u32 json_field"
  doc_data :: "'j state_item list json_field"

record 'j json_lib =
  of_int32 :: "u32 \<Rightarrow> 'j"
  of_double :: "u64 \<Rightarrow> 'j"
  of_float :: "u32 \<Rightarrow> 'j"
  of_string :: "string \<Rightarrow> 'j"
  of_boolean :: "bool \<Rightarrow> 'j"
  of_int64 :: "u64 \<Rightarrow> 'j"
  to_int32 :: "'j \<Rightarrow> u32 option"
  to_double :: "'j \<Rightarrow> u64 option"
  to_float :: "'j \<Rightarrow> u32 option"
  to_str :: "'j \<Rightarrow> string option"
  to_boolean :: "'j \<Rightarrow> bool option"
  to_int64 :: "'j \<Rightarrow> u64 option"
  dump :: "'j state_doc \<Rightarrow> string option"
  parse :: "string \<Rightarrow> 'j state_doc option"

text \<open>The value and its type name; \<open>None\<close> for a type that is skipped.\<close>

definition save_value :: "'j json_lib \<Rightarrow> any_value \<Rightarrow> (string \<times> 'j) option" where
  "save_value J v =
    (case v of
       AnyInt i \<Rightarrow> Some (''int'', of_int32 J i)
     | AnyDouble d \<Rightarrow> Some (''double'', of_double J d)
     | AnyFloat f \<Rightarrow> Some (''float'', of_float J f)
     | AnyString x \<Rightarrow> Some (''string'', of_string J x)
     | AnyBool b \<Rightarrow> Some (''bool'', of_boolean J b)
     | AnyLong l \<Rightarrow> Some (''long'', of_int64 J l)
     | AnyOther _ _ \<Rightarrow> None)"

definition save_item :: "'j json_lib \<Rightarrow> shared_data \<Rightarrow> 'j state_item option" where
  "save_item J d =
    map_option (\<lambda>(t, j). \<lparr>it_id = Present (sd_id d), it_type = Present (data_type_int (sd_type d)),
                          it_value_type = Present t, it_value = Some j\<rparr>)
      (save_value J (sd_value d))"

text \<open>The entries are visited in the order \<open>keys\<close> of the hash map.\<close>

definition state_document :: "'j json_lib \<Rightarrow> string list \<Rightarrow> data_store \<Rightarrow> 'j state_doc" where
  "state_document J keys s =
    \<lparr>doc_version = Present 1,
     doc_data = Present (List.map_filter (\<lambda>k. Option.bind (data_map s k) (save_item J)) keys)\<rparr>"

record file_outcome =
  open_ok :: bool
  write_ok :: bool
  rename_ok :: bool

datatype state_error =
    SaveFailed
  | OpenFailed
  | ParseFailed
  | BadVersion
  | UnsupportedVersion u32
  | BadData
  | JsonTypeError

text \<open>A failure on the way removes the temporary file; what an unfinished write left there is not read by anyone.\<close>

definition saveState ::
  "'j json_lib \<Rightarrow> file_outcome \<Rightarrow> string list \<Rightarrow> string \<Rightarrow> data_store \<Rightarrow> (string \<rightharpoonup> string) \<Rightarrow>
    (string \<rightharpoonup> string) \<times> state_error option" where
  "saveState J io keys filepath s files =
    (let temp = filepath @ ''.tmp'';
         failed = (\<lambda>files. (files(temp := None), Some SaveFailed))
     in if \<not> open_ok io then failed files
        else case dump J (state_document J keys s) of
               None \<Rightarrow> failed (files(temp \<mapsto> ''''))
             | Some content \<Rightarrow>
                 let files = files(temp \<mapsto> content)
                 in if \<not> write_ok io then failed files
                    else if \<not> rename_ok io then failed files
                    else (files(filepath \<mapsto> content, temp := None), None))"

definition load_value :: "'j json_lib \<Rightarrow> string \<Rightarrow> 'j \<Rightarrow> any_value option" where
  "load_value J t j =
    (if t = ''int'' then map_option AnyInt (to_int32 J j)
     else if t = ''double'' then map_option AnyDouble (to_double J j)
     else if t = ''float'' then map_option AnyFloat (to_float J j)
     else if t = ''string'' then map_option AnyString (to_str J j)
     else if t = ''bool'' then map_option AnyBool (to_boolean J j)
     else if t = ''long'' then map_option AnyLong (to_int64 J j)
     else None)"

text \<open>One turn of the loop: an item with a missing field or a value that does not convert is skipped, and the
  conversions of the other fields throw out of the function.\<close>

definition load_item ::
  "'j json_lib \<Rightarrow> time \<Rightarrow> 'j state_item \<Rightarrow> (string \<rightharpoonup> shared_data) \<Rightarrow> (string \<rightharpoonup> shared_data) option" where
  "load_item J now it m =
    (if it_id it = Absent \<or> it_type it = Absent \<or> it_value_type it = Absent \<or> it_value it = None then Some m
     else
       case (json_get (it_id it), json_get (it_type it), json_get (it_value_type it)) of
         (Some key, Some ty, Some t) \<Rightarrow>
           (case load_value J t (the (it_value it)) of
              None \<Rightarrow> Some m
            | Some v \<Rightarrow>
                Some (m(key \<mapsto> \<lparr>sd_id = key, sd_type = int_data_type ty, sd_value = v, sd_timestamp = now,
                                 sd_expiration_time = 0\<rparr>)))
       | _ \<Rightarrow> None)"

fun load_items ::
  "'j json_lib \<Rightarrow> (nat \<Rightarrow> time) \<Rightarrow> 'j state_item list \<Rightarrow> (string \<rightharpoonup> shared_data) \<Rightarrow>
    (string \<rightharpoonup> shared_data) \<times> state_error option" where
  "load_items J clock [] m = (m, None)"
| "load_items J clock (it # its) m =
    (case load_item J (clock 0) it m of
       None \<Rightarrow> (m, Some JsonTypeError)
     | Some m \<Rightarrow> load_items J (\<lambda>n. clock (Suc n)) its m)"

definition loadState ::
  "'j json_lib \<Rightarrow> (nat \<Rightarrow> time) \<Rightarrow> string \<Rightarrow> (string \<rightharpoonup> string) \<Rightarrow> data_store \<Rightarrow> data_store \<times> state_error option" where
  "loadState J clock filepath files s =
    (case files filepath of
       None \<Rightarrow> (s, Some OpenFailed)
     | Some content \<Rightarrow>
         (case parse J content of
            None \<Rightarrow> (s, Some ParseFailed)
          | Some doc \<Rightarrow>
              (case json_get (doc_version doc) of
                 None \<Rightarrow> (s, Some BadVersion)
               | Some version \<Rightarrow>
                   if version \<noteq> 1 then (s, Some (UnsupportedVersion version))
                   else
                     case json_get (doc_data doc) of
                       None \<Rightarrow> (s, Some BadData)
                     | Some its \<Rightarrow>
                         let (m, err) = load_items J clock its Map.empty in (s\<lparr>data_map := m\<rparr>, err))))"

section \<open>Histories\<close>

datatype store_op =
    SetData store_env string any_value DataType data_policy
  | GetData store_env string value_type
  | PollData store_env string value_type
  | SetVersioned store_env string any_value DataType
  | SubscribeData string "nat option"
  | UnsubscribeData store_env string "nat option"
  | ApplyExpiration time string data_policy
  | RemoveExpiration string
  | CleanExpired time
  | SetAccess string string bool

fun store_step :: "data_store \<Rightarrow> store_op \<Rightarrow> data_store" where
  "store_step s (SetData env key v ty pol) = fst (set_data env key v ty pol s)"
| "store_step s (GetData env key t) = fst (get_data env key t s)"
| "store_step s (PollData env key t) = fst (poll_data env key t s)"
| "store_step s (SetVersioned env key v ty) = setVersioned env key v ty s"
| "store_step s (SubscribeData key obs) = subscribe_data key obs s"
| "store_step s (UnsubscribeData env key obs) = unsubscribe_data env key obs s"
| "store_step s (ApplyExpiration now key pol) = applyExpirationPolicy now key pol s"
| "store_step s (RemoveExpiration key) = removeExpirationPolicy key s"
| "store_step s (CleanExpired now) = cleanExpiredData now s"
| "store_step s (SetAccess key module can) = setAccessPolicy key module can s"

section \<open>Lemmas\<close>

subsection \<open>What the operations leave alone\<close>

lemma notifySubscribers_frame [simp]:
  "data_map (notifySubscribers env n d s) = data_map s"
  "version_map (notifySubscribers env n d s) = version_map s"
  "expirations (notifySubscribers env n d s) = expirations s"
  "policies (notifySubscribers env n d s) = policies s"
  "metrics (notifySubscribers env n d s) = metrics s"
  by (simp_all add: notifySubscribers_def Let_def split: option.split prod.split)

lemma store_log_frame [simp]:
  "data_map (store_log_error env n kind msg ctx s) = data_map s"
  "version_map (store_log_error env n kind msg ctx s) = version_map s"
  "expirations (store_log_error env n kind msg ctx s) = expirations s"
  "notifiers (store_log_error env n kind msg ctx s) = notifiers s"
  "notified (store_log_error env n kind msg ctx s) = notified s"
  "data_map (store_log_access env n kind key s) = data_map s"
  "version_map (store_log_access env n kind key s) = version_map s"
  "expirations (store_log_access env n kind key s) = expirations s"
  "notifiers (store_log_access env n kind key s) = notifiers s"
  "notified (store_log_access env n kind key s) = notified s"
  by (simp_all add: store_log_error_def store_log_access_def)

lemma read_frame [simp]:
  "data_map (fst (get_data env key t s)) = data_map s" "version_map (fst (get_data env key t s)) = version_map s"
  "data_map (fst (poll_data env key t s)) = data_map s" "version_map (fst (poll_data env key t s)) = version_map s"
  by (simp_all add: get_data_def poll_data_def Let_def split: option.split)

lemma subscribe_frame [simp]:
  "data_map (subscribe_data key obs s) = data_map s" "version_map (subscribe_data key obs s) = version_map s"
  "expirations (subscribe_data key obs s) = expirations s"
  "data_map (unsubscribe_data env key obs s) = data_map s" "version_map (unsubscribe_data env key obs s) = version_map s"
  "expirations (unsubscribe_data env key obs s) = expirations s"
  by (simp_all add: subscribe_data_def unsubscribe_data_def Let_def split: option.split)

text \<open>The entry a \<^verbatim>\<open>set\<close> stores.\<close>

definition set_entry :: "store_env \<Rightarrow> string \<Rightarrow> any_value \<Rightarrow> DataType \<Rightarrow> data_policy \<Rightarrow> shared_data" where
  "set_entry env key v ty pol =
    \<lparr>sd_id = key, sd_type = ty, sd_value = v, sd_timestamp = readings env 0,
     sd_expiration_time = (if policy_type pol = TTL then readings env 0 + ms (duration pol) else 0)\<rparr>"

lemma set_data_result: "snd (set_data env key v ty pol s) = set_mismatch key v ty s"
  by (simp add: set_data_def Let_def split: option.split)

lemma set_data_map:
  "data_map (fst (set_data env key v ty pol s)) =
    (if set_mismatch key v ty s = None then (data_map s)(key \<mapsto> set_entry env key v ty pol) else data_map s)"
  by (auto simp: set_data_def set_entry_def Let_def split: option.split ExpirationPolicyType.split)

lemma set_data_versions [simp]: "version_map (fst (set_data env key v ty pol s)) = version_map s"
  by (auto simp: set_data_def Let_def split: option.split ExpirationPolicyType.split)

lemma set_data_expirations:
  "expirations (fst (set_data env key v ty pol s)) =
    (if set_mismatch key v ty s \<noteq> None then expirations s
     else case policy_type pol of
            TTL \<Rightarrow> applyPolicy key (readings env 0 + ms (duration pol)) (expirations s)
          | LRU \<Rightarrow> applyLRUPolicy key (word_of_int (duration pol)) (expirations s)
          | NoPolicy \<Rightarrow> expirations s)"
  by (auto simp: set_data_def Let_def split: option.split ExpirationPolicyType.split)

subsection \<open>Cleaning\<close>

lemma removePolicy_simps [simp]:
  "key_to_expiration (removePolicy k m) = (key_to_expiration m)(k := None)"
  "lru_list (removePolicy k m) = lru_list m" "lru_map (removePolicy k m) = lru_map m"
  "max_lru_capacity (removePolicy k m) = max_lru_capacity m"
  by (auto simp: removePolicy_def fun_eq_iff split: option.split)

lemma removeLRUPolicy_simps [simp]:
  "key_to_expiration (removeLRUPolicy k m) = key_to_expiration m"
  "max_lru_capacity (removeLRUPolicy k m) = max_lru_capacity m"
  by (auto simp: removeLRUPolicy_def)

lemma removeLRUPolicy_list:
  "exp_ok m \<Longrightarrow> lru_list (removeLRUPolicy k m) = filter (\<lambda>x. x \<noteq> k) (lru_list m)"
  by (auto simp: removeLRUPolicy_def exp_ok_def distinct_remove1_removeAll removeAll_filter_not_eq
      intro!: filter_cong filter_True [symmetric])

lemma exp_ok_removeLRUPolicy: "exp_ok m \<Longrightarrow> exp_ok (removeLRUPolicy k m)"
  using exp.step_inv [of m "RemoveLRU k"] by simp

lemma clean_key_restrict:
  "data_map (clean_ttl_key k s) |` (- K) = data_map s |` (- insert k K)"
  "key_to_expiration (expirations (clean_ttl_key k s)) |` (- K) = key_to_expiration (expirations s) |` (- insert k K)"
  "data_map (clean_lru_key k s) |` (- K) = data_map s |` (- insert k K)"
  "key_to_expiration (expirations (clean_lru_key k s)) |` (- K) = key_to_expiration (expirations s) |` (- insert k K)"
  by (auto simp: clean_ttl_key_def clean_lru_key_def restrict_map_def fun_eq_iff)

lemma clean_key_frame [simp]:
  "max_lru_capacity (expirations (clean_ttl_key k s)) = max_lru_capacity (expirations s)"
  "version_map (clean_ttl_key k s) = version_map s"
  "lru_list (expirations (clean_lru_key k s)) = lru_list (expirations s)"
  "version_map (clean_lru_key k s) = version_map s"
  by (simp_all add: clean_ttl_key_def clean_lru_key_def)

lemma clean_ttl_fold:
  assumes "exp_ok (expirations s)"
  shows "let s' = fold clean_ttl_key ks s in
    exp_ok (expirations s') \<and> data_map s' = data_map s |` (- set ks) \<and>
    key_to_expiration (expirations s') = key_to_expiration (expirations s) |` (- set ks) \<and>
    lru_list (expirations s') = filter (\<lambda>k. k \<notin> set ks) (lru_list (expirations s)) \<and>
    max_lru_capacity (expirations s') = max_lru_capacity (expirations s) \<and> version_map s' = version_map s"
  using assms
proof (induction ks arbitrary: s)
  case (Cons k ks)
  let ?s = "clean_ttl_key k s"
  have ok: "exp_ok (expirations ?s)"
    using Cons.prems by (simp add: clean_ttl_key_def exp_ok_removeLRUPolicy exp_ok_removePolicy)
  have l: "lru_list (expirations ?s) = filter (\<lambda>x. x \<noteq> k) (lru_list (expirations s))"
    using Cons.prems by (simp add: clean_ttl_key_def removeLRUPolicy_list exp_ok_removePolicy)
  show ?case
    using Cons.IH [OF ok] by (simp add: l Let_def clean_key_restrict conj_commute)
qed (simp add: Let_def restrict_map_def)

lemma clean_lru_fold:
  assumes "exp_ok (expirations s)"
  shows "let s' = fold clean_lru_key ks s in
    exp_ok (expirations s') \<and> data_map s' = data_map s |` (- set ks) \<and>
    key_to_expiration (expirations s') = key_to_expiration (expirations s) |` (- set ks) \<and>
    lru_list (expirations s') = lru_list (expirations s) \<and> version_map s' = version_map s"
  using assms
proof (induction ks arbitrary: s)
  case (Cons k ks)
  have ok: "exp_ok (expirations (clean_lru_key k s))"
    using Cons.prems by (simp add: clean_lru_key_def exp_ok_removePolicy)
  show ?case using Cons.IH [OF ok] by (simp add: Let_def clean_key_restrict)
qed (simp add: Let_def restrict_map_def)

text \<open>The keys that cleaning removes: those whose time has come, and of the others those beyond the capacity
  of the recency list.\<close>

definition ttl_expired :: "time \<Rightarrow> data_store \<Rightarrow> string set" where
  "ttl_expired now s = {k. \<exists>t \<le> now. key_to_expiration (expirations s) k = Some t}"

definition lru_tracked :: "time \<Rightarrow> data_store \<Rightarrow> string list" where
  "lru_tracked now s = filter (\<lambda>k. k \<notin> ttl_expired now s) (lru_list (expirations s))"

definition cleaned_keys :: "time \<Rightarrow> data_store \<Rightarrow> string set" where
  "cleaned_keys now s =
    ttl_expired now s \<union> set (drop (unat (max_lru_capacity (expirations s))) (lru_tracked now s))"

lemma clean_spec:
  assumes "exp_ok (expirations s)"
  shows "let s' = cleanExpiredData now s in
    exp_ok (expirations s') \<and> data_map s' = data_map s |` (- cleaned_keys now s) \<and>
    key_to_expiration (expirations s') = key_to_expiration (expirations s) |` (- cleaned_keys now s) \<and>
    lru_list (expirations s') = take (unat (max_lru_capacity (expirations s))) (lru_tracked now s) \<and>
    version_map s' = version_map s"
proof -
  let ?ks = "getExpiredKeys now (expirations s)"
  define s1 where "s1 = fold clean_ttl_key ?ks s"
  have ks: "set ?ks = ttl_expired now s" using expired_set [OF assms] by (simp add: ttl_expired_def)
  have 1: "exp_ok (expirations s1)" "data_map s1 = data_map s |` (- ttl_expired now s)"
    "key_to_expiration (expirations s1) = key_to_expiration (expirations s) |` (- ttl_expired now s)"
    "lru_list (expirations s1) = lru_tracked now s"
    "max_lru_capacity (expirations s1) = max_lru_capacity (expirations s)" "version_map s1 = version_map s"
    using clean_ttl_fold [OF assms, of ?ks] by (simp_all add: s1_def ks lru_tracked_def Let_def)
  note spec = getExpiredKeysLRU_spec [OF 1(1)]
  have ok: "exp_ok (snd (getExpiredKeysLRU (expirations s1)))"
    using exp.step_inv [OF 1(1), of ExpireLRU] by simp
  show ?thesis
    using clean_lru_fold [of "s1\<lparr>expirations := snd (getExpiredKeysLRU (expirations s1))\<rparr>" "fst (getExpiredKeysLRU (expirations s1))"] ok 1
    by (simp add: cleanExpiredData_def Let_def spec cleaned_keys_def flip: s1_def)
qed

subsection \<open>Invariants\<close>

text \<open>Entries are stored under their own id, and the expiration manager is consistent.\<close>

definition data_ok :: "data_store \<Rightarrow> bool" where
  "data_ok s \<longleftrightarrow> exp_ok (expirations s) \<and> (\<forall>k d. data_map s k = Some d \<longrightarrow> sd_id d = k)"

lemma data_ok_new: "data_ok DataStore"
  by (simp add: data_ok_def DataStore_def exp_ok_new)

lemma exp_ok_applyLRUPolicy: "exp_ok m \<Longrightarrow> exp_ok (applyLRUPolicy k c m)"
  using exp.step_inv [of m "ApplyLRU k c"] by simp

lemma exp_ok_recordAccess: "exp_ok m \<Longrightarrow> exp_ok (recordAccess k m)"
  using exp.step_inv [of m "RecordAccess k"] by simp

lemmas exp_ok_rules = exp_ok_applyPolicy exp_ok_removePolicy exp_ok_applyLRUPolicy exp_ok_recordAccess

interpretation ds: step_system store_step data_ok
proof unfold_locales
  fix s e
  assume ok: "data_ok s"
  have m: "exp_ok (expirations s)" using ok by (simp add: data_ok_def)
  show "data_ok (store_step s e)"
  proof (cases e)
    case (SetData env key v ty pol)
    then show ?thesis
      using ok by (auto simp: data_ok_def set_data_map set_data_expirations set_entry_def exp_ok_rules split: ExpirationPolicyType.split)
  next
    case (GetData env key t)
    then show ?thesis
      using ok by (auto simp: data_ok_def exp_ok_rules get_data_def Let_def split: option.split)
  next
    case (PollData env key t)
    then show ?thesis
      using ok by (auto simp: data_ok_def exp_ok_rules poll_data_def Let_def split: option.split)
  next
    case (SetVersioned env key v ty)
    then show ?thesis
      using ok by (simp add: data_ok_def setVersioned_def setVersioned_count_def setVersioned_store_def versioned_entry_def)
  next
    case (CleanExpired now)
    then show ?thesis
      using ok clean_spec [OF m, of now] by (auto simp: data_ok_def Let_def restrict_map_def)
  qed (use ok in \<open>auto simp: data_ok_def applyExpirationPolicy_def removeExpirationPolicy_def setAccessPolicy_def exp_ok_rules\<close>)
qed

text \<open>Versions count the versioned writes of a key.\<close>

fun versioned_write :: "string \<Rightarrow> store_op \<Rightarrow> bool" where
  "versioned_write key (SetVersioned env k v ty) = (k = key)"
| "versioned_write key _ = False"

definition version_of :: "string \<Rightarrow> data_store \<Rightarrow> u64" where
  "version_of key s = (case version_map s key of None \<Rightarrow> 0 | Some n \<Rightarrow> n)"

lemma version_step:
  assumes "data_ok s"
  shows "version_of key (store_step s e) = version_of key s + (if versioned_write key e then 1 else 0)"
proof (cases e)
  case (CleanExpired now)
  then show ?thesis using clean_spec [of s now] assms by (simp add: data_ok_def version_of_def Let_def)
qed (auto simp: version_of_def setVersioned_def setVersioned_count_def setVersioned_store_def applyExpirationPolicy_def
    removeExpirationPolicy_def setAccessPolicy_def split: option.split)

lemma version_run:
  "data_ok s \<Longrightarrow>
    version_of key (run_steps store_step s ops) = version_of key s + of_nat (length (filter (versioned_write key) ops))"
proof (induction ops arbitrary: s)
  case (Cons e ops)
  then show ?case using Cons.IH [OF ds.step_inv [OF Cons.prems]] by (simp add: version_step)
qed simp

subsection \<open>Notification\<close>

definition quiet :: "store_env \<Rightarrow> nat \<Rightarrow> bool" where
  "quiet env w = (throws env w = None)"

lemma notify_called:
  "fst (snd (notify env ws)) =
    (let live = filter (alive env) ws in takeWhile (quiet env) live @ take 1 (dropWhile (quiet env) live))"
  by (induction ws) (auto simp: quiet_def Let_def split: option.split prod.split)

lemma notify_error:
  "snd (snd (notify env ws)) = None \<longleftrightarrow> list_all (quiet env) (filter (alive env) ws)"
  by (induction ws) (auto simp: quiet_def Let_def split: option.split prod.split)

subsection \<open>Saving and loading\<close>

lemma data_type_number [simp]: "data_type_int (int_data_type n) = n"
  by (simp add: int_data_type_def)

text \<open>Each conversion of the library reads what the opposite one made.\<close>

definition json_conversions :: "'j json_lib \<Rightarrow> bool" where
  "json_conversions J \<longleftrightarrow>
    (\<forall>i. to_int32 J (of_int32 J i) = Some i) \<and> (\<forall>d. to_double J (of_double J d) = Some d) \<and>
    (\<forall>f. to_float J (of_float J f) = Some f) \<and> (\<forall>x. to_str J (of_string J x) = Some x) \<and>
    (\<forall>b. to_boolean J (of_boolean J b) = Some b) \<and> (\<forall>l. to_int64 J (of_int64 J l) = Some l)"

lemma load_save_value:
  "json_conversions J \<Longrightarrow> save_value J v = Some (t, j) \<Longrightarrow> load_value J t j = Some v"
  by (cases v) (clarsimp simp: save_value_def load_value_def json_conversions_def)+

text \<open>What a saved entry keeps.\<close>

definition saved_part :: "shared_data \<Rightarrow> string \<times> u32 \<times> any_value" where
  "saved_part d = (sd_id d, data_type_int (sd_type d), sd_value d)"

fun saved_type :: "value_type \<Rightarrow> bool" where
  "saved_type (TOther _) = False"
| "saved_type _ = True"

lemma save_item_None: "save_item J d = None \<longleftrightarrow> \<not> saved_type (type_of (sd_value d))"
  by (cases "sd_value d") (auto simp: save_item_def save_value_def)

lemma load_save_item:
  assumes "json_conversions J" and "save_item J d = Some it"
  shows "\<exists>d'. load_item J now it m = Some (m(sd_id d \<mapsto> d')) \<and> saved_part d' = saved_part d"
  using assms load_save_value [OF assms(1)] by (fastforce simp: save_item_def load_item_def saved_part_def)

text \<open>The map \<open>m'\<close> has the saved parts of the entries of \<open>f\<close> at the keys that are saved, and those of \<open>m\<close> elsewhere.\<close>

definition restored ::
  "(string \<rightharpoonup> shared_data) \<Rightarrow> string list \<Rightarrow> (string \<rightharpoonup> shared_data) \<Rightarrow> (string \<rightharpoonup> shared_data) \<Rightarrow> bool" where
  "restored f keys m m' \<longleftrightarrow>
    (\<forall>k. map_option saved_part (m' k) =
       (if k \<in> set keys \<and> saved_type (type_of (sd_value (the (f k)))) then map_option saved_part (f k)
        else map_option saved_part (m k)))"

lemma restored_skip:
  "\<not> saved_type (type_of (sd_value (the (f k)))) \<Longrightarrow> restored f ks m m' \<Longrightarrow> restored f (k # ks) m m'"
  by (auto simp: restored_def)

lemma restored_add:
  assumes "k \<notin> set ks" and "f k = Some d" and "saved_part d' = saved_part d" and "restored f ks (m(k \<mapsto> d')) m'"
    and "saved_type (type_of (sd_value d))"
  shows "restored f (k # ks) m m'"
  unfolding restored_def
proof
  fix x
  show "map_option saved_part (m' x) =
    (if x \<in> set (k # ks) \<and> saved_type (type_of (sd_value (the (f x)))) then map_option saved_part (f x)
     else map_option saved_part (m x))"
    using assms spec [OF assms(4) [unfolded restored_def], of x] by (cases "x = k") simp_all
qed

lemma load_saved_items:
  assumes "json_conversions J" and "distinct keys" and "\<forall>k \<in> set keys. \<exists>d. f k = Some d \<and> sd_id d = k"
  shows "\<exists>m'. load_items J clock (List.map_filter (\<lambda>k. Option.bind (f k) (save_item J)) keys) m = (m', None) \<and>
    restored f keys m m'"
  using assms(2,3)
proof (induction keys arbitrary: m clock)
  case Nil
  show ?case by (simp add: List.map_filter_def restored_def)
next
  case (Cons k ks)
  have ks: "distinct ks" "\<forall>k \<in> set ks. \<exists>d. f k = Some d \<and> sd_id d = k" and k: "k \<notin> set ks" using Cons.prems by auto
  obtain d where d: "f k = Some d" "sd_id d = k" using Cons.prems(2) by auto
  let ?its = "List.map_filter (\<lambda>k. Option.bind (f k) (save_item J)) ks"
  show ?case
  proof (cases "save_item J d")
    case None
    then have un: "\<not> saved_type (type_of (sd_value (the (f k))))" using d by (simp add: save_item_None)
    obtain m' where "load_items J clock ?its m = (m', None)" "restored f ks m m'" using Cons.IH [OF ks, of clock m] by auto
    then show ?thesis using restored_skip [of f k ks m m'] un None d by (intro exI [of _ m']) (simp add: map_filter_simps)
  next
    case (Some it)
    then obtain d' where d': "load_item J (clock 0) it m = Some (m(k \<mapsto> d'))" "saved_part d' = saved_part d"
      using load_save_item [OF assms(1) Some] d by blast
    have sv: "saved_type (type_of (sd_value d))" using Some save_item_None [of J d] by simp
    obtain m' where "load_items J (\<lambda>n. clock (Suc n)) ?its (m(k \<mapsto> d')) = (m', None)" "restored f ks (m(k \<mapsto> d')) m'"
      using Cons.IH [OF ks, of "\<lambda>n. clock (Suc n)" "m(k \<mapsto> d')"] by blast
    then show ?thesis
      using restored_add [of k ks f d d' m m'] k d d' sv Some by (intro exI [of _ m']) (simp add: map_filter_simps)
  qed
qed

section \<open>Properties\<close>


text \<open>C15. Cleaning removes exactly what is due, after any operations: the entries whose time has come, and of the
  others those beyond the capacity of the recency list. With an entry go its policies, and
  versions stay.\<close>

theorem clean_removes_exactly:
  "let s = run_steps store_step DataStore ops; s' = cleanExpiredData now s in
   data_map s' = data_map s |` (- cleaned_keys now s) \<and>
   key_to_expiration (expirations s') = key_to_expiration (expirations s) |` (- cleaned_keys now s) \<and>
   lru_list (expirations s') = take (unat (max_lru_capacity (expirations s))) (lru_tracked now s) \<and>
   version_map s' = version_map s"
  using clean_spec [of "run_steps store_step DataStore ops" now] ds.run_inv [OF data_ok_new, of ops]
  by (simp add: data_ok_def Let_def)

text \<open>A write without a policy does not end the policy of the entry it replaces: the new entry says that it has no
  expiration time, and is deleted when the time of the old entry comes.\<close>

theorem old_ttl_deletes_new_data:
  assumes "exp_ok (expirations s)" and "set_mismatch key v ty s = None" and "type_of w = type_of v"
    and "readings env 0 + ms d \<le> now"
  shows "let s1 = fst (set_data env key v ty \<lparr>policy_type = TTL, duration = d\<rparr> s);
             (s2, r) = set_data env' key w ty no_policy s1
         in r = None \<and> map_option sd_value (data_map s2 key) = Some w \<and>
            map_option sd_expiration_time (data_map s2 key) = Some 0 \<and> data_map (cleanExpiredData now s2) key = None"
proof -
  define s1 where "s1 = fst (set_data env key v ty \<lparr>policy_type = TTL, duration = d\<rparr> s)"
  define s2 where "s2 = fst (set_data env' key w ty no_policy s1)"
  have 1: "set_mismatch key w ty s1 = None"
    using assms(2,3) by (simp add: s1_def set_mismatch_def set_data_map set_entry_def)
  have e: "expirations s2 = applyPolicy key (readings env 0 + ms d) (expirations s)"
    using 1 assms(2) by (simp add: s2_def s1_def set_data_expirations no_policy_def)
  then have "key_to_expiration (expirations s2) key = Some (readings env 0 + ms d)"
    by (simp add: applyPolicy_def Let_def)
  then have "key \<in> cleaned_keys now s2" using assms(4) by (auto simp: cleaned_keys_def ttl_expired_def)
  moreover have "exp_ok (expirations s2)" using e assms(1) by (simp add: exp_ok_applyPolicy)
  ultimately have "data_map (cleanExpiredData now s2) key = None"
    using clean_spec [of s2 now] by (simp add: Let_def)
  then show ?thesis
    using 1 by (simp add: set_data_result set_data_map set_entry_def no_policy_def case_prod_beta flip: s1_def)
      (simp add: s2_def no_policy_def)
qed

text \<open>The version of a key counts its versioned writes, through any other operations.\<close>

theorem version_counts_writes:
  "snd (get_data env key t (run_steps store_step DataStore ops)) = Inr v \<Longrightarrow>
   map_sum id vd_version (getVersioned key t (run_steps store_step DataStore ops)) =
     Inr (of_nat (length (filter (versioned_write key) ops)))"
proof -
  let ?s = "run_steps store_step DataStore ops"
  assume "snd (get_data env key t ?s) = Inr v"
  then obtain d where "data_map ?s key = Some d" "type_of (sd_value d) = t"
    by (auto simp: get_data_def get_failure_def Let_def split: option.splits if_splits)
  moreover have "version_of key ?s = of_nat (length (filter (versioned_write key) ops))"
    using version_run [OF data_ok_new, of key ops] by (simp add: version_of_def DataStore_def)
  ultimately show ?thesis by (simp add: getVersioned_def version_of_def)
qed

text \<open>A versioned read that comes between the two steps of a versioned write has the new value with the old version:
  it claims to be consistent with a read of the value before (the counter is short of its last value).\<close>

theorem versioned_read_inconsistent:
  assumes "getVersioned key (type_of v) s = Inr before" and "vd_value before \<noteq> v" and "version_of key s < - 1"
  shows "let s1 = setVersioned_store env key v ty s; s2 = setVersioned_count key s1 in
    \<exists>during after. getVersioned key (type_of v) s1 = Inr during \<and> getVersioned key (type_of v) s2 = Inr after \<and>
      vd_value during = v \<and> isConsistentWith during before \<and> vd_value after = v \<and> isNewerThan after during"
proof -
  have b: "vd_version before = version_of key s"
    using assms(1) by (auto simp: getVersioned_def version_of_def split: option.splits if_splits)
  have "version_of key s < version_of key s + 1"
    using unat_inc_less [OF assms(3)] by (simp add: word_less_nat_alt)
  then show ?thesis
    using b by (simp add: getVersioned_def setVersioned_store_def setVersioned_count_def versioned_entry_def
        isConsistentWith_def isNewerThan_def version_of_def split: option.splits)
qed

text \<open>A stored value is announced to the live subscribers of its key in the order they subscribed, up to and
  including the first whose callback throws: the subscribers after that one are not told, and the caller of
  \<^verbatim>\<open>set\<close> does not learn of it.\<close>

theorem set_notifies_until_throw:
  assumes "set_mismatch key v ty s = None" and "notifiers s key = Some subs"
  shows "let (s', r) = set_data env key v ty pol s; live = filter (alive env) subs in
    r = None \<and>
    notified s' = notified s @ map (\<lambda>w. (w, set_entry env key v ty pol))
      (takeWhile (quiet env) live @ take 1 (dropWhile (quiet env) live))"
proof -
  have "notified (notifySubscribers env n (set_entry env key v ty pol) s0) = notified s0 @
      map (\<lambda>w. (w, set_entry env key v ty pol)) (fst (snd (notify env subs)))" if "notifiers s0 key = Some subs" for n s0
    using that by (simp add: notifySubscribers_def set_entry_def Let_def case_prod_beta split: option.split)
  then show ?thesis
    using assms by (simp add: set_data_def set_entry_def notify_called Let_def split: ExpirationPolicyType.split)
qed

text \<open>Saving is atomic: when any step fails the state file keeps what it had, and when none does it has the
  text of the whole state; no other file changes and no temporary file stays.\<close>

theorem save_state_atomic:
  "let (files', e) = saveState J io keys filepath s files in
   files' filepath = (if e = None then dump J (state_document J keys s) else files filepath) \<and>
   files' (filepath @ ''.tmp'') = None \<and>
   files' |` (- {filepath, filepath @ ''.tmp''}) = files |` (- {filepath, filepath @ ''.tmp''}) \<and>
   (e = None) = (open_ok io \<and> dump J (state_document J keys s) \<noteq> None \<and> write_ok io \<and> rename_ok io)"
  by (auto simp: saveState_def Let_def restrict_map_def fun_eq_iff split: option.split)

text \<open>C14. A state that was saved is read back: every entry of a serializable type has its id, its data type and its
  value again, in whatever store it is loaded into, and no other entry is there.\<close>

theorem save_load_roundtrip:
  assumes "json_conversions J" and "distinct keys" and "set keys = dom (data_map s)"
    and "s = run_steps store_step DataStore ops" and "open_ok io" and "write_ok io" and "rename_ok io"
    and "dump J (state_document J keys s) = Some content" and "parse J content = Some (state_document J keys s)"
  shows "let (files', e) = saveState J io keys filepath s files; (s', e') = loadState J clock filepath files' s2 in
    e = None \<and> e' = None \<and>
    (\<forall>k. map_option saved_part (data_map s' k) =
      (if saved_type (type_of (sd_value (the (data_map s k)))) then map_option saved_part (data_map s k) else None))"
proof -
  have "data_ok s" using ds.run_inv [OF data_ok_new] assms(4) by simp
  then have "\<forall>k \<in> set keys. \<exists>d. data_map s k = Some d \<and> sd_id d = k" using assms(3) by (auto simp: data_ok_def)
  then obtain m where m: "load_items J clock (List.map_filter (\<lambda>k. Option.bind (data_map s k) (save_item J)) keys) Map.empty =
      (m, None)" "restored (data_map s) keys Map.empty m"
    using load_saved_items [OF assms(1,2), of "data_map s" clock Map.empty] by auto
  have "map_option saved_part (m k) =
      (if saved_type (type_of (sd_value (the (data_map s k)))) then map_option saved_part (data_map s k) else None)" for k
    using m(2) assms(3) by (cases "k \<in> dom (data_map s)") (auto simp: restored_def domIff)
  moreover have "saveState J io keys filepath s files = (files(filepath \<mapsto> content, filepath @ ''.tmp'' := None), None)"
    using assms(5-8) by (simp add: saveState_def Let_def fun_upd_twist)
  moreover have "loadState J clock filepath (files(filepath \<mapsto> content, filepath @ ''.tmp'' := None)) s2 = (s2\<lparr>data_map := m\<rparr>, None)"
    using assms(9) m(1) by (simp add: loadState_def state_document_def)
  ultimately show ?thesis by simp
qed

text \<open>Loading clears the store before it looks at the items: a file whose first item has a field of the wrong
  type makes it throw with every entry of the store gone.\<close>

theorem load_failure_loses_data:
  assumes "files filepath = Some content" and "parse J content = Some \<lparr>doc_version = Present 1, doc_data = Present (it # its)\<rparr>"
    and "it_id it = BadType" and "it_type it \<noteq> Absent" and "it_value_type it \<noteq> Absent" and "it_value it \<noteq> None"
  shows "loadState J clock filepath files s = (s\<lparr>data_map := Map.empty\<rparr>, Some JsonTypeError)"
  using assms by (auto simp: loadState_def load_item_def)

section \<open>Concrete runs\<close>

definition sample_env :: store_env where
  "sample_env = \<lparr>readings = (\<lambda>n. 1000 + int n), type_name = (\<lambda>_. ''i''), alive = (\<lambda>w. w \<noteq> 3),
    throws = (\<lambda>w. if w = 2 then Some ''boom'' else None)\<rparr>"

definition sample_ops :: "store_op list" where
  "sample_ops = [SetVersioned sample_env ''speed'' (AnyInt 4) RobotMode]"

definition sample_store :: data_store where
  "sample_store = DataStore\<lparr>notifiers := [''speed'' \<mapsto> [1, 3, 2, 4]]\<rparr>"

lemmas sample_defs = sample_env_def sample_ops_def sample_store_def DataStore_def

lemma sample_exp_ok: "exp_ok (expirations sample_store)"
  by (simp add: sample_defs exp_ok_new)

lemma sample_run:
  "data_map (run_steps store_step DataStore sample_ops) =
     [''speed'' \<mapsto> versioned_entry sample_env ''speed'' (AnyInt 4) RobotMode]"
  "version_map (run_steps store_step DataStore sample_ops) = [''speed'' \<mapsto> 1]"
  by (simp_all add: sample_ops_def DataStore_def setVersioned_def setVersioned_count_def setVersioned_store_def)

theorem old_ttl_deletes_new_data_witness:
  "let s1 = fst (set_data sample_env ''speed'' (AnyInt 4) Config \<lparr>policy_type = TTL, duration = 5\<rparr> sample_store);
       (s2, r) = set_data sample_env ''speed'' (AnyInt 5) Config no_policy s1
   in r = None \<and> map_option sd_value (data_map s2 ''speed'') = Some (AnyInt 5) \<and>
      map_option sd_expiration_time (data_map s2 ''speed'') = Some 0 \<and>
      data_map (cleanExpiredData 5001000 s2) ''speed'' = None"
  by (rule old_ttl_deletes_new_data [OF sample_exp_ok]) (simp_all add: sample_defs set_mismatch_def ms_def)

theorem version_counts_writes_witness:
  "map_sum id vd_version (getVersioned ''speed'' TInt (run_steps store_step DataStore sample_ops)) = Inr 1"
  using version_counts_writes [of sample_env "''speed''" TInt sample_ops "AnyInt 4"]
  by (simp add: get_data_def get_failure_def sample_run versioned_entry_def Let_def) (simp add: sample_ops_def)

theorem versioned_read_inconsistent_witness:
  "let s = run_steps store_step DataStore sample_ops;
       s1 = setVersioned_store sample_env ''speed'' (AnyInt 5) RobotMode s; s2 = setVersioned_count ''speed'' s1
   in \<exists>during after. getVersioned ''speed'' TInt s1 = Inr during \<and> getVersioned ''speed'' TInt s2 = Inr after \<and>
      vd_value during = AnyInt 5 \<and>
      isConsistentWith during \<lparr>vd_value = AnyInt 4, vd_version = 1, vd_timestamp_ns = 1000\<rparr> \<and>
      vd_value after = AnyInt 5 \<and> isNewerThan after during"
proof -
  have "getVersioned ''speed'' (type_of (AnyInt 5)) (run_steps store_step DataStore sample_ops) =
      Inr \<lparr>vd_value = AnyInt 4, vd_version = 1, vd_timestamp_ns = 1000\<rparr>"
    by (simp add: getVersioned_def sample_run versioned_entry_def) (simp add: sample_env_def)
  moreover have "version_of ''speed'' (run_steps store_step DataStore sample_ops) < - 1"
    by (simp add: version_of_def sample_run) code_simp
  ultimately show ?thesis
    using versioned_read_inconsistent [of "''speed''" "AnyInt 5" "run_steps store_step DataStore sample_ops"
        "\<lparr>vd_value = AnyInt 4, vd_version = 1, vd_timestamp_ns = 1000\<rparr>" sample_env RobotMode] by simp
qed

theorem set_notifies_until_throw_witness:
  "notified (fst (set_data sample_env ''speed'' (AnyInt 4) Config no_policy sample_store)) =
     map (\<lambda>w. (w, set_entry sample_env ''speed'' (AnyInt 4) Config no_policy)) [1, 2]"
  using set_notifies_until_throw [of "''speed''" "AnyInt 4" Config sample_store "[1, 3, 2, 4]" sample_env no_policy]
  by (simp add: sample_defs set_mismatch_def quiet_def case_prod_beta)

text \<open>A library whose values are the stored values themselves, and which knows one text.\<close>

definition sample_json :: "any_value state_doc \<Rightarrow> any_value json_lib" where
  "sample_json doc =
    \<lparr>of_int32 = AnyInt, of_double = AnyDouble, of_float = AnyFloat, of_string = AnyString, of_boolean = AnyBool,
     of_int64 = AnyLong,
     to_int32 = (\<lambda>v. case v of AnyInt i \<Rightarrow> Some i | _ \<Rightarrow> None),
     to_double = (\<lambda>v. case v of AnyDouble d \<Rightarrow> Some d | _ \<Rightarrow> None),
     to_float = (\<lambda>v. case v of AnyFloat f \<Rightarrow> Some f | _ \<Rightarrow> None),
     to_str = (\<lambda>v. case v of AnyString x \<Rightarrow> Some x | _ \<Rightarrow> None),
     to_boolean = (\<lambda>v. case v of AnyBool b \<Rightarrow> Some b | _ \<Rightarrow> None),
     to_int64 = (\<lambda>v. case v of AnyLong l \<Rightarrow> Some l | _ \<Rightarrow> None),
     dump = (\<lambda>_. Some ''text''), parse = (\<lambda>_. Some doc)\<rparr>"

definition sample_doc :: "any_value state_doc" where
  "sample_doc = \<lparr>doc_version = Present 1, doc_data = Present
    [\<lparr>it_id = Present ''speed'', it_type = Present 0, it_value_type = Present ''int'', it_value = Some (AnyInt 4)\<rparr>]\<rparr>"

lemma sample_conversions: "json_conversions (sample_json doc)"
  by (simp add: json_conversions_def sample_json_def)

lemma sample_text:
  "dump (sample_json doc) d = Some ''text''" "parse (sample_json doc) x = Some doc"
  by (simp_all add: sample_json_def)

lemma sample_document:
  "state_document (sample_json doc) [''speed''] (run_steps store_step DataStore sample_ops) = sample_doc"
  by (simp add: state_document_def sample_run save_item_def save_value_def versioned_entry_def sample_doc_def map_filter_simps)
    (simp add: sample_json_def)

theorem save_load_roundtrip_witness:
  "let (files', e) = saveState (sample_json sample_doc) \<lparr>open_ok = True, write_ok = True, rename_ok = True\<rparr> [''speed'']
         ''state'' (run_steps store_step DataStore sample_ops) Map.empty;
       (s', e') = loadState (sample_json sample_doc) (\<lambda>n. int n) ''state'' files' DataStore
   in e = None \<and> e' = None \<and> (\<forall>k. map_option saved_part (data_map s' k) =
      (if saved_type (type_of (sd_value (the (data_map (run_steps store_step DataStore sample_ops) k))))
       then map_option saved_part (data_map (run_steps store_step DataStore sample_ops) k) else None))"
  by (rule save_load_roundtrip [OF sample_conversions _ _ refl, where content = "''text''"])
    (simp_all add: sample_document sample_text sample_run)

theorem load_failure_loses_data_witness:
  "let s = run_steps store_step DataStore sample_ops;
       it = \<lparr>it_id = BadType, it_type = Present 0, it_value_type = Present ''int'', it_value = Some (AnyInt 4)\<rparr>;
       J = sample_json \<lparr>doc_version = Present 1, doc_data = Present [it]\<rparr>
   in data_map s \<noteq> Map.empty \<and> loadState J (\<lambda>n. int n) ''state'' [''state'' \<mapsto> ''text''] s =
        (s\<lparr>data_map := Map.empty\<rparr>, Some JsonTypeError)"
proof -
  let ?it = "\<lparr>it_id = BadType, it_type = Present 0, it_value_type = Present ''int'', it_value = Some (AnyInt 4)\<rparr>"
  have "loadState (sample_json \<lparr>doc_version = Present 1, doc_data = Present [?it]\<rparr>) (\<lambda>n. int n) ''state'' [''state'' \<mapsto> ''text'']
      (run_steps store_step DataStore sample_ops) =
      ((run_steps store_step DataStore sample_ops)\<lparr>data_map := Map.empty\<rparr>, Some JsonTypeError)"
    by (rule load_failure_loses_data [where it = ?it and its = "[]"]) (simp_all add: sample_text)
  then show ?thesis by (simp add: sample_run Let_def fun_upd_eqD)
qed

end
