(* ===== verification/Data_Accessors.thy ===== *)
theory Data_Accessors
  imports Data_Store
begin

text \<open>
  The accessors of the data store, \<^verbatim>\<open>src/src/core/datastore/impl\<close>: \<^verbatim>\<open>RobotStateAccessor\<close>,
  \<^verbatim>\<open>SensorDataAccessor\<close> and \<^verbatim>\<open>TaskStatusAccessor\<close>. Each method is one call of \<^verbatim>\<open>getVersioned\<close> or
  \<^verbatim>\<open>setVersioned\<close> with its key; doubles are their bits and are compared as IEEE 754 says.

  The lemmas show that the fields are independent of each other: a field reads as its last write, and its version
  counts the writes; and what \<^verbatim>\<open>setProgress\<close> lets pass.
\<close>

definition double_one :: u64 where
  "double_one = 0x3FF0000000000000"

section \<open>Robot state\<close>

definition robot_keys :: "string list" where
  "robot_keys = [''robot_state.position'', ''robot_state.velocity'', ''robot_state.joint_angles'', ''robot_state.joint_velocities'']"

record Vector3d =
  vec_x :: u64
  vec_y :: u64
  vec_z :: u64

definition any_vector3d :: "Vector3d \<Rightarrow> any_value" where
  "any_vector3d v = AnyOther ''Vector3d'' [vec_x v, vec_y v, vec_z v]"

definition any_vector :: "u64 list \<Rightarrow> any_value" where
  "any_vector ds = AnyOther ''vector<double>'' ds"

definition getPosition :: "data_store \<Rightarrow> store_error + versioned_data" where
  "getPosition s = getVersioned (robot_keys ! 0) (TOther ''Vector3d'') s"

definition getVelocity :: "data_store \<Rightarrow> store_error + versioned_data" where
  "getVelocity s = getVersioned (robot_keys ! 1) (TOther ''Vector3d'') s"

definition getJointAngles :: "data_store \<Rightarrow> store_error + versioned_data" where
  "getJointAngles s = getVersioned (robot_keys ! 2) (TOther ''vector<double>'') s"

definition getJointVelocities :: "data_store \<Rightarrow> store_error + versioned_data" where
  "getJointVelocities s = getVersioned (robot_keys ! 3) (TOther ''vector<double>'') s"

definition setPosition :: "store_env \<Rightarrow> Vector3d \<Rightarrow> data_store \<Rightarrow> data_store" where
  "setPosition env v s = setVersioned env (robot_keys ! 0) (any_vector3d v) RobotMode s"

definition setVelocity :: "store_env \<Rightarrow> Vector3d \<Rightarrow> data_store \<Rightarrow> data_store" where
  "setVelocity env v s = setVersioned env (robot_keys ! 1) (any_vector3d v) RobotMode s"

definition setJointAngles :: "store_env \<Rightarrow> u64 list \<Rightarrow> data_store \<Rightarrow> data_store" where
  "setJointAngles env ds s = setVersioned env (robot_keys ! 2) (any_vector ds) RobotMode s"

definition setJointVelocities :: "store_env \<Rightarrow> u64 list \<Rightarrow> data_store \<Rightarrow> data_store" where
  "setJointVelocities env ds s = setVersioned env (robot_keys ! 3) (any_vector ds) RobotMode s"

section \<open>Sensors\<close>

definition sensor_keys :: "string list" where
  "sensor_keys = [''sensor.temperature'', ''sensor.pressure'', ''sensor.humidity'', ''sensor.vibration'', ''sensor.current'']"

definition getTemperature :: "data_store \<Rightarrow> store_error + versioned_data" where
  "getTemperature s = getVersioned (sensor_keys ! 0) TDouble s"

definition getPressure :: "data_store \<Rightarrow> store_error + versioned_data" where
  "getPressure s = getVersioned (sensor_keys ! 1) TDouble s"

definition getHumidity :: "data_store \<Rightarrow> store_error + versioned_data" where
  "getHumidity s = getVersioned (sensor_keys ! 2) TDouble s"

definition getVibration :: "data_store \<Rightarrow> store_error + versioned_data" where
  "getVibration s = getVersioned (sensor_keys ! 3) TDouble s"

definition getCurrent :: "data_store \<Rightarrow> store_error + versioned_data" where
  "getCurrent s = getVersioned (sensor_keys ! 4) TDouble s"

definition setTemperature :: "store_env \<Rightarrow> u64 \<Rightarrow> data_store \<Rightarrow> data_store" where
  "setTemperature env d s = setVersioned env (sensor_keys ! 0) (AnyDouble d) RobotMode s"

definition setPressure :: "store_env \<Rightarrow> u64 \<Rightarrow> data_store \<Rightarrow> data_store" where
  "setPressure env d s = setVersioned env (sensor_keys ! 1) (AnyDouble d) RobotMode s"

definition setHumidity :: "store_env \<Rightarrow> u64 \<Rightarrow> data_store \<Rightarrow> data_store" where
  "setHumidity env d s = setVersioned env (sensor_keys ! 2) (AnyDouble d) RobotMode s"

definition setVibration :: "store_env \<Rightarrow> u64 \<Rightarrow> data_store \<Rightarrow> data_store" where
  "setVibration env d s = setVersioned env (sensor_keys ! 3) (AnyDouble d) RobotMode s"

definition setCurrent :: "store_env \<Rightarrow> u64 \<Rightarrow> data_store \<Rightarrow> data_store" where
  "setCurrent env d s = setVersioned env (sensor_keys ! 4) (AnyDouble d) RobotMode s"

section \<open>Task status\<close>

definition task_keys :: "string list" where
  "task_keys = [''task_status.state'', ''task_status.progress'', ''task_status.error_code'']"

datatype task_state = IDLE | RUNNING | PAUSED | COMPLETED | FAILED

fun task_state_number :: "task_state \<Rightarrow> u64" where
  "task_state_number IDLE = 0"
| "task_state_number RUNNING = 1"
| "task_state_number PAUSED = 2"
| "task_state_number COMPLETED = 3"
| "task_state_number FAILED = 4"

definition any_task_state :: "task_state \<Rightarrow> any_value" where
  "any_task_state t = AnyOther ''TaskState'' [task_state_number t]"

definition getTaskState :: "data_store \<Rightarrow> store_error + versioned_data" where
  "getTaskState s = getVersioned (task_keys ! 0) (TOther ''TaskState'') s"

definition getProgress :: "data_store \<Rightarrow> store_error + versioned_data" where
  "getProgress s = getVersioned (task_keys ! 1) TDouble s"

definition getErrorCode :: "data_store \<Rightarrow> store_error + versioned_data" where
  "getErrorCode s = getVersioned (task_keys ! 2) TInt s"

definition setTaskState :: "store_env \<Rightarrow> task_state \<Rightarrow> data_store \<Rightarrow> data_store" where
  "setTaskState env t s = setVersioned env (task_keys ! 0) (any_task_state t) TaskState s"

text \<open>\<open>None\<close> is the exception \<^verbatim>\<open>invalid_argument\<close>.\<close>

definition setProgress :: "store_env \<Rightarrow> u64 \<Rightarrow> data_store \<Rightarrow> data_store option" where
  "setProgress env d s =
    (if double_less d 0 \<or> double_less double_one d then None
     else Some (setVersioned env (task_keys ! 1) (AnyDouble d) TaskState s))"

definition setErrorCode :: "store_env \<Rightarrow> u32 \<Rightarrow> data_store \<Rightarrow> data_store" where
  "setErrorCode env n s = setVersioned env (task_keys ! 2) (AnyInt n) TaskState s"

section \<open>Histories\<close>

datatype accessor_op =
    WPosition Vector3d | WVelocity Vector3d | WJointAngles "u64 list" | WJointVelocities "u64 list"
  | WTemperature u64 | WPressure u64 | WHumidity u64 | WVibration u64 | WCurrent u64
  | WTaskState task_state | WProgress u64 | WErrorCode u32

fun accessor_step :: "data_store \<Rightarrow> store_env \<times> accessor_op \<Rightarrow> data_store" where
  "accessor_step s (env, WPosition v) = setPosition env v s"
| "accessor_step s (env, WVelocity v) = setVelocity env v s"
| "accessor_step s (env, WJointAngles ds) = setJointAngles env ds s"
| "accessor_step s (env, WJointVelocities ds) = setJointVelocities env ds s"
| "accessor_step s (env, WTemperature d) = setTemperature env d s"
| "accessor_step s (env, WPressure d) = setPressure env d s"
| "accessor_step s (env, WHumidity d) = setHumidity env d s"
| "accessor_step s (env, WVibration d) = setVibration env d s"
| "accessor_step s (env, WCurrent d) = setCurrent env d s"
| "accessor_step s (env, WTaskState t) = setTaskState env t s"
| "accessor_step s (env, WProgress d) = (case setProgress env d s of None \<Rightarrow> s | Some s' \<Rightarrow> s')"
| "accessor_step s (env, WErrorCode n) = setErrorCode env n s"

section \<open>Lemmas\<close>

definition all_keys :: "string list" where
  "all_keys = robot_keys @ sensor_keys @ task_keys"

lemma all_keys_distinct: "distinct all_keys"
  by (simp add: all_keys_def robot_keys_def sensor_keys_def task_keys_def)

text \<open>The key and the value a write stores, if it stores one.\<close>

fun write_target :: "accessor_op \<Rightarrow> (string \<times> any_value) option" where
  "write_target (WPosition v) = Some (robot_keys ! 0, any_vector3d v)"
| "write_target (WVelocity v) = Some (robot_keys ! 1, any_vector3d v)"
| "write_target (WJointAngles ds) = Some (robot_keys ! 2, any_vector ds)"
| "write_target (WJointVelocities ds) = Some (robot_keys ! 3, any_vector ds)"
| "write_target (WTemperature d) = Some (sensor_keys ! 0, AnyDouble d)"
| "write_target (WPressure d) = Some (sensor_keys ! 1, AnyDouble d)"
| "write_target (WHumidity d) = Some (sensor_keys ! 2, AnyDouble d)"
| "write_target (WVibration d) = Some (sensor_keys ! 3, AnyDouble d)"
| "write_target (WCurrent d) = Some (sensor_keys ! 4, AnyDouble d)"
| "write_target (WTaskState t) = Some (task_keys ! 0, any_task_state t)"
| "write_target (WProgress d) =
    (if double_less d 0 \<or> double_less double_one d then None else Some (task_keys ! 1, AnyDouble d))"
| "write_target (WErrorCode n) = Some (task_keys ! 2, AnyInt n)"

lemmas accessor_defs = setPosition_def setVelocity_def setJointAngles_def setJointVelocities_def setTemperature_def
  setPressure_def setHumidity_def setVibration_def setCurrent_def setTaskState_def setProgress_def setErrorCode_def

lemma accessor_step_values:
  "map_option sd_value (data_map (accessor_step s (env, w)) k) =
    (case write_target w of
       Some (key, v) \<Rightarrow> if k = key then Some v else map_option sd_value (data_map s k)
     | None \<Rightarrow> map_option sd_value (data_map s k))"
  by (cases w) (simp_all add: accessor_defs setVersioned_def setVersioned_count_def setVersioned_store_def versioned_entry_def)

lemma accessor_step_versions:
  "version_of k (accessor_step s (env, w)) =
    version_of k s + (if map_option fst (write_target w) = Some k then 1 else 0)"
  by (cases w) (auto simp: accessor_defs setVersioned_def setVersioned_count_def setVersioned_store_def version_of_def
      split: option.split)

text \<open>The values written to a key, in their order.\<close>

definition writes_to :: "string \<Rightarrow> (store_env \<times> accessor_op) list \<Rightarrow> any_value list" where
  "writes_to k ws = List.map_filter (\<lambda>w. case write_target (snd w) of
     Some (key, v) \<Rightarrow> if key = k then Some v else None | None \<Rightarrow> None) ws"

lemma accessor_run:
  "map_option sd_value (data_map (run_steps accessor_step s ws) k) =
     (if writes_to k ws = [] then map_option sd_value (data_map s k) else Some (last (writes_to k ws))) \<and>
   version_of k (run_steps accessor_step s ws) = version_of k s + of_nat (length (writes_to k ws))"
proof (induction ws arbitrary: s)
  case (Cons w ws)
  obtain env x where w: "w = (env, x)" by (cases w)
  show ?case
    using Cons.IH [of "accessor_step s w"] accessor_step_values [of s env x k] accessor_step_versions [of k s env x]
    by (auto simp: w writes_to_def map_filter_simps split: option.splits if_splits)
qed (simp add: writes_to_def map_filter_simps)

section \<open>Properties\<close>

text \<open>The fields behind the accessors are independent: their keys differ, and after any writes through them to a new store, reading a
  field gives the value last written to that field with the number of its writes as version, and
  fails if it was never written or holds a value of another type.\<close>

theorem accessor_reads_last_write:
  "let s = run_steps accessor_step DataStore ws; vs = writes_to key ws in
   distinct all_keys \<and>
   map_sum (\<lambda>e. e) (\<lambda>d. (vd_value d, vd_version d)) (getVersioned key t s) =
     (if vs = [] then Inl (VersionedNotFound key)
      else if type_of (last vs) \<noteq> t then Inl BadAnyCast
      else Inr (last vs, of_nat (length vs)))"
proof -
  let ?s = "run_steps accessor_step DataStore ws" and ?vs = "writes_to key ws"
  have "map_option sd_value (data_map ?s key) = (if ?vs = [] then None else Some (last ?vs))"
    "version_of key ?s = of_nat (length ?vs)"
    using accessor_run [of DataStore ws key] by (simp_all add: DataStore_def version_of_def)
  then show ?thesis by (auto simp: all_keys_distinct getVersioned_def version_of_def split: if_splits)
qed

text \<open>The progress that is stored lies between zero and one or is no number at all: the guard of \<^verbatim>\<open>setProgress\<close>
  compares, and every comparison with a NaN fails.\<close>

theorem progress_range_or_nan:
  "setProgress env d s \<noteq> None \<longleftrightarrow>
    double_nan d \<or> (double_rank 0 \<le> double_rank d \<and> double_rank d \<le> double_rank double_one)"
proof -
  have "\<not> double_nan 0" "\<not> double_nan double_one" by (simp_all add: double_nan_def double_magnitude_def double_one_def)
  then show ?thesis by (auto simp: setProgress_def double_less_def)
qed

end
