(* ===== verification/Priority_Service.thy ===== *)
theory Priority_Service
  imports Mxrc_Prelude
begin

text \<open>
  What a client relies on in a priority queue, shared by the queues of the control layer and the
  event bus. The interface \<open>priority_fifo\<close> gives the waiting elements in the order of service, an
  insertion behind the elements of the same or a higher priority, and the removal of the first
  one. Its client lemma says that the order of service is the stable sort of the accepted elements
  by priority.
\<close>

section \<open>The interface of a priority queue\<close>

definition enter_by :: "('a \<Rightarrow> 'p::linorder) \<Rightarrow> 'a \<Rightarrow> 'a list \<Rightarrow> 'a list" where
  "enter_by f x xs = takeWhile (\<lambda>y. f y \<le> f x) xs @ x # dropWhile (\<lambda>y. f y \<le> f x) xs"

fun drain :: "('q \<Rightarrow> ('b \<times> 'q) option) \<Rightarrow> nat \<Rightarrow> 'q \<Rightarrow> 'b list" where
  "drain pop 0 q = []"
| "drain pop (Suc n) q = (case pop q of None \<Rightarrow> [] | Some (x, q) \<Rightarrow> x # drain pop n q)"

fun accepted :: "('a \<Rightarrow> 'q \<Rightarrow> bool) \<Rightarrow> ('a \<Rightarrow> 'q \<Rightarrow> 'q) \<Rightarrow> 'q \<Rightarrow> 'a list \<Rightarrow> 'a list" where
  "accepted acc ins q [] = []"
| "accepted acc ins q (x # xs) =
    (if acc x q then x # accepted acc ins (ins x q) xs else accepted acc ins (ins x q) xs)"

lemma dropWhile_above:
  assumes "sorted (map f xs)" and "y \<in> set (dropWhile (\<lambda>y. f y \<le> f x) xs)"
  shows "f x < (f y :: 'p::linorder)"
  using assms by (induction xs) (auto split: if_splits)

lemma enter_by_sort:
  fixes f :: "'a \<Rightarrow> 'p::linorder"
  shows "enter_by f x (sort_key f xs) = sort_key f (xs @ [x])"
proof (rule sym, rule properties_for_sort_key)
  let ?P = "\<lambda>y. f y \<le> f x" and ?s = "sort_key f xs"
  have above: "f x < f y" if "y \<in> set (dropWhile ?P ?s)" for y
    using dropWhile_above [of f ?s y x] that by simp
  have below: "f y \<le> f x" if "y \<in> set (takeWhile ?P ?s)" for y
    using that by (rule set_takeWhileD [THEN conjunct2])
  have "mset (takeWhile ?P ?s) + mset (dropWhile ?P ?s) = mset xs"
    by (simp only: mset_append [symmetric] takeWhile_dropWhile_id mset_sort)
  then show "mset (enter_by f x ?s) = mset (xs @ [x])"
    by (simp add: enter_by_def ac_simps)
  show "filter (\<lambda>y. f k = f y) (enter_by f x ?s) = filter (\<lambda>y. f k = f y) (xs @ [x])"
    if "k \<in> set (enter_by f x ?s)" for k
  proof -
    have c: "(\<lambda>y. f k = f y) = (\<lambda>y. f y = f k)" by auto
    have eq: "filter (\<lambda>y. f k = f y) (takeWhile ?P ?s) @ filter (\<lambda>y. f k = f y) (dropWhile ?P ?s) =
        filter (\<lambda>y. f k = f y) xs"
      by (simp only: filter_append [symmetric] takeWhile_dropWhile_id sort_key_stable c)
    show ?thesis
    proof (cases "f k = f x")
      case True
      then have "filter (\<lambda>y. f k = f y) (dropWhile ?P ?s) = []"
        using above by (fastforce simp: filter_empty_conv)
      then show ?thesis using eq True by (simp add: enter_by_def)
    next
      case False
      then show ?thesis using eq by (simp add: enter_by_def)
    qed
  qed
  have "sorted (map f (takeWhile ?P ?s @ dropWhile ?P ?s))" by simp
  then have "sorted (map f (takeWhile ?P ?s))" "sorted (map f (dropWhile ?P ?s))"
    unfolding map_append sorted_append by simp_all
  moreover have "\<forall>y \<in> set (takeWhile ?P ?s). f y \<le> f x" using below by blast
  moreover have "\<forall>z \<in> set (dropWhile ?P ?s). f x \<le> f z" using above less_imp_le by blast
  ultimately show "sorted (map f (enter_by f x ?s))"
    by (simp add: enter_by_def sorted_append) (meson order_trans)
qed

lemma set_enter_by: "set (enter_by f x xs) = insert x (set xs)"
proof -
  have "set xs = set (takeWhile (\<lambda>y. f y \<le> f x) xs) \<union> set (dropWhile (\<lambda>y. f y \<le> f x) xs)"
    by (simp only: set_append [symmetric] takeWhile_dropWhile_id)
  then show ?thesis by (simp add: enter_by_def)
qed

lemma enter_by_map:
  assumes "list_all (\<lambda>y. f y = g (h y)) (x # ys)"
  shows "map h (enter_by f x ys) = enter_by g (h x) (map h ys)"
  using assms by (induction ys) (auto simp: enter_by_def)

lemma mset_enter_by: "mset (enter_by f x xs) = mset (x # xs)"
proof -
  have "mset (takeWhile (\<lambda>y. f y \<le> f x) xs) + mset (dropWhile (\<lambda>y. f y \<le> f x) xs) = mset xs"
    by (simp only: mset_append [symmetric] takeWhile_dropWhile_id)
  then show ?thesis by (simp add: enter_by_def)
qed

lemma distinct_enter_by: "distinct (map g (enter_by f x xs)) \<longleftrightarrow> distinct (map g (x # xs))"
  by (intro mset_eq_imp_distinct_iff) (simp only: mset_map mset_enter_by)

locale priority_fifo =
  fixes prio :: "'a \<Rightarrow> 'p::linorder" and out :: "'a \<Rightarrow> 'b"
    and items :: "'q \<Rightarrow> 'a list" and accepts :: "'a \<Rightarrow> 'q \<Rightarrow> bool"
    and ins :: "'a \<Rightarrow> 'q \<Rightarrow> 'q" and pop :: "'q \<Rightarrow> ('b \<times> 'q) option" and inv :: "'q \<Rightarrow> bool"
  assumes ins_inv: "inv q \<Longrightarrow> inv (ins x q)"
    and pop_inv: "inv q \<Longrightarrow> pop q = Some (y, q') \<Longrightarrow> inv q'"
    and ins_items: "inv q \<Longrightarrow> accepts x q \<Longrightarrow> items (ins x q) = enter_by prio x (items q)"
    and ins_reject: "inv q \<Longrightarrow> \<not> accepts x q \<Longrightarrow> items (ins x q) = items q"
    and pop_None: "inv q \<Longrightarrow> pop q = None \<Longrightarrow> items q = []"
    and pop_Some: "inv q \<Longrightarrow> pop q = Some (y, q') \<Longrightarrow> \<exists>x. y = out x \<and> items q = x # items q'"
begin

lemma fold_ins:
  assumes "inv q" and "items q = sort_key prio ys"
  shows "inv (fold ins xs q) \<and> items (fold ins xs q) = sort_key prio (ys @ accepted accepts ins q xs)"
  using assms
proof (induction xs arbitrary: q ys)
  case (Cons x xs)
  show ?case
  proof (cases "accepts x q")
    case True
    have "items (ins x q) = sort_key prio (ys @ [x])"
      using Cons.prems True by (simp only: ins_items enter_by_sort)
    with Cons.IH [OF ins_inv [OF Cons.prems(1)] this] True show ?thesis by simp
  next
    case False
    then show ?thesis using Cons.IH [OF ins_inv [OF Cons.prems(1)], of x ys] Cons.prems ins_reject by simp
  qed
qed simp

lemma drain_items:
  assumes "inv q" and "length (items q) \<le> n"
  shows "drain pop n q = map out (items q)"
  using assms
proof (induction n arbitrary: q)
  case (Suc n)
  show ?case
  proof (cases "pop q")
    case None
    then show ?thesis using pop_None [OF Suc.prems(1)] by simp
  next
    case (Some r)
    obtain y q' where r: "pop q = Some (y, q')" using Some by (cases r) auto
    then obtain x where "y = out x" "items q = x # items q'" using pop_Some [OF Suc.prems(1)] by blast
    then show ?thesis using Suc r pop_inv [OF Suc.prems(1) r] by simp
  qed
qed simp

lemma length_accepted: "length (accepted accepts ins q xs) \<le> length xs"
  by (induction xs arbitrary: q) (auto intro: le_SucI)

lemma service_order:
  assumes "inv q" and "items q = []"
  shows "drain pop (length xs) (fold ins xs q) = map out (sort_key prio (accepted accepts ins q xs))"
proof -
  have "inv (fold ins xs q)" "items (fold ins xs q) = sort_key prio (accepted accepts ins q xs)"
    using fold_ins [OF assms(1), of "[]" xs] assms(2) by simp_all
  then show ?thesis using drain_items length_accepted by simp
qed

end

end
