(* ===== verification/Event_Queue.thy ===== *)
theory Event_Queue
  imports Priority_Service "HOL-Library.Product_Lexorder"
begin

text \<open>
  The priority queue of the event bus: \<^verbatim>\<open>src/src/core/event/core/PrioritizedEvent.h\<close> and
  \<^verbatim>\<open>PriorityQueue.{h,cpp}\<close>.

  The heap (\<^verbatim>\<open>std::priority_queue\<close>) is the list of its events in the order in which it gives
  them out. It orders events by priority, time stamp and sequence number; which of two events
  with equal keys comes first is left open by the library, and the list takes the older
  one. A payload is a value of type \<open>'p\<close>. The time to live of an event is compared with a clock
  that is read once for every event that is looked at: \<open>clock k\<close> is the reading for the \<open>k\<close>-th one.

  Only the insertion into the heap is under the mutex. The test for dropping, the insertion
  and the counting of a push are separate operations, so that a \<^verbatim>\<open>pop\<close> can come between them.

  The lemmas show the order of service (through \<open>priority_fifo\<close>), how many events of each priority the
  drop policy lets in, which events coalescing delivers, and where it fails.
\<close>

section \<open>Events\<close>

datatype EventPriority = CRITICAL | HIGH | NORMAL | LOW

text \<open>The underlying value of the enum, by which the code compares priorities.\<close>

fun event_prio_value :: "EventPriority \<Rightarrow> nat" where
  "event_prio_value CRITICAL = 0"
| "event_prio_value HIGH = 1"
| "event_prio_value NORMAL = 2"
| "event_prio_value LOW = 3"

instantiation EventPriority :: linorder
begin

definition less_eq_EventPriority :: "EventPriority \<Rightarrow> EventPriority \<Rightarrow> bool" where
  "p \<le> q \<longleftrightarrow> event_prio_value p \<le> event_prio_value q"

definition less_EventPriority :: "EventPriority \<Rightarrow> EventPriority \<Rightarrow> bool" where
  "p < q \<longleftrightarrow> event_prio_value p < event_prio_value q"

instance
proof
  fix p q r :: EventPriority
  show "p \<le> q \<Longrightarrow> q \<le> p \<Longrightarrow> p = q"
    by (cases p; cases q) (auto simp: less_eq_EventPriority_def)
qed (auto simp: less_eq_EventPriority_def less_EventPriority_def)

end

lemmas [enum_order] = less_eq_EventPriority_def less_EventPriority_def

fun priorityToString :: "EventPriority \<Rightarrow> string" where
  "priorityToString CRITICAL = ''CRITICAL''"
| "priorityToString HIGH = ''HIGH''"
| "priorityToString NORMAL = ''NORMAL''"
| "priorityToString LOW = ''LOW''"

record 'p prioritized_event =
  event_type :: string
  event_priority :: EventPriority
  payload :: 'p
  timestamp_ns :: u64
  sequence_num :: u64
  ttl :: "int option"
  coalescing_key :: "string option"

text \<open>The age is computed in unsigned arithmetic: an event from the future is very old.\<close>

definition isExpired :: "time \<Rightarrow> 'p prioritized_event \<Rightarrow> bool" where
  "isExpired now e =
    (case ttl e of
       None \<Rightarrow> False
     | Some d \<Rightarrow> (word_of_int d :: u64) < (word_of_int now - timestamp_ns e) div 1000000)"

text \<open>\<^verbatim>\<open>operator<\<close>, by which the heap gives out its largest element.\<close>

definition event_less :: "'p prioritized_event \<Rightarrow> 'p prioritized_event \<Rightarrow> bool" where
  "event_less a b =
    (if event_priority a \<noteq> event_priority b then event_priority a > event_priority b
     else if timestamp_ns a \<noteq> timestamp_ns b then timestamp_ns a > timestamp_ns b
     else sequence_num a > sequence_num b)"

definition event_key :: "'p prioritized_event \<Rightarrow> EventPriority \<times> u64 \<times> u64" where
  "event_key e = (event_priority e, timestamp_ns e, sequence_num e)"

definition makePrioritizedEvent :: "string \<Rightarrow> EventPriority \<Rightarrow> 'p \<Rightarrow> u64 \<Rightarrow> time \<Rightarrow> 'p prioritized_event" where
  "makePrioritizedEvent ty p x n now =
    \<lparr>event_type = ty, event_priority = p, payload = x, timestamp_ns = word_of_int now, sequence_num = n,
     ttl = None, coalescing_key = None\<rparr>"

section \<open>The queue\<close>

record queue_metrics =
  critical_events_pushed :: u64
  high_events_pushed :: u64
  normal_events_pushed :: u64
  low_events_pushed :: u64
  critical_events_dropped :: u64
  high_events_dropped :: u64
  normal_events_dropped :: u64
  low_events_dropped :: u64
  events_popped :: u64
  events_expired :: u64
  events_coalesced :: u64
  current_size :: u64
  peak_size :: u64

definition no_metrics :: queue_metrics where
  "no_metrics =
    \<lparr>critical_events_pushed = 0, high_events_pushed = 0, normal_events_pushed = 0, low_events_pushed = 0,
     critical_events_dropped = 0, high_events_dropped = 0, normal_events_dropped = 0, low_events_dropped = 0,
     events_popped = 0, events_expired = 0, events_coalesced = 0, current_size = 0, peak_size = 0\<rparr>"

record 'p event_queue =
  capacity :: u64
  drop_threshold_80 :: u64
  drop_threshold_90 :: u64
  heap :: "'p prioritized_event list"
  queue_size :: u64
  coalescing_latest_seq :: "string \<rightharpoonup> u64"
  metrics :: queue_metrics

text \<open>
  The thresholds are products of the capacity with 0.8 and 0.9 in double precision, cut to an integer.
  For every capacity below \<open>2\<^sup>5\<^sup>0\<close> they are the integer quotients.
\<close>

definition PriorityQueue :: "u64 \<Rightarrow> 'p event_queue" where
  "PriorityQueue cap =
    \<lparr>capacity = cap, drop_threshold_80 = of_nat (unat cap * 8 div 10), drop_threshold_90 = of_nat (unat cap * 9 div 10),
     heap = [], queue_size = 0, coalescing_latest_seq = Map.empty, metrics = no_metrics\<rparr>"

definition shouldDrop :: "EventPriority \<Rightarrow> 'p event_queue \<Rightarrow> bool" where
  "shouldDrop p q =
    (if p = CRITICAL then False
     else if queue_size q < drop_threshold_80 q then False
     else if queue_size q < drop_threshold_90 q then p = LOW
     else if queue_size q < capacity q then p = LOW \<or> p = NORMAL
     else p = LOW \<or> p = NORMAL \<or> p = HIGH)"

fun count_push :: "EventPriority \<Rightarrow> bool \<Rightarrow> queue_metrics \<Rightarrow> queue_metrics" where
  "count_push CRITICAL True m = m\<lparr>critical_events_dropped := critical_events_dropped m + 1\<rparr>"
| "count_push HIGH True m = m\<lparr>high_events_dropped := high_events_dropped m + 1\<rparr>"
| "count_push NORMAL True m = m\<lparr>normal_events_dropped := normal_events_dropped m + 1\<rparr>"
| "count_push LOW True m = m\<lparr>low_events_dropped := low_events_dropped m + 1\<rparr>"
| "count_push CRITICAL False m = m\<lparr>critical_events_pushed := critical_events_pushed m + 1\<rparr>"
| "count_push HIGH False m = m\<lparr>high_events_pushed := high_events_pushed m + 1\<rparr>"
| "count_push NORMAL False m = m\<lparr>normal_events_pushed := normal_events_pushed m + 1\<rparr>"
| "count_push LOW False m = m\<lparr>low_events_pushed := low_events_pushed m + 1\<rparr>"

definition updatePushMetrics :: "EventPriority \<Rightarrow> bool \<Rightarrow> 'p event_queue \<Rightarrow> 'p event_queue" where
  "updatePushMetrics p dropped q = q\<lparr>metrics := count_push p dropped (metrics q)\<rparr>"

text \<open>The part of \<^verbatim>\<open>push\<close> under the mutex.\<close>

definition push_locked :: "'p prioritized_event \<Rightarrow> 'p event_queue \<Rightarrow> 'p event_queue" where
  "push_locked e q =
    (let q = (case coalescing_key e of
                None \<Rightarrow> q
              | Some k \<Rightarrow>
                  (case coalescing_latest_seq q k of
                     None \<Rightarrow> q
                   | Some _ \<Rightarrow> q\<lparr>metrics := (metrics q)\<lparr>events_coalesced := events_coalesced (metrics q) + 1\<rparr>\<rparr>)
                  \<lparr>coalescing_latest_seq := (coalescing_latest_seq q)(k \<mapsto> sequence_num e)\<rparr>)
     in q\<lparr>heap := enter_by event_key e (heap q)\<rparr>)"

text \<open>The counting of \<^verbatim>\<open>push\<close>, after the mutex is released.\<close>

definition push_counted :: "EventPriority \<Rightarrow> 'p event_queue \<Rightarrow> 'p event_queue" where
  "push_counted p q =
    (let new_size = queue_size q + 1; m = metrics q in
     updatePushMetrics p False
       (q\<lparr>queue_size := new_size,
          metrics := m\<lparr>current_size := new_size,
                       peak_size := if new_size > peak_size m then new_size else peak_size m\<rparr>\<rparr>))"

definition push_eq :: "'p prioritized_event \<Rightarrow> 'p event_queue \<Rightarrow> bool \<times> 'p event_queue" where
  "push_eq e q =
    (if shouldDrop (event_priority e) q then (False, updatePushMetrics (event_priority e) True q)
     else (True, push_counted (event_priority e) (push_locked e q)))"

text \<open>One event is taken from the heap.\<close>

definition take_top :: "'p prioritized_event list \<Rightarrow> 'p event_queue \<Rightarrow> 'p event_queue" where
  "take_top es q =
    (let new_size = queue_size q - 1 in
     q\<lparr>heap := es, queue_size := new_size, metrics := (metrics q)\<lparr>current_size := new_size\<rparr>\<rparr>)"

definition count_expired :: "'p event_queue \<Rightarrow> 'p event_queue" where
  "count_expired q = q\<lparr>metrics := (metrics q)\<lparr>events_expired := events_expired (metrics q) + 1\<rparr>\<rparr>"

definition count_popped :: "'p event_queue \<Rightarrow> 'p event_queue" where
  "count_popped q = q\<lparr>metrics := (metrics q)\<lparr>events_popped := events_popped (metrics q) + 1\<rparr>\<rparr>"

definition superseded :: "'p prioritized_event \<Rightarrow> 'p event_queue \<Rightarrow> bool" where
  "superseded e q =
    (case coalescing_key e of
       None \<Rightarrow> False
     | Some k \<Rightarrow> (case coalescing_latest_seq q k of None \<Rightarrow> False | Some n \<Rightarrow> n \<noteq> sequence_num e))"

definition forget_key :: "'p prioritized_event \<Rightarrow> 'p event_queue \<Rightarrow> 'p event_queue" where
  "forget_key e q =
    (case coalescing_key e of
       None \<Rightarrow> q
     | Some k \<Rightarrow> q\<lparr>coalescing_latest_seq := (coalescing_latest_seq q)(k := None)\<rparr>)"

fun pop_loop ::
    "(nat \<Rightarrow> time) \<Rightarrow> 'p prioritized_event list \<Rightarrow> 'p event_queue \<Rightarrow> 'p prioritized_event option \<times> 'p event_queue" where
  "pop_loop clock [] q = (None, q)"
| "pop_loop clock (e # es) q =
    (let q = take_top es q in
     if isExpired (clock 0) e then pop_loop (\<lambda>k. clock (Suc k)) es (count_expired q)
     else if superseded e q then pop_loop (\<lambda>k. clock (Suc k)) es q
     else (Some e, count_popped (forget_key e q)))"

definition pop_eq :: "(nat \<Rightarrow> time) \<Rightarrow> 'p event_queue \<Rightarrow> 'p prioritized_event option \<times> 'p event_queue" where
  "pop_eq clock q = pop_loop clock (heap q) q"

definition size_eq :: "'p event_queue \<Rightarrow> u64" where
  "size_eq q = queue_size q"

definition empty_eq :: "'p event_queue \<Rightarrow> bool" where
  "empty_eq q = (size_eq q = 0)"

definition resetMetrics :: "'p event_queue \<Rightarrow> 'p event_queue" where
  "resetMetrics q = q\<lparr>metrics := no_metrics\<rparr>"

text \<open>The operations of one thread after the other.\<close>

datatype 'p queue_op = Push "'p prioritized_event" | Pop "nat \<Rightarrow> time"

fun queue_step :: "'p event_queue \<Rightarrow> 'p queue_op \<Rightarrow> 'p event_queue" where
  "queue_step q (Push e) = snd (push_eq e q)"
| "queue_step q (Pop clock) = snd (pop_eq clock q)"

section \<open>Lemmas\<close>

lemma event_less_key: "event_less a b \<longleftrightarrow> event_key b < event_key a"
  by (auto simp: event_less_def event_key_def less_prod_def)

subsection \<open>Frames\<close>

lemma heap_updatePushMetrics [simp]:
  "heap (updatePushMetrics p d q) = heap q" "queue_size (updatePushMetrics p d q) = queue_size q"
  "capacity (updatePushMetrics p d q) = capacity q" "drop_threshold_80 (updatePushMetrics p d q) = drop_threshold_80 q"
  "drop_threshold_90 (updatePushMetrics p d q) = drop_threshold_90 q"
  "coalescing_latest_seq (updatePushMetrics p d q) = coalescing_latest_seq q"
  by (simp_all add: updatePushMetrics_def)

lemma push_locked_simps [simp]:
  "heap (push_locked e q) = enter_by event_key e (heap q)" "queue_size (push_locked e q) = queue_size q"
  "capacity (push_locked e q) = capacity q" "drop_threshold_80 (push_locked e q) = drop_threshold_80 q"
  "drop_threshold_90 (push_locked e q) = drop_threshold_90 q"
  "coalescing_latest_seq (push_locked e q) =
     (case coalescing_key e of None \<Rightarrow> coalescing_latest_seq q
      | Some k \<Rightarrow> (coalescing_latest_seq q)(k \<mapsto> sequence_num e))"
  by (simp_all add: push_locked_def Let_def split: option.split)

lemma push_counted_simps [simp]:
  "heap (push_counted p q) = heap q" "queue_size (push_counted p q) = queue_size q + 1"
  "capacity (push_counted p q) = capacity q" "drop_threshold_80 (push_counted p q) = drop_threshold_80 q"
  "drop_threshold_90 (push_counted p q) = drop_threshold_90 q"
  "coalescing_latest_seq (push_counted p q) = coalescing_latest_seq q"
  by (simp_all add: push_counted_def Let_def)

lemma take_top_simps [simp]:
  "heap (take_top es q) = es" "queue_size (take_top es q) = queue_size q - 1"
  "capacity (take_top es q) = capacity q" "drop_threshold_80 (take_top es q) = drop_threshold_80 q"
  "drop_threshold_90 (take_top es q) = drop_threshold_90 q"
  "coalescing_latest_seq (take_top es q) = coalescing_latest_seq q"
  by (simp_all add: take_top_def Let_def)

lemma count_simps [simp]:
  "heap (count_expired q) = heap q" "queue_size (count_expired q) = queue_size q"
  "capacity (count_expired q) = capacity q" "drop_threshold_80 (count_expired q) = drop_threshold_80 q"
  "drop_threshold_90 (count_expired q) = drop_threshold_90 q"
  "heap (count_popped q) = heap q" "queue_size (count_popped q) = queue_size q"
  "capacity (count_popped q) = capacity q" "drop_threshold_80 (count_popped q) = drop_threshold_80 q"
  "drop_threshold_90 (count_popped q) = drop_threshold_90 q"
  "coalescing_latest_seq (count_popped q) = coalescing_latest_seq q"
  by (simp_all add: count_expired_def count_popped_def)

lemma forget_key_simps [simp]:
  "heap (forget_key e q) = heap q" "queue_size (forget_key e q) = queue_size q"
  "capacity (forget_key e q) = capacity q" "drop_threshold_80 (forget_key e q) = drop_threshold_80 q"
  "drop_threshold_90 (forget_key e q) = drop_threshold_90 q"
  "coalescing_latest_seq (forget_key e q) k =
     (if coalescing_key e = Some k then None else coalescing_latest_seq q k)"
  by (simp_all add: forget_key_def split: option.split)

subsection \<open>Order of service\<close>

text \<open>An event without time to live and coalescing key.\<close>

definition plain :: "'p prioritized_event \<Rightarrow> bool" where
  "plain e \<longleftrightarrow> ttl e = None \<and> coalescing_key e = None"

definition pop_opt :: "(nat \<Rightarrow> time) \<Rightarrow> 'p event_queue \<Rightarrow> ('p prioritized_event \<times> 'p event_queue) option" where
  "pop_opt clock q = (case pop_eq clock q of (None, _) \<Rightarrow> None | (Some e, q') \<Rightarrow> Some (e, q'))"

lemma pop_plain:
  "plain e \<Longrightarrow> heap q = e # es \<Longrightarrow> pop_eq clock q = (Some e, count_popped (forget_key e (take_top es q)))"
  by (simp add: pop_eq_def plain_def isExpired_def superseded_def Let_def)

interpretation eq: priority_fifo event_key id heap "\<lambda>e q. plain e \<and> \<not> shouldDrop (event_priority e) q"
  "\<lambda>e q. if plain e then snd (push_eq e q) else q" "pop_opt clock" "\<lambda>q. list_all plain (heap q)" for clock
proof unfold_locales
  fix q q' :: "'p event_queue" and e y
  assume ok: "list_all plain (heap q)"
  show "list_all plain (heap (if plain e then snd (push_eq e q) else q))"
    using ok by (auto simp: push_eq_def list_all_iff set_enter_by)
  show "heap q = []" if "pop_opt clock q = None"
  proof (cases "heap q")
    case (Cons e es)
    then show ?thesis using that ok pop_plain [OF _ Cons, of clock] by (simp add: pop_opt_def)
  qed
  show "list_all plain (heap q')" "\<exists>x. y = id x \<and> heap q = x # heap q'" if pop: "pop_opt clock q = Some (y, q')"
  proof -
    obtain e es where es: "heap q = e # es"
      using pop by (cases "heap q") (auto simp: pop_opt_def pop_eq_def)
    then show "list_all plain (heap q')" "\<exists>x. y = id x \<and> heap q = x # heap q'"
      using pop ok pop_plain [OF _ es, of clock] by (auto simp: pop_opt_def)
  qed
qed (auto simp: push_eq_def)

lemma fold_plain:
  "list_all plain es \<Longrightarrow>
   fold (\<lambda>e q. if plain e then snd (push_eq e q) else q) es q = fold (\<lambda>e q. snd (push_eq e q)) es q"
  by (induction es arbitrary: q) auto

lemma accepted_plain:
  "list_all plain es \<Longrightarrow>
   accepted (\<lambda>e q. plain e \<and> \<not> shouldDrop (event_priority e) q) (\<lambda>e q. if plain e then snd (push_eq e q) else q) q es =
   accepted (\<lambda>e q. \<not> shouldDrop (event_priority e) q) (\<lambda>e q. snd (push_eq e q)) q es"
  by (induction es arbitrary: q) auto

subsection \<open>Occupancy\<close>

abbreviation waiting :: "(EventPriority \<Rightarrow> bool) \<Rightarrow> 'p event_queue \<Rightarrow> nat" where
  "waiting P q \<equiv> length (filter (\<lambda>e. P (event_priority e)) (heap q))"

definition occupancy_ok :: "'p event_queue \<Rightarrow> bool" where
  "occupancy_ok q \<longleftrightarrow> unat (queue_size q) = length (heap q) \<and>
     drop_threshold_80 q \<le> drop_threshold_90 q \<and> drop_threshold_90 q \<le> capacity q \<and>
     waiting (\<lambda>p. p \<noteq> CRITICAL) q \<le> unat (capacity q) \<and>
     waiting (\<lambda>p. p = NORMAL \<or> p = LOW) q \<le> unat (drop_threshold_90 q) \<and>
     waiting (\<lambda>p. p = LOW) q \<le> unat (drop_threshold_80 q)"

lemma waiting_enter: "length (filter P (enter_by f e xs)) = (if P e then 1 else 0) + length (filter P xs)"
proof -
  have "size (filter_mset P (mset (enter_by f e xs))) = (if P e then 1 else 0) + size (filter_mset P (mset xs))"
    by (simp add: mset_enter_by)
  then show ?thesis by (metis mset_filter size_mset)
qed

lemma unat_thresholds:
  "unat (drop_threshold_80 (PriorityQueue cap)) = unat cap * 8 div 10"
  "unat (drop_threshold_90 (PriorityQueue cap)) = unat cap * 9 div 10"
proof -
  have "unat cap < 2 ^ LENGTH(64)" by (rule unsigned_less)
  then have "unat cap * 8 div 10 < 2 ^ LENGTH(64)" "unat cap * 9 div 10 < 2 ^ LENGTH(64)" by linarith+
  then show "unat (drop_threshold_80 (PriorityQueue cap)) = unat cap * 8 div 10"
    "unat (drop_threshold_90 (PriorityQueue cap)) = unat cap * 9 div 10"
    unfolding PriorityQueue_def by (simp_all add: unat_of_nat_less)
qed

lemma occupancy_new: "occupancy_ok (PriorityQueue cap)"
proof -
  have "unat cap * 8 div 10 \<le> unat cap * 9 div 10" "unat cap * 9 div 10 \<le> unat cap" by linarith+
  then show ?thesis
    unfolding occupancy_ok_def word_le_nat_alt unat_thresholds by (simp add: PriorityQueue_def)
qed

lemma length_enter_by [simp]: "length (enter_by f e xs) = Suc (length xs)"
  using waiting_enter [of "\<lambda>_. True" f e xs] by simp

lemma occupancy_push:
  assumes "occupancy_ok q" and "Suc (length (heap q)) < 2 ^ 64"
  shows "occupancy_ok (snd (push_eq e q))"
proof (cases "shouldDrop (event_priority e) q")
  case False
  let ?q = "push_counted (event_priority e) (push_locked e q)"
  have "unat (queue_size ?q) = length (heap ?q)"
    using assms by (simp add: occupancy_ok_def unat_inc)
  moreover have "event_priority e \<noteq> CRITICAL \<Longrightarrow> queue_size q < capacity q"
    "event_priority e = NORMAL \<or> event_priority e = LOW \<Longrightarrow> queue_size q < drop_threshold_90 q"
    "event_priority e = LOW \<Longrightarrow> queue_size q < drop_threshold_80 q"
    using False assms(1) by (cases "event_priority e"; auto simp: shouldDrop_def occupancy_ok_def split: if_splits)+
  ultimately show ?thesis
    using False assms(1)
    by (auto simp: push_eq_def occupancy_ok_def waiting_enter word_less_nat_alt Suc_le_eq
        intro: le_less_trans [OF length_filter_le])
qed (use assms in \<open>simp add: push_eq_def occupancy_ok_def\<close>)

lemma unat_dec: "(w :: u64) \<noteq> 0 \<Longrightarrow> unat (w - 1) = unat w - 1"
  by (rule unat_minus_one)

lemma occupancy_pop_loop:
  assumes "occupancy_ok q" and "heap q = es"
  shows "occupancy_ok (snd (pop_loop clock es q)) \<and> length (heap (snd (pop_loop clock es q))) \<le> length es"
  using assms
proof (induction clock es q rule: pop_loop.induct)
  case (2 clock e es q)
  let ?q = "take_top es q"
  have "queue_size q \<noteq> 0" using 2(3,4) by (auto simp: occupancy_ok_def)
  then have ok: "occupancy_ok ?q" using 2(3,4) by (auto simp: occupancy_ok_def unat_dec split: if_splits)
  show ?case
  proof (cases "isExpired (clock 0) e \<or> superseded e ?q")
    case True
    have "occupancy_ok (count_expired ?q)" using ok by (simp add: occupancy_ok_def)
    with True ok 2(1) [of ?q] 2(2) [of ?q] show ?thesis
      by (cases "isExpired (clock 0) e") (auto simp: Let_def)
  next
    case False
    have "occupancy_ok (count_popped (forget_key e ?q))" using ok by (simp add: occupancy_ok_def)
    with False show ?thesis by (simp add: Let_def)
  qed
qed simp

lemma occupancy_run:
  assumes "occupancy_ok q" and "length (heap q) + length ops < 2 ^ 64"
  shows "occupancy_ok (run_steps queue_step q ops)"
  using assms
proof (induction ops arbitrary: q)
  case (Cons e es)
  have "occupancy_ok (queue_step q e) \<and> length (heap (queue_step q e)) \<le> Suc (length (heap q))"
  proof (cases e)
    case (Push x)
    have "occupancy_ok (snd (push_eq x q))" using Cons.prems by (intro occupancy_push) auto
    then show ?thesis by (simp add: Push push_eq_def)
  next
    case (Pop clock)
    then show ?thesis using occupancy_pop_loop [OF Cons.prems(1) refl, of clock] by (simp add: pop_eq_def)
  qed
  then show ?case using Cons.IH [of "queue_step q e"] Cons.prems(2) by simp
qed simp

lemma run_thresholds [simp]:
  "capacity (run_steps queue_step q ops) = capacity q"
  "drop_threshold_80 (run_steps queue_step q ops) = drop_threshold_80 q"
  "drop_threshold_90 (run_steps queue_step q ops) = drop_threshold_90 q"
proof -
  have pop: "capacity (snd (pop_loop clock es q)) = capacity q \<and>
      drop_threshold_80 (snd (pop_loop clock es q)) = drop_threshold_80 q \<and>
      drop_threshold_90 (snd (pop_loop clock es q)) = drop_threshold_90 q" for clock es and q :: "'p event_queue"
    by (induction clock es q rule: pop_loop.induct) (simp_all add: Let_def)
  have step: "capacity (queue_step q e) = capacity q \<and> drop_threshold_80 (queue_step q e) = drop_threshold_80 q \<and>
      drop_threshold_90 (queue_step q e) = drop_threshold_90 q" for e and q :: "'p event_queue"
    by (cases e) (simp_all add: push_eq_def pop_eq_def pop)
  show "capacity (run_steps queue_step q ops) = capacity q"
    "drop_threshold_80 (run_steps queue_step q ops) = drop_threshold_80 q"
    "drop_threshold_90 (run_steps queue_step q ops) = drop_threshold_90 q"
    by (induction ops arbitrary: q) (simp_all add: step)
qed

subsection \<open>Coalescing\<close>

text \<open>The events that no later event of a list supersedes.\<close>

fun latest_only :: "'p prioritized_event list \<Rightarrow> 'p prioritized_event list" where
  "latest_only [] = []"
| "latest_only (e # es) =
    (if coalescing_key e \<noteq> None \<and> coalescing_key e \<in> coalescing_key ` set es then latest_only es
     else e # latest_only es)"

text \<open>The sequence number of the last event with a key.\<close>

fun latest_seq :: "'p prioritized_event list \<Rightarrow> string \<rightharpoonup> u64" where
  "latest_seq [] k = None"
| "latest_seq (e # es) k =
    (case latest_seq es k of Some n \<Rightarrow> Some n
     | None \<Rightarrow> if coalescing_key e = Some k then Some (sequence_num e) else None)"

lemma latest_seq_None: "latest_seq es k = None \<longleftrightarrow> Some k \<notin> coalescing_key ` set es"
  by (induction es) (auto split: option.splits)

lemma latest_seq_member: "latest_seq es k = Some n \<Longrightarrow> n \<in> sequence_num ` set es"
  by (induction es) (auto split: option.splits if_splits)

lemma latest_seq_snoc:
  "latest_seq (es @ [e]) k = (if coalescing_key e = Some k then Some (sequence_num e) else latest_seq es k)"
  by (induction es) (auto split: option.splits)

definition latest_ok :: "'p event_queue \<Rightarrow> bool" where
  "latest_ok q \<longleftrightarrow> distinct (map sequence_num (heap q)) \<and> list_all (\<lambda>e. ttl e = None) (heap q) \<and>
     (\<forall>k. Some k \<in> coalescing_key ` set (heap q) \<longrightarrow> coalescing_latest_seq q k = latest_seq (heap q) k)"

lemma pop_loop_clock:
  assumes "list_all (\<lambda>e. ttl e = None) es"
  shows "pop_loop clock es q = pop_loop clock' es q"
  using assms
proof (induction es arbitrary: q clock clock')
  case (Cons e es)
  then have "isExpired t e = False" for t by (simp add: isExpired_def)
  moreover have "pop_loop (\<lambda>k. clock (Suc k)) es (take_top es q) = pop_loop (\<lambda>k. clock' (Suc k)) es (take_top es q)"
    using Cons by simp
  ultimately show ?case by (simp add: Let_def)
qed simp

text \<open>The first event of the heap is skipped if a later one has its key, and is given out otherwise.\<close>

lemma pop_latest:
  assumes ok: "latest_ok q" and hp: "heap q = e # es"
  shows "pop_opt clock q =
    (if coalescing_key e \<noteq> None \<and> coalescing_key e \<in> coalescing_key ` set es then pop_opt clock (take_top es q)
     else Some (e, count_popped (forget_key e (take_top es q))))"
proof -
  let ?q = "take_top es q" and ?again = "coalescing_key e \<noteq> None \<and> coalescing_key e \<in> coalescing_key ` set es"
  have live: "\<not> isExpired t e" for t using ok by (simp add: hp latest_ok_def isExpired_def)
  have "superseded e ?q = ?again"
  proof (cases "coalescing_key e")
    case (Some k)
    have l: "coalescing_latest_seq q k = latest_seq (e # es) k" using ok Some by (simp add: latest_ok_def hp)
    have "sequence_num e \<notin> sequence_num ` set es" using ok by (simp add: latest_ok_def hp)
    then have "latest_seq es k = Some n \<Longrightarrow> n \<noteq> sequence_num e" for n
      using latest_seq_member [of es k n] by metis
    then show ?thesis
      using latest_seq_None [of es k] Some l by (auto simp: superseded_def split: option.splits)
  qed (simp add: superseded_def)
  moreover have "pop_loop (\<lambda>k. clock (Suc k)) es ?q = pop_loop clock es ?q"
    using ok by (intro pop_loop_clock) (simp add: hp latest_ok_def)
  ultimately have "pop_eq clock q =
      (if ?again then pop_eq clock ?q else (Some e, count_popped (forget_key e ?q)))"
    using live by (simp add: pop_eq_def hp Let_def)
  then show ?thesis by (simp add: pop_opt_def)
qed

lemma drain_latest:
  assumes "latest_ok q" and "length (heap q) \<le> n"
  shows "drain (pop_opt clock) n q = latest_only (heap q)"
  using assms
proof (induction "heap q" arbitrary: q n)
  case Nil
  then show ?case by (cases n) (simp_all add: pop_opt_def pop_eq_def)
next
  case (Cons e es)
  note hp = Cons.hyps(2) [symmetric] and ok = Cons.prems(1)
  obtain n' where n: "n = Suc n'" "length es \<le> n'" using Cons.prems(2) hp by (cases n) auto
  let ?q = "take_top es q"
  have seq: "coalescing_latest_seq q k = latest_seq es k" if "Some k \<in> coalescing_key ` set es" for k
    using ok that latest_seq_None [of es k] by (auto simp: latest_ok_def hp split: option.splits)
  then have ok1: "latest_ok ?q" using ok by (simp add: latest_ok_def hp)
  show ?case
  proof (cases "coalescing_key e \<noteq> None \<and> coalescing_key e \<in> coalescing_key ` set es")
    case True
    then have "drain (pop_opt clock) n q = drain (pop_opt clock) n ?q"
      using pop_latest [OF ok hp, of clock] by (simp add: n)
    also have "\<dots> = latest_only es" using Cons.hyps(1) [of ?q n] ok1 n by simp
    finally show ?thesis using True by (simp add: hp)
  next
    case False
    have "latest_ok (count_popped (forget_key e ?q))"
      using ok1 seq False by (auto simp: latest_ok_def)
    then have "drain (pop_opt clock) n' (count_popped (forget_key e ?q)) = latest_only es"
      using Cons.hyps(1) [of "count_popped (forget_key e ?q)" n'] n by simp
    then show ?thesis using pop_latest [OF ok hp, of clock] False by (auto simp: n hp)
  qed
qed

lemma enter_last: "list_all (\<lambda>x. f x \<le> f e) xs \<Longrightarrow> enter_by f e xs = xs @ [e]"
proof -
  assume "list_all (\<lambda>x. f x \<le> f e) xs"
  then have "takeWhile (\<lambda>x. f x \<le> f e) xs = xs" "dropWhile (\<lambda>x. f x \<le> f e) xs = []"
    by (auto simp: list_all_iff)
  then show ?thesis by (simp add: enter_by_def)
qed

text \<open>Pushing events in the order of their keys, within the limits of their priorities.\<close>

fun drop_limit :: "EventPriority \<Rightarrow> 'p event_queue \<Rightarrow> nat" where
  "drop_limit CRITICAL q = 2 ^ 64 - 1"
| "drop_limit HIGH q = unat (capacity q)"
| "drop_limit NORMAL q = unat (drop_threshold_90 q)"
| "drop_limit LOW q = unat (drop_threshold_80 q)"

lemma drop_limit_less: "drop_limit p q < 2 ^ 64"
proof -
  have "unat (w :: u64) < 2 ^ 64" for w using unsigned_less [of w] by simp
  then show ?thesis by (cases p) simp_all
qed

lemma below_drop_limit:
  assumes "occupancy_ok q" and "length (heap q) < drop_limit p q"
  shows "\<not> shouldDrop p q"
  using assms by (cases p) (auto simp: shouldDrop_def occupancy_ok_def word_less_nat_alt word_le_nat_alt)

lemma dropped_at_limit:
  assumes "occupancy_ok q" and "drop_limit p q \<le> length (heap q)" and "p \<noteq> CRITICAL"
  shows "shouldDrop p q"
  using assms by (cases p) (auto simp: shouldDrop_def occupancy_ok_def word_less_nat_alt word_le_nat_alt)

lemma push_in_order:
  assumes "sorted_wrt (\<lambda>a b. event_key a < event_key b) (heap q @ es)" and "occupancy_ok q"
    and "list_all (\<lambda>e. length (heap q) + length es \<le> drop_limit (event_priority e) q) es"
    and "coalescing_latest_seq q = latest_seq (heap q)"
  shows "let q' = fold (\<lambda>e q. snd (push_eq e q)) es q in
    heap q' = heap q @ es \<and> coalescing_latest_seq q' = latest_seq (heap q @ es) \<and> occupancy_ok q' \<and>
    capacity q' = capacity q \<and> drop_threshold_80 q' = drop_threshold_80 q \<and> drop_threshold_90 q' = drop_threshold_90 q"
  using assms
proof (induction es arbitrary: q)
  case (Cons e es)
  let ?q = "push_counted (event_priority e) (push_locked e q)"
  have "\<not> shouldDrop (event_priority e) q"
    using Cons.prems(2,3) by (intro below_drop_limit) auto
  then have push: "push_eq e q = (True, ?q)" by (simp add: push_eq_def)
  have "list_all (\<lambda>x. event_key x \<le> event_key e) (heap q)"
    using Cons.prems(1) by (auto simp: sorted_wrt_append list_all_iff)
  then have hp: "heap ?q = heap q @ [e]" by (simp add: enter_last)
  have "Suc (length (heap q)) < 2 ^ 64"
    using Cons.prems(3) drop_limit_less [of "event_priority e" q] by simp
  then have "occupancy_ok ?q" using occupancy_push [OF Cons.prems(2), of e] by (simp add: push)
  moreover have "coalescing_latest_seq ?q = latest_seq (heap q @ [e])"
    using Cons.prems(4) by (auto simp: latest_seq_snoc split: option.split)
  moreover have "drop_limit p ?q = drop_limit p q" for p by (cases p) simp_all
  ultimately show ?case
    using Cons.IH [of ?q] Cons.prems(1,3) hp by (simp add: push Let_def)
qed simp

section \<open>Properties\<close>


definition sample_event :: "EventPriority \<Rightarrow> u64 \<Rightarrow> string option \<Rightarrow> unit prioritized_event" where
  "sample_event p n k = (makePrioritizedEvent ''state'' p () n 0)\<lparr>coalescing_key := k\<rparr>"

lemma sample_event_simps [simp]:
  "event_priority (sample_event p n k) = p" "sequence_num (sample_event p n k) = n"
  "coalescing_key (sample_event p n k) = k" "ttl (sample_event p n k) = None"
  "event_key (sample_event p n k) = (p, 0, n)"
  by (simp_all add: sample_event_def makePrioritizedEvent_def event_key_def)


text \<open>C26. The drop policy bounds the queue. After any pushes and pops (of threads that follow each other) the
  size counter is exact, at most 80\% of the capacity are \<^verbatim>\<open>LOW\<close> events, at most 90\% are \<^verbatim>\<open>LOW\<close> or
  \<^verbatim>\<open>NORMAL\<close>, all events but the \<^verbatim>\<open>CRITICAL\<close> ones fit in the capacity, and a \<^verbatim>\<open>CRITICAL\<close> event is always
  accepted.\<close>

theorem queue_occupancy:
  assumes "length ops < 2 ^ 64"
  shows "let q = run_steps queue_step (PriorityQueue cap) ops in
    unat (size_eq q) = length (heap q) \<and>
    waiting (\<lambda>p. p = LOW) q \<le> unat cap * 8 div 10 \<and>
    waiting (\<lambda>p. p = NORMAL \<or> p = LOW) q \<le> unat cap * 9 div 10 \<and>
    waiting (\<lambda>p. p \<noteq> CRITICAL) q \<le> unat cap \<and>
    (event_priority e = CRITICAL \<longrightarrow> fst (push_eq e q))"
proof -
  let ?q = "run_steps queue_step (PriorityQueue cap) ops"
  have "occupancy_ok ?q" using assms by (intro occupancy_run occupancy_new) (simp add: PriorityQueue_def)
  moreover have "unat (drop_threshold_80 ?q) = unat cap * 8 div 10" "unat (drop_threshold_90 ?q) = unat cap * 9 div 10"
    "capacity ?q = cap"
    by (simp_all only: run_thresholds unat_thresholds) (simp add: PriorityQueue_def)
  ultimately show ?thesis
    by (simp add: occupancy_ok_def size_eq_def push_eq_def shouldDrop_def Let_def)
qed

theorem queue_occupancy_witness:
  "let q = run_steps queue_step (PriorityQueue 1) [Push (sample_event HIGH 0 None), Push (sample_event HIGH 1 None)] in
    unat (size_eq q) = length (heap q) \<and> waiting (\<lambda>p. p \<noteq> CRITICAL) q \<le> 1 \<and> fst (push_eq (sample_event CRITICAL 2 None) q)"
  using queue_occupancy [of "[Push (sample_event HIGH 0 None), Push (sample_event HIGH 1 None)]" 1 "sample_event CRITICAL 2 None"]
  by (simp add: Let_def)

text \<open>C25. Coalescing keeps the latest: if events without time to live arrive in the order of their keys, with
  different sequence numbers and within the limits of their priorities, then the queue gives out
  exactly those that no later event with the same coalescing key supersedes, in their order.\<close>

theorem coalescing_keeps_latest:
  fixes es :: "'p prioritized_event list"
  assumes "sorted_wrt (\<lambda>a b. event_key a < event_key b) es" and "distinct (map sequence_num es)"
    and "list_all (\<lambda>e. ttl e = None) es"
    and "list_all (\<lambda>e. length es \<le> drop_limit (event_priority e) (PriorityQueue cap :: 'p event_queue)) es"
  shows "drain (pop_opt clock) (length es) (fold (\<lambda>e q. snd (push_eq e q)) es (PriorityQueue cap)) = latest_only es"
proof -
  let ?q = "fold (\<lambda>e q. snd (push_eq e q)) es (PriorityQueue cap)"
  have new: "heap (PriorityQueue cap :: 'p event_queue) = []"
    "coalescing_latest_seq (PriorityQueue cap :: 'p event_queue) = latest_seq ([] :: 'p prioritized_event list)"
    by (auto simp: PriorityQueue_def)
  have "heap ?q = es" "coalescing_latest_seq ?q = latest_seq es"
    using push_in_order [of "PriorityQueue cap" es] assms(1,4)
    unfolding new by (simp_all add: Let_def occupancy_new)
  then have "latest_ok ?q" using assms(2,3) by (simp add: latest_ok_def)
  then show ?thesis using drain_latest [of ?q "length es" clock] \<open>heap ?q = es\<close> by simp
qed

theorem coalescing_keeps_latest_witness:
  "drain (pop_opt (\<lambda>_. 0)) (length [sample_event NORMAL 0 (Some ''k''), sample_event NORMAL 1 (Some ''k'')])
     (fold (\<lambda>e q. snd (push_eq e q)) [sample_event NORMAL 0 (Some ''k''), sample_event NORMAL 1 (Some ''k'')] (PriorityQueue 10)) =
   [sample_event NORMAL 1 (Some ''k'')]"
  using coalescing_keeps_latest [of "[sample_event NORMAL 0 (Some ''k''), sample_event NORMAL 1 (Some ''k'')]" 10 "\<lambda>_. 0"]
  by (simp add: unat_thresholds)

text \<open>Coalescing fails across priorities. When the newer event of a key has the higher priority, it is given
  out first and its key is forgotten, so that the superseded older event is given out after it.\<close>

theorem coalescing_delivers_stale:
  assumes "coalescing_key old = Some k" and "coalescing_key new = Some k" and "sequence_num old \<noteq> sequence_num new"
    and "ttl old = None" and "ttl new = None" and "event_priority new < event_priority old" and "2 < unat cap"
  shows "drain (pop_opt clock) 2 (fold (\<lambda>e q. snd (push_eq e q)) [old, new] (PriorityQueue cap)) = [new, old]"
proof -
  have "1 < unat (drop_threshold_80 (PriorityQueue cap))" using assms(7) by (simp add: unat_thresholds)
  then have thr: "(1 :: u64) < drop_threshold_80 (PriorityQueue cap)" by (simp add: word_less_nat_alt)
  moreover have "(0 :: u64) < drop_threshold_80 (PriorityQueue cap)" by (rule less_trans [OF _ thr]) simp
  moreover have "event_key new < event_key old" using assms(6) by (simp add: event_key_def less_prod_def)
  ultimately show ?thesis
    using assms
    by (simp add: numeral_2_eq_2 push_eq_def shouldDrop_def PriorityQueue_def enter_by_def pop_opt_def pop_eq_def
        isExpired_def superseded_def Let_def not_le)
qed

theorem coalescing_delivers_stale_witness:
  "drain (pop_opt (\<lambda>_. 0)) 2
     (fold (\<lambda>e q. snd (push_eq e q)) [sample_event LOW 0 (Some ''k''), sample_event HIGH 1 (Some ''k'')] (PriorityQueue 10)) =
   [sample_event HIGH 1 (Some ''k''), sample_event LOW 0 (Some ''k'')]"
  by (rule coalescing_delivers_stale [of _ "''k''"]) (simp_all add: enum_order)

text \<open>A push that is interrupted between the insertion and the counting can make another producer lose an
  event: if the consumer takes the event in between, the size counter wraps to its largest value,
  and a \<^verbatim>\<open>HIGH\<close> event is dropped although the queue is empty.\<close>

theorem uncounted_pop_drops_high:
  assumes "heap q = []" and "queue_size q = 0" and "plain e" and "event_priority e' = HIGH"
  shows "let (r, q') = pop_eq clock (push_locked e q) in
    r = Some e \<and> heap q' = [] \<and> size_eq q' = - 1 \<and> \<not> fst (push_eq e' q')"
proof -
  have max: "\<not> (- 1 :: u64) < w" for w by (simp add: word_less_nat_alt not_less word_le_nat_alt [symmetric])
  have "pop_eq clock (push_locked e q) = (Some e, count_popped (forget_key e (take_top [] (push_locked e q))))"
    using assms(1,3) by (intro pop_plain) (simp_all add: enter_by_def)
  then show ?thesis using assms max by (simp add: size_eq_def push_eq_def shouldDrop_def)
qed

theorem uncounted_pop_drops_high_witness:
  "let (r, q') = pop_eq (\<lambda>_. 0) (push_locked (sample_event NORMAL 0 None) (PriorityQueue 10)) in
    r = Some (sample_event NORMAL 0 None) \<and> heap q' = [] \<and> size_eq q' = - 1 \<and> \<not> fst (push_eq (sample_event HIGH 1 None) q')"
  by (rule uncounted_pop_drops_high) (simp_all add: PriorityQueue_def plain_def word_le_nat_alt)

end
