(* ===== verification/Event_Bus.thy ===== *)
theory Event_Bus
  imports Event_Queue "HOL-Library.AList"
begin

text \<open>
  The event bus and its policies, under \<^verbatim>\<open>src/src/core/event\<close>: \<^verbatim>\<open>dto/EventType.h\<close>, \<^verbatim>\<open>dto/EventBase.h\<close>,
  \<^verbatim>\<open>util/EventFilter.h\<close>, \<^verbatim>\<open>util/EventStats.h\<close>, \<^verbatim>\<open>core/SubscriptionManager.h\<close>, \<^verbatim>\<open>core/EventBus.{h,cpp}\<close>,
  \<^verbatim>\<open>adapters/ThrottlingPolicy.{h,cpp}\<close> and \<^verbatim>\<open>adapters/CoalescingPolicy.{h,cpp}\<close>.

  A filter gives \<open>None\<close> and a callback \<open>False\<close> when it throws. The calls of subscribers and observers are
  appended to a log. The subscriptions are a list in the order in which the hash map is traversed.
  The dispatch thread is one operation for each event it takes; \<^verbatim>\<open>stop\<close> ends with the loop that
  empties the queue.

  The lemmas show what reaches which subscriber in which order, that subscription ids are unique,
  and what the two policies send and keep.
\<close>

section \<open>Events\<close>

datatype EventType =
    ACTION_STARTED | ACTION_COMPLETED | ACTION_FAILED | ACTION_CANCELLED | ACTION_TIMEOUT
  | SEQUENCE_STARTED | SEQUENCE_STEP_STARTED | SEQUENCE_STEP_COMPLETED | SEQUENCE_COMPLETED | SEQUENCE_FAILED
  | SEQUENCE_CANCELLED | SEQUENCE_PAUSED | SEQUENCE_RESUMED | SEQUENCE_PROGRESS_UPDATED
  | TASK_STARTED | TASK_COMPLETED | TASK_FAILED | TASK_CANCELLED | TASK_SCHEDULED | TASK_PROGRESS_UPDATED
  | DATASTORE_VALUE_CHANGED | DATASTORE_VALUE_REMOVED
  | RT_STATE_CHANGED | RT_SAFE_MODE_ENTERED | RT_SAFE_MODE_EXITED
  | ALARM_RAISED | ALARM_CLEARED | ALARM_ESCALATED | ALARM_ACKNOWLEDGED
  | UNKNOWN

fun eventTypeToString :: "EventType \<Rightarrow> string" where
  "eventTypeToString ACTION_STARTED = ''ACTION_STARTED''"
| "eventTypeToString ACTION_COMPLETED = ''ACTION_COMPLETED''"
| "eventTypeToString ACTION_FAILED = ''ACTION_FAILED''"
| "eventTypeToString ACTION_CANCELLED = ''ACTION_CANCELLED''"
| "eventTypeToString ACTION_TIMEOUT = ''ACTION_TIMEOUT''"
| "eventTypeToString SEQUENCE_STARTED = ''SEQUENCE_STARTED''"
| "eventTypeToString SEQUENCE_STEP_STARTED = ''SEQUENCE_STEP_STARTED''"
| "eventTypeToString SEQUENCE_STEP_COMPLETED = ''SEQUENCE_STEP_COMPLETED''"
| "eventTypeToString SEQUENCE_COMPLETED = ''SEQUENCE_COMPLETED''"
| "eventTypeToString SEQUENCE_FAILED = ''SEQUENCE_FAILED''"
| "eventTypeToString SEQUENCE_CANCELLED = ''SEQUENCE_CANCELLED''"
| "eventTypeToString SEQUENCE_PAUSED = ''SEQUENCE_PAUSED''"
| "eventTypeToString SEQUENCE_RESUMED = ''SEQUENCE_RESUMED''"
| "eventTypeToString SEQUENCE_PROGRESS_UPDATED = ''SEQUENCE_PROGRESS_UPDATED''"
| "eventTypeToString TASK_STARTED = ''TASK_STARTED''"
| "eventTypeToString TASK_COMPLETED = ''TASK_COMPLETED''"
| "eventTypeToString TASK_FAILED = ''TASK_FAILED''"
| "eventTypeToString TASK_CANCELLED = ''TASK_CANCELLED''"
| "eventTypeToString TASK_SCHEDULED = ''TASK_SCHEDULED''"
| "eventTypeToString TASK_PROGRESS_UPDATED = ''TASK_PROGRESS_UPDATED''"
| "eventTypeToString DATASTORE_VALUE_CHANGED = ''DATASTORE_VALUE_CHANGED''"
| "eventTypeToString DATASTORE_VALUE_REMOVED = ''DATASTORE_VALUE_REMOVED''"
| "eventTypeToString RT_STATE_CHANGED = ''RT_STATE_CHANGED''"
| "eventTypeToString RT_SAFE_MODE_ENTERED = ''RT_SAFE_MODE_ENTERED''"
| "eventTypeToString RT_SAFE_MODE_EXITED = ''RT_SAFE_MODE_EXITED''"
| "eventTypeToString ALARM_RAISED = ''ALARM_RAISED''"
| "eventTypeToString ALARM_CLEARED = ''ALARM_CLEARED''"
| "eventTypeToString ALARM_ESCALATED = ''ALARM_ESCALATED''"
| "eventTypeToString ALARM_ACKNOWLEDGED = ''ALARM_ACKNOWLEDGED''"
| "eventTypeToString UNKNOWN = ''UNKNOWN''"

record ievent =
  eventId :: string
  getType :: EventType
  getTimestamp :: time
  getTargetId :: string

definition hex_digit :: "nat \<Rightarrow> char" where
  "hex_digit d = ''0123456789abcdef'' ! d"

text \<open>\<open>draws\<close> are the eight results of \<^verbatim>\<open>dis(gen)\<close>, each at most 15.\<close>

definition generateEventId :: "time \<Rightarrow> nat list \<Rightarrow> string" where
  "generateEventId now draws = ''evt_'' @ to_string (tdiv now 1000000) @ ''_'' @ map hex_digit draws"

definition EventBase :: "EventType \<Rightarrow> string \<Rightarrow> time \<Rightarrow> time \<Rightarrow> nat list \<Rightarrow> ievent" where
  "EventBase ty target timestamp now draws =
    \<lparr>eventId = generateEventId now draws, getType = ty, getTimestamp = timestamp, getTargetId = target\<rparr>"

section \<open>Filters\<close>

text \<open>A filter may throw (\<open>None\<close>); those of \<^verbatim>\<open>EventFilter.h\<close> do not. Its argument may be a null pointer.\<close>

type_synonym event_filter = "ievent option \<Rightarrow> bool option"

definition byType :: "EventType \<Rightarrow> event_filter" where
  "byType ty e = Some (case e of None \<Rightarrow> False | Some e \<Rightarrow> getType e = ty)"

definition byTargetId :: "string \<Rightarrow> event_filter" where
  "byTargetId target e = Some (case e of None \<Rightarrow> False | Some e \<Rightarrow> getTargetId e = target)"

definition byTypeAndTarget :: "EventType \<Rightarrow> string \<Rightarrow> event_filter" where
  "byTypeAndTarget ty target e =
    Some (case e of None \<Rightarrow> False | Some e \<Rightarrow> getType e = ty \<and> getTargetId e = target)"

definition all_filter :: event_filter where
  "all_filter e = Some (e \<noteq> None)"

definition andFilter :: "event_filter \<Rightarrow> event_filter \<Rightarrow> event_filter" where
  "andFilter f g e = (case f e of None \<Rightarrow> None | Some False \<Rightarrow> Some False | Some True \<Rightarrow> g e)"

definition orFilter :: "event_filter \<Rightarrow> event_filter \<Rightarrow> event_filter" where
  "orFilter f g e = (case f e of None \<Rightarrow> None | Some True \<Rightarrow> Some True | Some False \<Rightarrow> g e)"

section \<open>Subscriptions\<close>

record subscription =
  sub_filter :: event_filter
  sub_callback :: "ievent \<Rightarrow> bool"

record subscription_manager =
  subscriptions :: "(string \<times> subscription) list"
  sub_counter :: u64

definition SubscriptionManager :: subscription_manager where
  "SubscriptionManager = \<lparr>subscriptions = [], sub_counter = 0\<rparr>"

definition generateSubscriptionId :: "u64 \<Rightarrow> nat list \<Rightarrow> string" where
  "generateSubscriptionId counter draws = ''sub_'' @ digits (unat counter) @ ''_'' @ map hex_digit draws"

text \<open>\<^verbatim>\<open>emplace\<close> does nothing if the key is there.\<close>

definition addSubscription ::
    "event_filter \<Rightarrow> (ievent \<Rightarrow> bool) \<Rightarrow> nat list \<Rightarrow> subscription_manager \<Rightarrow> string \<times> subscription_manager" where
  "addSubscription f cb draws m =
    (let i = generateSubscriptionId (sub_counter m) draws in
     (i, m\<lparr>sub_counter := sub_counter m + 1,
           subscriptions := if i \<in> fst ` set (subscriptions m) then subscriptions m
             else subscriptions m @ [(i, \<lparr>sub_filter = f, sub_callback = cb\<rparr>)]\<rparr>))"

definition removeSubscription :: "string \<Rightarrow> subscription_manager \<Rightarrow> bool \<times> subscription_manager" where
  "removeSubscription i m =
    (i \<in> fst ` set (subscriptions m), m\<lparr>subscriptions := filter (\<lambda>x. fst x \<noteq> i) (subscriptions m)\<rparr>)"

definition getAllSubscriptions :: "subscription_manager \<Rightarrow> (string \<times> subscription) list" where
  "getAllSubscriptions m = subscriptions m"

definition getSubscriptionCount :: "subscription_manager \<Rightarrow> nat" where
  "getSubscriptionCount m = length (subscriptions m)"

definition clear_subs :: "subscription_manager \<Rightarrow> subscription_manager" where
  "clear_subs m = m\<lparr>subscriptions := []\<rparr>"

section \<open>The bus\<close>

datatype event_payload = IntPayload int | DoublePayload u64 | StringPayload string | EventPayload "ievent option"

text \<open>What subscribers and observers (numbered by the identity of the object) are called with.\<close>

datatype bus_call =
    Callback string ievent
  | OnBeforePublish nat ievent
  | OnAfterPublish nat ievent bool
  | OnBeforeDispatch nat ievent
  | OnAfterDispatch nat ievent nat

record event_stats =
  publishedEvents :: u64
  processedEvents :: u64
  droppedEvents :: u64
  failedCallbacks :: u64
  activeSubscriptions :: u64

definition no_stats :: event_stats where
  "no_stats = \<lparr>publishedEvents = 0, processedEvents = 0, droppedEvents = 0, failedCallbacks = 0, activeSubscriptions = 0\<rparr>"

record event_bus =
  eventQueue :: "event_payload event_queue"
  subscriptionManager :: subscription_manager
  bus_stats :: event_stats
  bus_running :: bool
  sequenceCounter :: u64
  observers :: "nat list"
  bus_calls :: "bus_call list"

definition EventBus :: "u64 \<Rightarrow> event_bus" where
  "EventBus queueCapacity =
    \<lparr>eventQueue = PriorityQueue queueCapacity, subscriptionManager = SubscriptionManager, bus_stats = no_stats,
     bus_running = False, sequenceCounter = 0, observers = [], bus_calls = []\<rparr>"

definition notify_observers :: "(nat \<Rightarrow> bus_call) \<Rightarrow> event_bus \<Rightarrow> event_bus" where
  "notify_observers f b = b\<lparr>bus_calls := bus_calls b @ map f (observers b)\<rparr>"

definition prioritized :: "ievent \<Rightarrow> time \<Rightarrow> u64 \<Rightarrow> event_payload prioritized_event" where
  "prioritized e now n =
    \<lparr>event_type = eventTypeToString (getType e), event_priority = NORMAL, payload = EventPayload (Some e),
     timestamp_ns = word_of_int now, sequence_num = n, ttl = None, coalescing_key = None\<rparr>"

definition publish :: "ievent option \<Rightarrow> time \<Rightarrow> event_bus \<Rightarrow> bool \<times> event_bus" where
  "publish event now b =
    (case event of
       None \<Rightarrow> (False, b)
     | Some e \<Rightarrow>
         let b = notify_observers (\<lambda>n. OnBeforePublish n e) b;
             p = prioritized e now (sequenceCounter b);
             b = b\<lparr>sequenceCounter := sequenceCounter b + 1\<rparr>;
             (success, q) = push_eq p (eventQueue b);
             b = b\<lparr>eventQueue := q\<rparr>;
             st = bus_stats b;
             b = b\<lparr>bus_stats := if success then st\<lparr>publishedEvents := publishedEvents st + 1\<rparr>
                                else st\<lparr>droppedEvents := droppedEvents st + 1\<rparr>\<rparr>
         in (success, notify_observers (\<lambda>n. OnAfterPublish n e success) b))"

text \<open>A null filter is replaced by one that accepts everything, a null callback is refused.\<close>

definition subscribe_bus ::
    "event_filter option \<Rightarrow> (ievent \<Rightarrow> bool) option \<Rightarrow> nat list \<Rightarrow> event_bus \<Rightarrow> string \<times> event_bus" where
  "subscribe_bus f cb draws b =
    (case cb of
       None \<Rightarrow> ([], b)
     | Some cb \<Rightarrow>
         let f = (case f of None \<Rightarrow> (\<lambda>_. Some True) | Some f \<Rightarrow> f);
             (i, m) = addSubscription f cb draws (subscriptionManager b);
             st = bus_stats b
         in (i, b\<lparr>subscriptionManager := m, bus_stats := st\<lparr>activeSubscriptions := activeSubscriptions st + 1\<rparr>\<rparr>))"

definition unsubscribe_bus :: "string \<Rightarrow> event_bus \<Rightarrow> bool \<times> event_bus" where
  "unsubscribe_bus i b =
    (let (success, m) = removeSubscription i (subscriptionManager b); st = bus_stats b in
     (success, b\<lparr>subscriptionManager := m,
        bus_stats := if success then st\<lparr>activeSubscriptions := activeSubscriptions st - 1\<rparr> else st\<rparr>))"

text \<open>One subscriber; the result says whether it counts as having received the event.\<close>

definition call_subscriber :: "ievent \<Rightarrow> string \<times> subscription \<Rightarrow> event_bus \<Rightarrow> bool \<times> event_bus" where
  "call_subscriber e x b =
    (let st = bus_stats b; failed = b\<lparr>bus_stats := st\<lparr>failedCallbacks := failedCallbacks st + 1\<rparr>\<rparr> in
     case sub_filter (snd x) (Some e) of
       None \<Rightarrow> (False, failed)
     | Some False \<Rightarrow> (False, b)
     | Some True \<Rightarrow>
         if sub_callback (snd x) e
         then (True, b\<lparr>bus_calls := bus_calls b @ [Callback (fst x) e],
                       bus_stats := st\<lparr>processedEvents := processedEvents st + 1\<rparr>\<rparr>)
         else (False, failed\<lparr>bus_calls := bus_calls b @ [Callback (fst x) e]\<rparr>))"

fun call_subscribers :: "ievent \<Rightarrow> (string \<times> subscription) list \<Rightarrow> event_bus \<Rightarrow> nat \<times> event_bus" where
  "call_subscribers e [] b = (0, b)"
| "call_subscribers e (x # xs) b =
    (let (called, b) = call_subscriber e x b; (n, b) = call_subscribers e xs b in
     (if called then Suc n else n, b))"

definition dispatchToSubscribers :: "ievent \<Rightarrow> event_bus \<Rightarrow> event_bus" where
  "dispatchToSubscribers e b =
    (let b = notify_observers (\<lambda>n. OnBeforeDispatch n e) b;
         (k, b) = call_subscribers e (getAllSubscriptions (subscriptionManager b)) b
     in notify_observers (\<lambda>n. OnAfterDispatch n e k) b)"

definition dispatch_payload :: "event_payload \<Rightarrow> event_bus \<Rightarrow> event_bus" where
  "dispatch_payload p b = (case p of EventPayload (Some e) \<Rightarrow> dispatchToSubscribers e b | _ \<Rightarrow> b)"

text \<open>One pass of the loop of the dispatch thread; the result says whether there was an event.\<close>

definition dispatch_one :: "(nat \<Rightarrow> time) \<Rightarrow> event_bus \<Rightarrow> bool \<times> event_bus" where
  "dispatch_one clock b =
    (case pop_eq clock (eventQueue b) of
       (None, q) \<Rightarrow> (False, b\<lparr>eventQueue := q\<rparr>)
     | (Some p, q) \<Rightarrow> (True, dispatch_payload (payload p) (b\<lparr>eventQueue := q\<rparr>)))"

lemma pop_loop_length:
  "fst (pop_loop clock es q) = Some e \<Longrightarrow> length (heap (snd (pop_loop clock es q))) < length es"
  by (induction clock es q rule: pop_loop.induct) (auto simp: Let_def split: if_splits)

lemma queue_dispatch [simp]: "eventQueue (dispatch_payload p b) = eventQueue b"
proof -
  have one: "eventQueue (snd (call_subscriber e x b)) = eventQueue b" for e x b
    by (simp add: call_subscriber_def Let_def split: option.split bool.split)
  have "eventQueue (snd (call_subscribers e xs b)) = eventQueue b" for e xs b
    by (induction xs arbitrary: b) (simp_all add: case_prod_beta Let_def one)
  then show ?thesis
    by (simp add: dispatch_payload_def dispatchToSubscribers_def notify_observers_def case_prod_beta Let_def
        split: event_payload.split option.split)
qed

text \<open>The loop that empties the queue before the thread ends.\<close>

function dispatch_rest :: "(nat \<Rightarrow> time) \<Rightarrow> event_bus \<Rightarrow> event_bus" where
  "dispatch_rest clock b =
    (let (more, b') = dispatch_one clock b in if more then dispatch_rest clock b' else b')"
  by pat_completeness auto
termination
proof (relation "measure (\<lambda>(clock, b). length (heap (eventQueue b)))")
  fix clock :: "nat \<Rightarrow> time" and b r more b'
  assume "r = dispatch_one clock b" and "(more, b') = r" and more
  then show "((clock, b'), clock, b) \<in> measure (\<lambda>(clock, b). length (heap (eventQueue b)))"
    using pop_loop_length [of clock "heap (eventQueue b)" "eventQueue b"]
    by (auto simp: dispatch_one_def pop_eq_def split: prod.splits option.splits)
qed simp

declare dispatch_rest.simps [simp del]

definition start_bus :: "event_bus \<Rightarrow> event_bus" where
  "start_bus b = b\<lparr>bus_running := True\<rparr>"

definition stop_bus :: "(nat \<Rightarrow> time) \<Rightarrow> event_bus \<Rightarrow> event_bus" where
  "stop_bus clock b = (if bus_running b then dispatch_rest clock (b\<lparr>bus_running := False\<rparr>) else b)"

definition registerObserver :: "nat option \<Rightarrow> event_bus \<Rightarrow> event_bus" where
  "registerObserver ob b = (case ob of None \<Rightarrow> b | Some n \<Rightarrow> b\<lparr>observers := observers b @ [n]\<rparr>)"

definition unregisterObserver :: "nat option \<Rightarrow> event_bus \<Rightarrow> event_bus" where
  "unregisterObserver ob b = (case ob of None \<Rightarrow> b | Some n \<Rightarrow> b\<lparr>observers := remove1 n (observers b)\<rparr>)"

section \<open>Policies\<close>

record throttling_policy =
  throttle_interval_ms :: u64
  last_sent_time :: "string \<rightharpoonup> u64"

definition ThrottlingPolicy :: "u64 \<Rightarrow> throttling_policy" where
  "ThrottlingPolicy interval = \<lparr>throttle_interval_ms = interval, last_sent_time = Map.empty\<rparr>"

text \<open>\<open>now\<close> is the result of \<^verbatim>\<open>getCurrentTimeMs\<close>.\<close>

definition shouldSend :: "u64 \<Rightarrow> string \<Rightarrow> throttling_policy \<Rightarrow> bool \<times> throttling_policy" where
  "shouldSend now ty p =
    (case last_sent_time p ty of
       None \<Rightarrow> (True, p\<lparr>last_sent_time := (last_sent_time p)(ty \<mapsto> now)\<rparr>)
     | Some t \<Rightarrow>
         if throttle_interval_ms p \<le> now - t
         then (True, p\<lparr>last_sent_time := (last_sent_time p)(ty \<mapsto> now)\<rparr>)
         else (False, p))"

definition reset_throttling :: "throttling_policy \<Rightarrow> throttling_policy" where
  "reset_throttling p = p\<lparr>last_sent_time := Map.empty\<rparr>"

definition resetEventType :: "string \<Rightarrow> throttling_policy \<Rightarrow> throttling_policy" where
  "resetEventType ty p = p\<lparr>last_sent_time := (last_sent_time p)(ty := None)\<rparr>"

record 'p coalescing_policy =
  coalesce_window_ms :: u64
  pending_events :: "(string \<times> 'p prioritized_event \<times> u64) list"

definition CoalescingPolicy :: "u64 \<Rightarrow> 'p coalescing_policy" where
  "CoalescingPolicy window = \<lparr>coalesce_window_ms = window, pending_events = []\<rparr>"

definition coalesce ::
    "u64 \<Rightarrow> 'p prioritized_event \<Rightarrow> 'p coalescing_policy \<Rightarrow> 'p prioritized_event option \<times> 'p coalescing_policy" where
  "coalesce now e p =
    (case map_of (pending_events p) (event_type e) of
       None \<Rightarrow> (None, p\<lparr>pending_events := pending_events p @ [(event_type e, e, now)]\<rparr>)
     | Some (old, t) \<Rightarrow>
         if coalesce_window_ms p \<le> now - t
         then (Some old, p\<lparr>pending_events := AList.update (event_type e) (e, now) (pending_events p)\<rparr>)
         else (None, p\<lparr>pending_events := AList.update (event_type e) (e, t) (pending_events p)\<rparr>))"

definition flush_all :: "'p coalescing_policy \<Rightarrow> 'p prioritized_event list \<times> 'p coalescing_policy" where
  "flush_all p = (map (\<lambda>x. fst (snd x)) (pending_events p), p\<lparr>pending_events := []\<rparr>)"

definition flushEventType :: "string \<Rightarrow> 'p coalescing_policy \<Rightarrow> 'p prioritized_event option \<times> 'p coalescing_policy" where
  "flushEventType ty p =
    (case map_of (pending_events p) ty of
       None \<Rightarrow> (None, p)
     | Some (e, _) \<Rightarrow> (Some e, p\<lparr>pending_events := AList.delete ty (pending_events p)\<rparr>))"

definition getPendingCount :: "'p coalescing_policy \<Rightarrow> nat" where
  "getPendingCount p = length (pending_events p)"

section \<open>Lemmas\<close>

subsection \<open>Delivery\<close>

definition delivered :: "event_bus \<Rightarrow> bus_call list" where
  "delivered b = filter (\<lambda>c. case c of Callback _ _ \<Rightarrow> True | _ \<Rightarrow> False) (bus_calls b)"

text \<open>The calls an event causes, if the subscribers are called in this order.\<close>

definition calls_for :: "ievent \<Rightarrow> (string \<times> subscription) list \<Rightarrow> bus_call list" where
  "calls_for e xs = map (\<lambda>x. Callback (fst x) e) (filter (\<lambda>x. sub_filter (snd x) (Some e) = Some True) xs)"

lemma notify_simps [simp]:
  "eventQueue (notify_observers f b) = eventQueue b" "subscriptionManager (notify_observers f b) = subscriptionManager b"
  "sequenceCounter (notify_observers f b) = sequenceCounter b" "bus_running (notify_observers f b) = bus_running b"
  by (simp_all add: notify_observers_def)

lemma delivered_notify:
  assumes "\<And>n. case f n of Callback _ _ \<Rightarrow> False | _ \<Rightarrow> True"
  shows "delivered (notify_observers f b) = delivered b"
proof -
  have "\<not> (case f n of Callback _ _ \<Rightarrow> True | _ \<Rightarrow> False)" for n using assms [of n] by (cases "f n") auto
  then show ?thesis by (simp add: delivered_def notify_observers_def filter_empty_conv)
qed

lemma call_subscriber_effect:
  "delivered (snd (call_subscriber e x b)) = delivered b @ calls_for e [x]"
  "subscriptionManager (snd (call_subscriber e x b)) = subscriptionManager b"
  by (simp_all add: call_subscriber_def delivered_def calls_for_def Let_def split: option.split bool.split)

lemma call_subscribers_effect:
  "delivered (snd (call_subscribers e xs b)) = delivered b @ calls_for e xs \<and>
   subscriptionManager (snd (call_subscribers e xs b)) = subscriptionManager b"
proof (induction xs arbitrary: b)
  case (Cons x xs)
  have "calls_for e (x # xs) = calls_for e [x] @ calls_for e xs" by (simp add: calls_for_def)
  with Cons show ?case by (simp add: case_prod_beta Let_def call_subscriber_effect)
qed (simp add: calls_for_def)

lemma dispatch_effect:
  "delivered (dispatchToSubscribers e b) = delivered b @ calls_for e (subscriptions (subscriptionManager b))"
  "subscriptionManager (dispatchToSubscribers e b) = subscriptionManager b"
  by (simp_all add: dispatchToSubscribers_def case_prod_beta Let_def delivered_notify getAllSubscriptions_def
      call_subscribers_effect)

lemma delivered_queue [simp]:
  "delivered (b\<lparr>eventQueue := q\<rparr>) = delivered b" "delivered (b\<lparr>bus_running := r\<rparr>) = delivered b"
  "delivered (b\<lparr>sequenceCounter := n\<rparr>) = delivered b" "delivered (b\<lparr>bus_stats := st\<rparr>) = delivered b"
  by (simp_all add: delivered_def)

text \<open>An event that was published on the bus, and the event inside.\<close>

definition published_event :: "event_payload prioritized_event \<Rightarrow> bool" where
  "published_event p \<longleftrightarrow> plain p \<and> (\<exists>e. payload p = EventPayload (Some e))"

definition inner_event :: "event_payload prioritized_event \<Rightarrow> ievent" where
  "inner_event p = (case payload p of EventPayload (Some e) \<Rightarrow> e)"

lemma dispatch_rest_effect:
  assumes "heap (eventQueue b) = ps" and "list_all published_event ps"
  shows "delivered (dispatch_rest clock b) =
    delivered b @ concat (map (\<lambda>p. calls_for (inner_event p) (subscriptions (subscriptionManager b))) ps)"
  using assms
proof (induction ps arbitrary: b)
  case Nil
  then show ?case by (simp add: dispatch_rest.simps [of clock b] dispatch_one_def pop_eq_def)
next
  case (Cons p ps)
  obtain e where e: "payload p = EventPayload (Some e)" "plain p" "inner_event p = e"
    using Cons.prems(2) by (auto simp: published_event_def inner_event_def)
  define q where "q = count_popped (forget_key p (take_top ps (eventQueue b)))"
  define b' where "b' = dispatchToSubscribers e (b\<lparr>eventQueue := q\<rparr>)"
  have one: "dispatch_one clock b = (True, b')"
    using pop_plain [OF e(2) Cons.prems(1), of clock]
    by (simp add: dispatch_one_def e dispatch_payload_def q_def b'_def)
  have "eventQueue b' = q"
    using queue_dispatch [of "EventPayload (Some e)" "b\<lparr>eventQueue := q\<rparr>"] by (simp add: b'_def dispatch_payload_def)
  then have "delivered (dispatch_rest clock b') =
      delivered b' @ concat (map (\<lambda>p. calls_for (inner_event p) (subscriptions (subscriptionManager b'))) ps)"
    using Cons.prems(2) by (intro Cons.IH) (simp_all add: q_def)
  then show ?case by (simp add: dispatch_rest.simps [of clock b] one b'_def dispatch_effect e)
qed

subsection \<open>Publication\<close>

abbreviation publish_all :: "(ievent \<times> time) list \<Rightarrow> event_bus \<Rightarrow> event_bus" where
  "publish_all xs b \<equiv> fold (\<lambda>(e, t) b. snd (publish (Some e) t b)) xs b"

fun numbered :: "(ievent \<times> time) list \<Rightarrow> u64 \<Rightarrow> event_payload prioritized_event list" where
  "numbered [] n = []"
| "numbered ((e, t) # xs) n = prioritized e t n # numbered xs (n + 1)"

lemma publish_effect:
  "eventQueue (snd (publish (Some e) t b)) = snd (push_eq (prioritized e t (sequenceCounter b)) (eventQueue b))"
  "fst (publish (Some e) t b) = fst (push_eq (prioritized e t (sequenceCounter b)) (eventQueue b))"
  "sequenceCounter (snd (publish (Some e) t b)) = sequenceCounter b + 1"
  "subscriptionManager (snd (publish (Some e) t b)) = subscriptionManager b"
  "bus_running (snd (publish (Some e) t b)) = bus_running b"
  "delivered (snd (publish (Some e) t b)) = delivered b"
  by (simp_all add: publish_def Let_def case_prod_beta delivered_notify)

lemma publish_all_effect:
  "eventQueue (publish_all xs b) = fold (\<lambda>e q. snd (push_eq e q)) (numbered xs (sequenceCounter b)) (eventQueue b) \<and>
   subscriptionManager (publish_all xs b) = subscriptionManager b \<and> bus_running (publish_all xs b) = bus_running b \<and>
   delivered (publish_all xs b) = delivered b"
proof (induction xs arbitrary: b)
  case (Cons x xs)
  obtain e t where x: "x = (e, t)" by (cases x)
  show ?case using Cons.IH [of "snd (publish (Some e) t b)"] by (simp add: x publish_effect)
qed simp

lemma length_numbered [simp]: "length (numbered xs n) = length xs"
  by (induction xs n rule: numbered.induct) auto

lemma numbered_events: "map inner_event (numbered xs n) = map fst xs"
  by (induction xs n rule: numbered.induct) (auto simp: inner_event_def prioritized_def)

lemma numbered_all:
  "list_all published_event (numbered xs n)" "list_all (\<lambda>p. event_priority p = NORMAL) (numbered xs n)"
  by (induction xs n rule: numbered.induct) (auto simp: published_event_def plain_def prioritized_def)

lemma word_of_int_mono:
  "0 \<le> a \<Longrightarrow> a \<le> b \<Longrightarrow> b < 2 ^ 64 \<Longrightarrow> (word_of_int a :: u64) \<le> word_of_int b"
  by (simp add: word_le_def uint_word_of_int)

lemma numbered_bounds:
  assumes "p \<in> set (numbered xs n)" and "unat n + length xs < 2 ^ 64"
  shows "n \<le> sequence_num p \<and> (\<exists>t \<in> snd ` set xs. timestamp_ns p = word_of_int t)"
  using assms
proof (induction xs n rule: numbered.induct)
  case (2 e t xs n)
  have inc: "unat (n + 1) = Suc (unat n)" using 2(3) by (intro unat_inc) simp
  then have "n \<le> n + 1" by (simp add: word_le_nat_alt)
  then show ?case using 2 inc by (auto simp: prioritized_def intro: order_trans)
qed simp

lemma numbered_sorted:
  assumes "sorted (map snd xs)" and "list_all (\<lambda>x. 0 \<le> snd x \<and> snd x < 2 ^ 64) xs" and "unat n + length xs < 2 ^ 64"
  shows "sorted_wrt (\<lambda>a b. event_key a < event_key b) (numbered xs n)"
  using assms
proof (induction xs n rule: numbered.induct)
  case (2 e t xs n)
  have inc: "unat (n + 1) = Suc (unat n)" using 2(4) by (intro unat_inc) simp
  have "event_key (prioritized e t n) < event_key p" if p: "p \<in> set (numbered xs (n + 1))" for p
  proof -
    have "n + 1 \<le> sequence_num p" and "\<exists>t' \<in> snd ` set xs. timestamp_ns p = word_of_int t'"
      using numbered_bounds [OF p] 2(4) inc by auto
    then obtain t' where t': "t' \<in> snd ` set xs" "timestamp_ns p = word_of_int t'" by blast
    have "0 \<le> t" "t \<le> t'" "t' < 2 ^ 64" using 2(2,3) t'(1) by (auto simp: list_all_iff)
    then have "(word_of_int t :: u64) \<le> timestamp_ns p" using word_of_int_mono t'(2) by simp
    moreover have "n < sequence_num p"
      using \<open>n + 1 \<le> sequence_num p\<close> inc by (simp add: word_le_nat_alt word_less_nat_alt)
    moreover have "event_priority p = NORMAL"
      using numbered_all(2) [of xs "n + 1"] p by (auto simp: list_all_iff)
    ultimately show ?thesis by (auto simp: event_key_def prioritized_def less_prod_def)
  qed
  moreover have "sorted_wrt (\<lambda>a b. event_key a < event_key b) (numbered xs (n + 1))"
    using 2(2-4) inc by (intro 2(1)) auto
  ultimately show ?case by (simp only: numbered.simps sorted_wrt.simps) blast
qed simp

text \<open>As long as less than 90\% of the capacity is used, everything that is published waits in order.\<close>

lemma published_in_order:
  assumes "sorted (map snd xs)" and "list_all (\<lambda>x. 0 \<le> snd x \<and> snd x < 2 ^ 64) xs"
    and "length xs \<le> unat cap * 9 div 10" and "eventQueue b = PriorityQueue cap" and "sequenceCounter b = 0"
  shows "heap (eventQueue (publish_all xs b)) = numbered xs 0"
    and "occupancy_ok (eventQueue (publish_all xs b))"
    and "drop_threshold_90 (eventQueue (publish_all xs b)) = drop_threshold_90 (eventQueue b)"
proof -
  have new: "heap (eventQueue b) = []" "coalescing_latest_seq (eventQueue b) = latest_seq (heap (eventQueue b))"
    by (auto simp: assms(4) PriorityQueue_def)
  have lim: "drop_limit NORMAL (eventQueue b) = unat cap * 9 div 10" by (simp add: assms(4) unat_thresholds)
  have "length xs < 2 ^ 64" using drop_limit_less [of NORMAL "eventQueue b"] lim assms(3) by simp
  then have "sorted_wrt (\<lambda>a b. event_key a < event_key b) (heap (eventQueue b) @ numbered xs 0)"
    using numbered_sorted [OF assms(1,2), of 0] by (simp add: new)
  moreover have "list_all (\<lambda>e. length (heap (eventQueue b)) + length (numbered xs 0) \<le>
      drop_limit (event_priority e) (eventQueue b)) (numbered xs 0)"
    using numbered_all(2) [of xs 0] assms(3) lim by (simp add: new list_all_iff del: drop_limit.simps)
  ultimately show "heap (eventQueue (publish_all xs b)) = numbered xs 0"
    "occupancy_ok (eventQueue (publish_all xs b))"
    "drop_threshold_90 (eventQueue (publish_all xs b)) = drop_threshold_90 (eventQueue b)"
    using push_in_order [of "eventQueue b" "numbered xs 0"] new conjunct1 [OF publish_all_effect [of xs b]]
    by (simp_all add: assms(4,5) occupancy_new Let_def)
qed

subsection \<open>Subscription ids\<close>

lemma digits_no_separator: "CHR ''_'' \<notin> set (digits n)"
proof
  assume "CHR ''_'' \<in> set (digits n)"
  then obtain d :: nat where "d < 10" "CHR ''_'' = char_of (48 + d)" using digits_chars by blast
  then have "of_char (CHR ''_'') = (48 + d :: nat)" by simp
  with \<open>d < 10\<close> show False by simp
qed

lemma generateSubscriptionId_inj:
  assumes "generateSubscriptionId c ds = generateSubscriptionId c' ds'"
  shows "c = c'"
proof -
  have cut: "takeWhile (\<lambda>x. x \<noteq> CHR ''_'') (digits n @ CHR ''_'' # r) = digits n" for n r
    by (intro takeWhile_tail [THEN trans]) (auto simp: digits_no_separator takeWhile_append2 intro: takeWhile_eq_all_conv [THEN iffD2])
  have "digits (unat c) @ CHR ''_'' # map hex_digit ds = digits (unat c') @ CHR ''_'' # map hex_digit ds'"
    using assms by (simp add: generateSubscriptionId_def)
  then have "digits (unat c) = digits (unat c')" using cut by metis
  then show ?thesis by (simp add: digits_inj word_unat_eq_iff)
qed

definition subs_ok :: "subscription_manager \<Rightarrow> bool" where
  "subs_ok m \<longleftrightarrow> distinct (map fst (subscriptions m)) \<and>
     (\<forall>i \<in> fst ` set (subscriptions m). \<exists>c ds. i = generateSubscriptionId c ds \<and> c < sub_counter m)"

lemma new_id_fresh:
  assumes "subs_ok m"
  shows "generateSubscriptionId (sub_counter m) draws \<notin> fst ` set (subscriptions m)"
proof
  assume "generateSubscriptionId (sub_counter m) draws \<in> fst ` set (subscriptions m)"
  then obtain c ds where "generateSubscriptionId (sub_counter m) draws = generateSubscriptionId c ds" "c < sub_counter m"
    using assms unfolding subs_ok_def by blast
  then show False using generateSubscriptionId_inj by blast
qed

lemma subs_ok_add:
  assumes "subs_ok m" and "Suc (unat (sub_counter m)) < 2 ^ 64"
  shows "subs_ok (snd (addSubscription f cb draws m))"
proof -
  have lt: "sub_counter m < sub_counter m + 1"
    using unat_inc [of "sub_counter m"] assms(2) by (simp add: word_less_nat_alt)
  then have old: "\<exists>c ds. i = generateSubscriptionId c ds \<and> c < sub_counter m + 1" if "i \<in> fst ` set (subscriptions m)" for i
    using assms(1) that less_trans unfolding subs_ok_def by blast
  let ?i = "generateSubscriptionId (sub_counter m) draws"
  have "fst ` set (subscriptions (snd (addSubscription f cb draws m))) = insert ?i (fst ` set (subscriptions m))"
    "distinct (map fst (subscriptions (snd (addSubscription f cb draws m))))"
    "sub_counter (snd (addSubscription f cb draws m)) = sub_counter m + 1"
    using assms(1) new_id_fresh [OF assms(1), of draws] by (auto simp: addSubscription_def subs_ok_def Let_def)
  then show ?thesis unfolding subs_ok_def using old lt by (auto simp del: fst_conv)
qed

lemma subs_ok_remove: "subs_ok m \<Longrightarrow> subs_ok (snd (removeSubscription i m))"
  by (auto simp: removeSubscription_def subs_ok_def distinct_map_filter)

text \<open>Subscribing and unsubscribing.\<close>

datatype sub_op = Subscribe event_filter "ievent \<Rightarrow> bool" "nat list" | Unsubscribe string

fun sub_step :: "event_bus \<Rightarrow> sub_op \<Rightarrow> event_bus" where
  "sub_step b (Subscribe f cb draws) = snd (subscribe_bus (Some f) (Some cb) draws b)"
| "sub_step b (Unsubscribe i) = snd (unsubscribe_bus i b)"

definition bus_subs_ok :: "event_bus \<Rightarrow> bool" where
  "bus_subs_ok b \<longleftrightarrow> subs_ok (subscriptionManager b) \<and>
     activeSubscriptions (bus_stats b) = of_nat (length (subscriptions (subscriptionManager b)))"

lemma subscribe_effect:
  assumes "subs_ok (subscriptionManager b)"
  shows "subscriptions (subscriptionManager (snd (subscribe_bus (Some f) (Some cb) draws b))) =
      subscriptions (subscriptionManager b) @ [(fst (subscribe_bus (Some f) (Some cb) draws b), \<lparr>sub_filter = f, sub_callback = cb\<rparr>)]"
    and "fst (subscribe_bus (Some f) (Some cb) draws b) \<notin> fst ` set (subscriptions (subscriptionManager b))"
    and "sub_counter (subscriptionManager (snd (subscribe_bus (Some f) (Some cb) draws b))) = sub_counter (subscriptionManager b) + 1"
  using new_id_fresh [OF assms, of draws]
  by (simp_all add: subscribe_bus_def addSubscription_def Let_def case_prod_beta)

lemma length_filter_fst:
  assumes "distinct (map fst xs)" and "i \<in> fst ` set xs"
  shows "length (filter (\<lambda>x. fst x \<noteq> i) xs) = length xs - 1"
  using assms
proof (induction xs)
  case (Cons x xs)
  show ?case
  proof (cases "fst x = i")
    case True
    then have "fst y \<noteq> i" if "y \<in> set xs" for y using imageI [OF that, of fst] Cons.prems(1) by (metis distinct.simps(2) list.map(2) list.set_map)
    then have "filter (\<lambda>x. fst x \<noteq> i) xs = xs" by (intro filter_True) blast
    then show ?thesis using True by simp
  next
    case False
    then show ?thesis using Cons by (cases xs) auto
  qed
qed simp

lemma bus_subs_ok_step:
  assumes "bus_subs_ok b" and "Suc (unat (sub_counter (subscriptionManager b))) < 2 ^ 64"
  shows "bus_subs_ok (sub_step b e)"
proof (cases e)
  case (Subscribe f cb draws)
  have "subs_ok (subscriptionManager (snd (subscribe_bus (Some f) (Some cb) draws b)))"
    using subs_ok_add [of "subscriptionManager b" f cb draws] assms
    by (simp add: bus_subs_ok_def subscribe_bus_def Let_def case_prod_beta)
  moreover have "activeSubscriptions (bus_stats (snd (subscribe_bus (Some f) (Some cb) draws b))) =
      activeSubscriptions (bus_stats b) + 1"
    by (simp add: subscribe_bus_def Let_def case_prod_beta)
  ultimately show ?thesis
    using assms(1) subscribe_effect(1) [of b f cb draws] by (simp add: Subscribe bus_subs_ok_def)
next
  case (Unsubscribe i)
  let ?xs = "subscriptions (subscriptionManager b)"
  have "length (filter (\<lambda>x. fst x \<noteq> i) ?xs) = (if i \<in> fst ` set ?xs then length ?xs - 1 else length ?xs)"
  proof (cases "i \<in> fst ` set ?xs")
    case True
    then show ?thesis using assms(1) length_filter_fst [of ?xs i] by (simp add: bus_subs_ok_def subs_ok_def)
  next
    case False
    then have "filter (\<lambda>x. fst x \<noteq> i) ?xs = ?xs" by (intro filter_True) force
    then show ?thesis using False by simp
  qed
  moreover have "1 \<le> length ?xs" if "i \<in> fst ` set ?xs" using that by (cases ?xs) auto
  ultimately show ?thesis
    using assms(1) subs_ok_remove [of "subscriptionManager b" i]
    by (auto simp: Unsubscribe bus_subs_ok_def unsubscribe_bus_def removeSubscription_def Let_def of_nat_diff)
qed

lemma bus_subs_ok_run:
  assumes "bus_subs_ok b" and "unat (sub_counter (subscriptionManager b)) + length ops < 2 ^ 64"
  shows "bus_subs_ok (run_steps sub_step b ops)"
  using assms
proof (induction ops arbitrary: b)
  case (Cons e es)
  have ne: "Suc (unat (sub_counter (subscriptionManager b))) < 2 ^ 64" using Cons.prems(2) by simp
  have "unat (sub_counter (subscriptionManager (sub_step b e))) \<le> Suc (unat (sub_counter (subscriptionManager b)))"
  proof (cases e)
    case (Subscribe f cb draws)
    have "unat (sub_counter (subscriptionManager b) + 1) = Suc (unat (sub_counter (subscriptionManager b)))"
      using Cons.prems(2) by (intro unat_inc) simp
    then show ?thesis
      using subscribe_effect(3) [of b f cb draws] Cons.prems(1) by (simp add: Subscribe bus_subs_ok_def)
  qed (simp add: unsubscribe_bus_def removeSubscription_def Let_def)
  then show ?case using Cons.IH [of "sub_step b e"] bus_subs_ok_step [OF Cons.prems(1) ne] Cons.prems(2) by simp
qed simp

subsection \<open>Policies\<close>

text \<open>The times at which events of one type are sent.\<close>

fun sent_times :: "string \<Rightarrow> u64 list \<Rightarrow> throttling_policy \<Rightarrow> u64 list" where
  "sent_times ty [] p = []"
| "sent_times ty (t # ts) p =
    (let (send, p) = shouldSend t ty p in if send then t # sent_times ty ts p else sent_times ty ts p)"

lemma shouldSend_interval [simp]: "throttle_interval_ms (snd (shouldSend t ty p)) = throttle_interval_ms p"
  by (simp add: shouldSend_def split: option.split)

lemma unat_diff_le: "(a :: u64) \<le> b \<Longrightarrow> w \<le> b - a \<longleftrightarrow> unat a + unat w \<le> unat b"
  by (auto simp: word_le_nat_alt unat_sub)

text \<open>What holds of the times sent after one at \<open>s\<close>.\<close>

definition throttled :: "nat \<Rightarrow> u64 \<Rightarrow> u64 list \<Rightarrow> u64 list \<Rightarrow> bool" where
  "throttled w s ts sent \<longleftrightarrow>
     list_all (\<lambda>t. unat s + w \<le> unat t) sent \<and> sorted_wrt (\<lambda>a b. unat a + w \<le> unat b) sent \<and>
     list_all (\<lambda>t. t \<in> set sent \<or> list_ex (\<lambda>s'. s' \<le> t \<and> unat t < unat s' + w) (s # sent)) ts"

lemma throttled_sent:
  assumes "last_sent_time p ty = Some s" and "sorted ts" and "list_all (\<lambda>t. s \<le> t) ts"
  shows "throttled (unat (throttle_interval_ms p)) s ts (sent_times ty ts p)"
  using assms
proof (induction ts arbitrary: p s)
  case (Cons t ts)
  let ?w = "throttle_interval_ms p"
  have st: "s \<le> t" "sorted ts" "list_all (\<lambda>u. t \<le> u) ts" "list_all (\<lambda>u. s \<le> u) ts"
    using Cons.prems by (auto simp: list_all_iff)
  have due: "?w \<le> t - s \<longleftrightarrow> unat s + unat ?w \<le> unat t" using unat_diff_le [OF st(1)] .
  show ?case
  proof (cases "?w \<le> t - s")
    case True
    let ?p = "p\<lparr>last_sent_time := (last_sent_time p)(ty \<mapsto> t)\<rparr>"
    have sent: "sent_times ty (t # ts) p = t # sent_times ty ts ?p"
      using True Cons.prems(1) by (simp add: shouldSend_def)
    have "last_sent_time ?p ty = Some t" by simp
    then have "throttled (unat ?w) t ts (sent_times ty ts ?p)" using Cons.IH [of ?p t] st(2,3) by simp
    then show ?thesis using True due unfolding sent throttled_def by (auto simp: list_all_iff list_ex_iff)
  next
    case False
    have sent: "sent_times ty (t # ts) p = sent_times ty ts p"
      using False Cons.prems(1) by (simp add: shouldSend_def)
    have "unat t < unat s + unat ?w" using False due by simp
    then show ?thesis using Cons.IH [OF Cons.prems(1) st(2,4)] st(1) unfolding sent throttled_def by simp
  qed
qed (simp add: throttled_def)

text \<open>The pending event of a type is the last one that was given to the policy.\<close>

definition coalesce_all :: "(u64 \<times> 'p prioritized_event) list \<Rightarrow> 'p coalescing_policy \<Rightarrow> 'p coalescing_policy" where
  "coalesce_all xs p = fold (\<lambda>(t, e) p. snd (coalesce t e p)) xs p"

lemma coalesce_pending:
  "map_option fst (map_of (pending_events (snd (coalesce t e p))) ty) =
     (if event_type e = ty then Some e else map_option fst (map_of (pending_events p) ty))"
  by (auto simp: coalesce_def update_conv map_add_def split: option.split)

lemma coalesce_all_pending:
  "map_option fst (map_of (pending_events (coalesce_all xs p)) ty) =
     (case filter (\<lambda>e. event_type e = ty) (map snd xs) of [] \<Rightarrow> map_option fst (map_of (pending_events p) ty)
      | es \<Rightarrow> Some (last es))"
proof (induction xs arbitrary: p)
  case (Cons x xs)
  obtain t e where x: "x = (t, e)" by (cases x)
  have "coalesce_all (x # xs) p = coalesce_all xs (snd (coalesce t e p))" by (simp add: coalesce_all_def x)
  then show ?case
    using Cons.IH [of "snd (coalesce t e p)"] by (auto simp: x coalesce_pending split: list.splits)
qed (simp add: coalesce_all_def)

section \<open>Properties\<close>


definition sample_ievent :: ievent where
  "sample_ievent = \<lparr>eventId = ''evt_1'', getType = ALARM_RAISED, getTimestamp = 0, getTargetId = ''E001''\<rparr>"

definition sample_bus :: event_bus where
  "sample_bus = start_bus (snd (subscribe_bus (Some (byType ALARM_RAISED)) (Some (\<lambda>_. False)) [0] (EventBus 10)))"


text \<open>The bus publishes every event with the priority \<^verbatim>\<open>NORMAL\<close>. Once 90\% of its capacity is
  waiting it drops every further event, alarms and errors included, although the queue never drops
  critical events.\<close>

theorem bus_drops_alarms:
  assumes "sorted (map snd xs)" and "list_all (\<lambda>x. 0 \<le> snd x \<and> snd x < 2 ^ 64) xs"
    and "length xs = unat cap * 9 div 10" and "eventQueue b = PriorityQueue cap" and "sequenceCounter b = 0"
  shows "\<not> fst (publish (Some e) t (publish_all xs b))"
proof -
  let ?q = "eventQueue (publish_all xs b)"
  have le: "length xs \<le> unat cap * 9 div 10" using assms(3) by simp
  note o = published_in_order [OF assms(1,2) le assms(4,5)]
  have "drop_limit NORMAL ?q \<le> length (heap ?q)" using assms(3) by (simp add: o assms(4) unat_thresholds)
  then have "shouldDrop NORMAL ?q" using o(2) by (intro dropped_at_limit) simp_all
  then show ?thesis by (simp add: publish_effect push_eq_def prioritized_def)
qed

theorem bus_drops_alarms_witness:
  "\<not> fst (publish (Some sample_ievent) 6 (publish_all [(sample_ievent, 5)] (EventBus 2)))"
  by (rule bus_drops_alarms [of _ 2]) (simp_all add: EventBus_def)

text \<open>Subscriptions: whatever was subscribed and unsubscribed before, a new subscription gets an id
  that no other one has, it is added to the others, and unsubscribing that id takes exactly it
  away. The statistics count the subscriptions.\<close>

theorem subscriptions_exact:
  assumes "Suc (length ops) < 2 ^ 64"
  shows "let b = run_steps sub_step (EventBus cap) ops;
      (i, b1) = subscribe_bus (Some f) (Some cb) draws b;
      (ok, b2) = unsubscribe_bus i b1 in
    getAllSubscriptions (subscriptionManager b1) =
      getAllSubscriptions (subscriptionManager b) @ [(i, \<lparr>sub_filter = f, sub_callback = cb\<rparr>)] \<and>
    ok \<and> getAllSubscriptions (subscriptionManager b2) = getAllSubscriptions (subscriptionManager b) \<and>
    distinct (map fst (getAllSubscriptions (subscriptionManager b1))) \<and>
    activeSubscriptions (bus_stats b) = of_nat (getSubscriptionCount (subscriptionManager b))"
proof -
  let ?b = "run_steps sub_step (EventBus cap) ops"
  have "bus_subs_ok (EventBus cap)"
    by (simp add: bus_subs_ok_def subs_ok_def EventBus_def SubscriptionManager_def no_stats_def)
  then have ok: "bus_subs_ok ?b"
    using assms by (intro bus_subs_ok_run) (simp_all add: EventBus_def SubscriptionManager_def)
  then have sok: "subs_ok (subscriptionManager ?b)" by (simp add: bus_subs_ok_def)
  obtain i b1 where sub: "subscribe_bus (Some f) (Some cb) draws ?b = (i, b1)" by fastforce
  note eff = subscribe_effect [OF sok, of f cb draws, unfolded sub]
  have "fst x \<noteq> i" if "x \<in> set (subscriptions (subscriptionManager ?b))" for x
    using imageI [OF that, of fst] eff(2) by auto
  then have "filter (\<lambda>x. fst x \<noteq> i) (subscriptions (subscriptionManager ?b)) = subscriptions (subscriptionManager ?b)"
    by (intro filter_True) blast
  then show ?thesis
    using eff ok sub
    by (simp add: unsubscribe_bus_def removeSubscription_def bus_subs_ok_def subs_ok_def getAllSubscriptions_def
        getSubscriptionCount_def Let_def)
qed

theorem subscriptions_exact_witness:
  "let b = run_steps sub_step (EventBus 10) [Subscribe all_filter (\<lambda>_. True) [1], Unsubscribe ''x''];
      (i, b1) = subscribe_bus (Some all_filter) (Some (\<lambda>_. True)) [2] b;
      (ok, b2) = unsubscribe_bus i b1 in
    ok \<and> getAllSubscriptions (subscriptionManager b2) = getAllSubscriptions (subscriptionManager b)"
  using subscriptions_exact [of "[Subscribe all_filter (\<lambda>_. True) [1], Unsubscribe ''x'']" 10 all_filter "\<lambda>_. True" "[2]"]
  by (simp add: Let_def case_prod_beta del: run_steps.simps)

text \<open>The throttling policy sends at the maximal rate: for one type of event at times that do not
  go back, the first event is sent, two events that are sent are at least the interval apart, and
  an event is held back only less than an interval after one that was sent.\<close>

theorem throttling_rate:
  assumes "sorted (t # ts)"
  shows "let sent = sent_times ty (t # ts) (ThrottlingPolicy w) in
    hd sent = t \<and> sorted_wrt (\<lambda>a b. unat a + unat w \<le> unat b) sent \<and>
    list_all (\<lambda>u. u \<in> set sent \<or> list_ex (\<lambda>s. s \<le> u \<and> unat u < unat s + unat w) sent) (t # ts)"
proof -
  let ?p = "\<lparr>throttle_interval_ms = w, last_sent_time = [ty \<mapsto> t]\<rparr>"
  have sent: "sent_times ty (t # ts) (ThrottlingPolicy w) = t # sent_times ty ts ?p"
    by (simp add: ThrottlingPolicy_def shouldSend_def)
  have "last_sent_time ?p ty = Some t" "sorted ts" "list_all (\<lambda>u. t \<le> u) ts" using assms by (simp_all add: list_all_iff)
  from throttled_sent [OF this] show ?thesis
    unfolding Let_def sent throttled_def by (auto simp: list_all_iff list_ex_iff)
qed

theorem throttling_rate_witness:
  "let sent = sent_times ''t'' [0, 50, 100, 120] (ThrottlingPolicy 100) in
    hd sent = 0 \<and> sorted_wrt (\<lambda>a b. unat a + unat (100 :: u64) \<le> unat b) sent"
  using throttling_rate [of 0 "[50, 100, 120]" "''t''" 100] by (simp add: Let_def)

text \<open>The coalescing policy loses no type of event: after any calls, flushing a type returns the
  last event of that type that was given to it, and nothing for a type that never occurred.\<close>

theorem coalescing_policy_latest:
  "fst (flushEventType ty (coalesce_all xs (CoalescingPolicy w))) =
    (case filter (\<lambda>e. event_type e = ty) (map snd xs) of [] \<Rightarrow> None | es \<Rightarrow> Some (last es))"
  using coalesce_all_pending [of xs "CoalescingPolicy w" ty]
  by (auto simp: flushEventType_def CoalescingPolicy_def split: option.splits list.splits)

end
