(* ===== verification/Data_Adapter.thy ===== *)
theory Data_Adapter
  imports Data_Store Event_Bus
begin

text \<open>
  The adapter between the data store and the event bus, \<^verbatim>\<open>src/src/core/event/adapters/DataStoreEventAdapter.cpp\<close>. The
  adapter is the observer number \<open>self\<close> of the store and a subscriber of the bus. An event that the adapter
  makes carries more than the bus looks at; these fields are recorded in \<open>changes\<close> next to it. The text
  of a double with two decimals is an argument.

  The lemmas show that a result the adapter stores is not published as a change again, and that any other
  change of a watched key is.
\<close>

section \<open>The adapter\<close>

record value_changed =
  vc_key :: string
  vc_newValue :: string
  vc_valueType :: string

record adapter =
  ad_store :: data_store
  ad_bus :: event_bus
  updatingKeys :: "string set"
  subscriptionIds :: "string list"
  changes :: "value_changed list"

definition DataStoreEventAdapter :: "data_store \<Rightarrow> event_bus \<Rightarrow> adapter" where
  "DataStoreEventAdapter s b = \<lparr>ad_store = s, ad_bus = b, updatingKeys = {}, subscriptionIds = [], changes = []\<rparr>"

definition valueToString :: "(u64 \<Rightarrow> string) \<Rightarrow> shared_data \<Rightarrow> string" where
  "valueToString fixed2 d =
    (case sd_value d of
       AnyString x \<Rightarrow> x
     | AnyInt i \<Rightarrow> to_string (sint i)
     | AnyDouble b \<Rightarrow> fixed2 b
     | AnyBool b \<Rightarrow> (if b then ''true'' else ''false'')
     | _ \<Rightarrow> ''<unknown type>'')"

fun dataTypeToString :: "DataType \<Rightarrow> string" where
  "dataTypeToString RobotMode = ''RobotMode''"
| "dataTypeToString InterfaceData = ''InterfaceData''"
| "dataTypeToString Config = ''Config''"
| "dataTypeToString Para = ''Para''"
| "dataTypeToString DataType.Alarm = ''Alarm''"
| "dataTypeToString DataType.Event = ''Event''"
| "dataTypeToString MissionState = ''MissionState''"
| "dataTypeToString TaskState = ''TaskState''"
| "dataTypeToString (OtherType _) = ''Unknown''"

definition isCircularUpdate :: "string \<Rightarrow> adapter \<Rightarrow> bool" where
  "isCircularUpdate key a = (key \<in> updatingKeys a)"

definition markUpdating :: "string \<Rightarrow> adapter \<Rightarrow> adapter" where
  "markUpdating key a = a\<lparr>updatingKeys := insert key (updatingKeys a)\<rparr>"

definition unmarkUpdating :: "string \<Rightarrow> adapter \<Rightarrow> adapter" where
  "unmarkUpdating key a = a\<lparr>updatingKeys := updatingKeys a - {key}\<rparr>"

text \<open>The clock is read for the time of the event, for its id, and when it is published.\<close>

definition onDataChanged :: "(nat \<Rightarrow> time) \<Rightarrow> nat list \<Rightarrow> (u64 \<Rightarrow> string) \<Rightarrow> shared_data \<Rightarrow> adapter \<Rightarrow> adapter" where
  "onDataChanged clock draws fixed2 d a =
    (if isCircularUpdate (sd_id d) a then a
     else
       let e = EventBase DATASTORE_VALUE_CHANGED (sd_id d) (clock 0) (clock 1) draws;
           (published, b) = publish (Some e) (clock 2) (ad_bus a)
       in a\<lparr>ad_bus := b,
            changes := changes a @ [\<lparr>vc_key = sd_id d, vc_newValue = valueToString fixed2 d,
                                     vc_valueType = dataTypeToString (sd_type d)\<rparr>]\<rparr>)"

text \<open>A write to the store, with the callbacks of the adapter that it makes.\<close>

definition adapter_set ::
  "store_env \<Rightarrow> (nat \<Rightarrow> time) \<Rightarrow> nat list \<Rightarrow> (u64 \<Rightarrow> string) \<Rightarrow> nat \<Rightarrow> string \<Rightarrow> any_value \<Rightarrow> DataType \<Rightarrow> data_policy \<Rightarrow>
    adapter \<Rightarrow> adapter \<times> store_error option" where
  "adapter_set env clock draws fixed2 self key v ty pol a =
    (let (s, r) = set_data env key v ty pol (ad_store a);
         told = filter (\<lambda>c. fst c = self) (drop (length (notified (ad_store a))) (notified s))
     in (fold (\<lambda>c. onDataChanged clock draws fixed2 (snd c)) told (a\<lparr>ad_store := s\<rparr>), r))"

text \<open>The callbacks of the two subscriptions; what \<^verbatim>\<open>set\<close> throws is caught and logged.\<close>

definition store_result ::
  "store_env \<Rightarrow> (nat \<Rightarrow> time) \<Rightarrow> nat list \<Rightarrow> (u64 \<Rightarrow> string) \<Rightarrow> nat \<Rightarrow> string \<Rightarrow> string \<Rightarrow> adapter \<Rightarrow> adapter" where
  "store_result env clock draws fixed2 self key text a =
    unmarkUpdating key
      (fst (adapter_set env clock draws fixed2 self key (AnyString text) TaskState no_policy (markUpdating key a)))"

definition action_completed ::
  "store_env \<Rightarrow> (nat \<Rightarrow> time) \<Rightarrow> nat list \<Rightarrow> (u64 \<Rightarrow> string) \<Rightarrow> nat \<Rightarrow> string \<Rightarrow> string \<Rightarrow> int \<Rightarrow> adapter \<Rightarrow> adapter" where
  "action_completed env clock draws fixed2 self keyPrefix actionId durationMs a =
    store_result env clock draws fixed2 self (keyPrefix @ actionId) (''completed:'' @ to_string durationMs @ ''ms'') a"

definition sequence_completed ::
  "store_env \<Rightarrow> (nat \<Rightarrow> time) \<Rightarrow> nat list \<Rightarrow> (u64 \<Rightarrow> string) \<Rightarrow> nat \<Rightarrow> string \<Rightarrow> string \<Rightarrow> int \<Rightarrow> int \<Rightarrow> int \<Rightarrow>
    adapter \<Rightarrow> adapter" where
  "sequence_completed env clock draws fixed2 self keyPrefix sequenceId completedSteps totalSteps durationMs a =
    store_result env clock draws fixed2 self (keyPrefix @ sequenceId)
      (''completed:'' @ to_string completedSteps @ ''/'' @ to_string totalSteps @ '' ('' @ to_string durationMs @ ''ms)'') a"

definition subscribeToActionResults :: "nat list \<Rightarrow> adapter \<Rightarrow> adapter" where
  "subscribeToActionResults draws a =
    (let (i, b) = subscribe_bus (Some (byType ACTION_COMPLETED)) (Some (\<lambda>_. True)) draws (ad_bus a)
     in a\<lparr>ad_bus := b, subscriptionIds := subscriptionIds a @ [i]\<rparr>)"

definition subscribeToSequenceResults :: "nat list \<Rightarrow> adapter \<Rightarrow> adapter" where
  "subscribeToSequenceResults draws a =
    (let (i, b) = subscribe_bus (Some (byType SEQUENCE_COMPLETED)) (Some (\<lambda>_. True)) draws (ad_bus a)
     in a\<lparr>ad_bus := b, subscriptionIds := subscriptionIds a @ [i]\<rparr>)"

definition startWatching :: "nat \<Rightarrow> string \<Rightarrow> adapter \<Rightarrow> adapter" where
  "startWatching self keyPattern a = a\<lparr>ad_store := subscribe_data keyPattern (Some self) (ad_store a)\<rparr>"

definition stopWatching :: "store_env \<Rightarrow> nat \<Rightarrow> string \<Rightarrow> adapter \<Rightarrow> adapter" where
  "stopWatching env self keyPattern a = a\<lparr>ad_store := unsubscribe_data env keyPattern (Some self) (ad_store a)\<rparr>"

definition destroy_adapter :: "adapter \<Rightarrow> event_bus" where
  "destroy_adapter a = fold (\<lambda>i b. snd (unsubscribe_bus i b)) (subscriptionIds a) (ad_bus a)"

section \<open>Lemmas\<close>

text \<open>What a write adds to the calls is about the entry it stores.\<close>

lemma set_notified:
  "notified (fst (set_data env key v ty pol s)) = notified s @
    (if set_mismatch key v ty s \<noteq> None then []
     else case notifiers s key of
            None \<Rightarrow> []
          | Some subs \<Rightarrow> map (\<lambda>w. (w, set_entry env key v ty pol)) (fst (snd (notify env subs))))"
  by (auto simp: set_data_def set_entry_def notifySubscribers_def Let_def case_prod_beta
      split: option.split ExpirationPolicyType.split)

lemma circular_fold:
  "list_all (\<lambda>c. isCircularUpdate (sd_id (snd c)) a) cs \<Longrightarrow> fold (\<lambda>c. onDataChanged clock draws fixed2 (snd c)) cs a = a"
  by (induction cs) (auto simp: onDataChanged_def)

definition change_of :: "(u64 \<Rightarrow> string) \<Rightarrow> shared_data \<Rightarrow> value_changed" where
  "change_of fixed2 d = \<lparr>vc_key = sd_id d, vc_newValue = valueToString fixed2 d, vc_valueType = dataTypeToString (sd_type d)\<rparr>"

lemma published_fold:
  assumes "list_all (\<lambda>c. \<not> isCircularUpdate (sd_id (snd c)) a) cs"
  shows "changes (fold (\<lambda>c. onDataChanged clock draws fixed2 (snd c)) cs a) =
    changes a @ map (\<lambda>c. change_of fixed2 (snd c)) cs"
  using assms
proof (induction cs arbitrary: a)
  case (Cons c cs)
  have "list_all (\<lambda>d. \<not> isCircularUpdate (sd_id (snd d)) (onDataChanged clock draws fixed2 (snd c) a)) cs"
    using Cons.prems by (simp add: onDataChanged_def isCircularUpdate_def Let_def case_prod_beta)
  from Cons.IH [OF this] show ?case
    using Cons.prems by (simp add: onDataChanged_def change_of_def Let_def case_prod_beta)
qed simp

section \<open>Properties\<close>

text \<open>No feedback: when the adapter stores the result of an action, the store gets the result if the types
  agree and stays otherwise, and although the adapter watches the key nothing is published on the bus; the
  mark that prevents it is gone afterwards, on success and on failure.\<close>

theorem adapter_no_feedback:
  "let a' = action_completed env clock draws fixed2 self keyPrefix actionId durationMs a;
       key = keyPrefix @ actionId; v = AnyString (''completed:'' @ to_string durationMs @ ''ms'')
   in ad_bus a' = ad_bus a \<and> changes a' = changes a \<and> updatingKeys a' = updatingKeys a - {key} \<and>
      ad_store a' = fst (set_data env key v TaskState no_policy (ad_store a))"
proof -
  let ?key = "keyPrefix @ actionId" and ?v = "AnyString (''completed:'' @ to_string durationMs @ ''ms'')"
  let ?s = "fst (set_data env ?key ?v TaskState no_policy (ad_store a))" and ?n = "length (notified (ad_store a))"
  let ?a = "(markUpdating ?key a)\<lparr>ad_store := ?s\<rparr>"
  have "list_all (\<lambda>c. isCircularUpdate (sd_id (snd c)) ?a) (filter (\<lambda>c. fst c = self) (drop ?n (notified ?s)))"
    by (auto simp: list_all_iff set_notified isCircularUpdate_def markUpdating_def set_entry_def split: option.splits if_splits)
  note circular_fold [OF this, of clock draws fixed2]
  then show ?thesis
    by (simp add: action_completed_def store_result_def adapter_set_def Let_def case_prod_beta)
      (simp add: markUpdating_def unmarkUpdating_def)
qed

text \<open>Any other write to a key that the adapter watches is published: once for each time the adapter is called, with
  the new value and its data type as text.\<close>

theorem adapter_publishes_changes:
  assumes "set_mismatch key v ty (ad_store a) = None" and "notifiers (ad_store a) key = Some subs" and "key \<notin> updatingKeys a"
    and "list_all (quiet env) subs" and "alive env self"
  shows "changes (fst (adapter_set env clock draws fixed2 self key v ty pol a)) = changes a @
    replicate (count_list subs self)
      \<lparr>vc_key = key, vc_newValue = valueToString fixed2 (set_entry env key v ty pol), vc_valueType = dataTypeToString ty\<rparr>"
proof -
  let ?d = "set_entry env key v ty pol"
  have "list_all (quiet env) (filter (alive env) subs)" using assms(4) by (simp add: list_all_iff)
  then have called: "fst (snd (notify env subs)) = filter (alive env) subs"
    by (simp add: notify_called list_all_iff takeWhile_eq_all_conv [THEN iffD2] dropWhile_eq_Nil_conv [THEN iffD2] Let_def)
  have "filter (\<lambda>c. fst c = self) (map (\<lambda>w. (w, ?d)) (filter (alive env) subs)) = replicate (count_list subs self) (self, ?d)"
    using assms(5) by (induction subs) auto
  then have told: "filter (\<lambda>c. fst c = self) (drop (length (notified (ad_store a)))
      (notified (fst (set_data env key v ty pol (ad_store a))))) = replicate (count_list subs self) (self, ?d)"
    using assms(1,2) by (simp add: set_notified called)
  have "list_all (\<lambda>c. \<not> isCircularUpdate (sd_id (snd c)) (a\<lparr>ad_store := fst (set_data env key v ty pol (ad_store a))\<rparr>))
      (replicate (count_list subs self) (self, ?d))"
    using assms(3) by (simp add: list_all_iff isCircularUpdate_def set_entry_def)
  note published_fold [OF this, of clock draws fixed2]
  then show ?thesis
    by (simp add: adapter_set_def told Let_def case_prod_beta change_of_def) (simp add: set_entry_def)
qed

theorem adapter_publishes_changes_witness:
  "let a = DataStoreEventAdapter (DataStore\<lparr>notifiers := [''speed'' \<mapsto> [1, 4]]\<rparr>) (EventBus 10) in
   map vc_newValue (changes (fst (adapter_set sample_env (\<lambda>n. int n) [] (\<lambda>_. []) 4 ''speed'' (AnyBool True) Config no_policy a))) =
     [''true'']"
  using adapter_publishes_changes [of "''speed''" "AnyBool True" Config
      "DataStoreEventAdapter (DataStore\<lparr>notifiers := [''speed'' \<mapsto> [1, 4]]\<rparr>) (EventBus 10)" "[1, 4]" sample_env 4
      "\<lambda>n. int n" "[]" "\<lambda>_. []" no_policy]
  by (simp add: DataStoreEventAdapter_def DataStore_def set_mismatch_def quiet_def sample_env_def valueToString_def set_entry_def
      Let_def)

end
