(* ===== verification/Action_Core.thy ===== *)
theory Action_Core
  imports Mxrc_Prelude
begin

text \<open>
  Actions: \<^verbatim>\<open>src/src/core/action\<close> without the executor. Statuses and results (\<^verbatim>\<open>dto\<close>), the execution context
  (\<^verbatim>\<open>util/ExecutionContext.h\<close>), the factory and the registry (\<^verbatim>\<open>core\<close>), and the two actions of \<^verbatim>\<open>impl\<close>.

  A \<^verbatim>\<open>std::any\<close> of the context is a \<open>ctx_value\<close>. A progress is the float quotient of two integers, kept as that
  quotient. Both actions are loops that another thread may cancel: one step is one pass, and
  \<^verbatim>\<open>cancel\<close> is a step of its own that may come between.

  The lemmas show what the context and the factory return, that every action ends under every interleaving with
  cancellations, and which cancellations it misses.
\<close>

section \<open>Statuses and results\<close>

datatype ActionStatus = PENDING | RUNNING | COMPLETED | FAILED | CANCELLED | TIMEOUT

fun actionStatusToString :: "ActionStatus \<Rightarrow> string" where
  "actionStatusToString PENDING = ''PENDING''"
| "actionStatusToString RUNNING = ''RUNNING''"
| "actionStatusToString COMPLETED = ''COMPLETED''"
| "actionStatusToString FAILED = ''FAILED''"
| "actionStatusToString CANCELLED = ''CANCELLED''"
| "actionStatusToString TIMEOUT = ''TIMEOUT''"

text \<open>The float nearest to \<open>i / n\<close>.\<close>

datatype progress = Quot int int

record execution_result =
  er_actionId :: string
  er_status :: ActionStatus
  er_progress :: progress
  er_errorMessage :: string
  er_executionTime :: int

definition ExecutionResult :: "string \<Rightarrow> ActionStatus \<Rightarrow> execution_result" where
  "ExecutionResult actionId status =
    \<lparr>er_actionId = actionId, er_status = status, er_progress = Quot 0 1, er_errorMessage = '''', er_executionTime = 0\<rparr>"

definition isSuccessful :: "execution_result \<Rightarrow> bool" where
  "isSuccessful r = (er_status r = COMPLETED)"

definition isFailed :: "execution_result \<Rightarrow> bool" where
  "isFailed r = (er_status r = FAILED \<or> er_status r = TIMEOUT)"

definition isCancelled :: "execution_result \<Rightarrow> bool" where
  "isCancelled r = (er_status r = CANCELLED)"

section \<open>The execution context\<close>

text \<open>The contents of \<^verbatim>\<open>std::any\<close>: doubles and floats by their bits.\<close>

datatype ctx_value =
    CInt int
  | CLong int
  | CDouble u64
  | CFloat u32
  | CBool bool
  | CString string
  | CChars string
  | CResult execution_result
  | COther string

record execution_context =
  variables :: "string \<rightharpoonup> ctx_value"
  actionResults :: "string \<rightharpoonup> ctx_value"

definition ExecutionContext :: execution_context where
  "ExecutionContext = \<lparr>variables = Map.empty, actionResults = Map.empty\<rparr>"

definition setVariable :: "string \<Rightarrow> ctx_value \<Rightarrow> execution_context \<Rightarrow> execution_context" where
  "setVariable key v c = c\<lparr>variables := (variables c)(key \<mapsto> v)\<rparr>"

definition getVariable :: "string \<Rightarrow> execution_context \<Rightarrow> ctx_value option" where
  "getVariable key c = variables c key"

definition hasVariable :: "string \<Rightarrow> execution_context \<Rightarrow> bool" where
  "hasVariable key c = (variables c key \<noteq> None)"

definition setActionResult :: "string \<Rightarrow> ctx_value \<Rightarrow> execution_context \<Rightarrow> execution_context" where
  "setActionResult actionId r c = c\<lparr>actionResults := (actionResults c)(actionId \<mapsto> r)\<rparr>"

definition getActionResult :: "string \<Rightarrow> execution_context \<Rightarrow> ctx_value option" where
  "getActionResult actionId c = actionResults c actionId"

definition clear_context :: "execution_context \<Rightarrow> execution_context" where
  "clear_context c = c\<lparr>variables := Map.empty, actionResults := Map.empty\<rparr>"

definition set_text :: "string \<Rightarrow> string \<Rightarrow> execution_context \<Rightarrow> execution_context" where
  "set_text key v c = setVariable key (CString v) c"

definition get_text :: "string \<Rightarrow> execution_context \<Rightarrow> string" where
  "get_text key c =
    (case getVariable key c of None \<Rightarrow> '''' | Some v \<Rightarrow> (case v of CString x \<Rightarrow> x | _ \<Rightarrow> ''''))"

section \<open>The factory\<close>

text \<open>A factory function gives an action for an id and parameters, or throws (\<open>Inl\<close>).\<close>

type_synonym 'a factory_function = "string \<Rightarrow> (string \<rightharpoonup> string) \<Rightarrow> string + 'a"
type_synonym 'a action_factory = "string \<rightharpoonup> 'a factory_function"

definition registerFactory :: "string \<Rightarrow> 'a factory_function \<Rightarrow> 'a action_factory \<Rightarrow> 'a action_factory" where
  "registerFactory ty f m = m(ty \<mapsto> f)"

definition createAction :: "'a action_factory \<Rightarrow> string \<Rightarrow> (string \<rightharpoonup> string) \<Rightarrow> string + 'a" where
  "createAction m ty parameters =
    (case m ty of
       None \<Rightarrow> Inl (''Unknown Action type: '' @ ty)
     | Some f \<Rightarrow>
         (case parameters ''id'' of
            None \<Rightarrow> Inl (''Action parameters must include '' @ [CHR 0x27] @ ''id'' @ [CHR 0x27])
          | Some i \<Rightarrow> f i parameters))"

definition hasType_factory :: "string \<Rightarrow> 'a action_factory \<Rightarrow> bool" where
  "hasType_factory ty m = (m ty \<noteq> None)"

section \<open>The registry\<close>

record action_definition =
  ad_id :: string
  ad_type :: string
  ad_parameters :: "string \<rightharpoonup> string"
  ad_timeout :: int
  ad_description :: string

definition ActionDefinition :: "string \<Rightarrow> string \<Rightarrow> action_definition" where
  "ActionDefinition i ty = \<lparr>ad_id = i, ad_type = ty, ad_parameters = Map.empty, ad_timeout = 0, ad_description = ''''\<rparr>"

definition addParameter_ad :: "string \<Rightarrow> string \<Rightarrow> action_definition \<Rightarrow> action_definition" where
  "addParameter_ad key v d = d\<lparr>ad_parameters := (ad_parameters d)(key \<mapsto> v)\<rparr>"

definition setTimeout_ad :: "int \<Rightarrow> action_definition \<Rightarrow> action_definition" where
  "setTimeout_ad t d = d\<lparr>ad_timeout := t\<rparr>"

record action_registry =
  ar_definitions :: "string \<rightharpoonup> action_definition"
  typeDescriptions :: "string \<rightharpoonup> string"

definition registerDefinition_ar :: "action_definition \<Rightarrow> action_registry \<Rightarrow> action_registry" where
  "registerDefinition_ar d r = r\<lparr>ar_definitions := (ar_definitions r)(ad_id d \<mapsto> d)\<rparr>"

definition getDefinition_ar :: "string \<Rightarrow> action_registry \<Rightarrow> action_definition option" where
  "getDefinition_ar i r = ar_definitions r i"

definition registerType :: "string \<Rightarrow> string \<Rightarrow> action_registry \<Rightarrow> action_registry" where
  "registerType ty description r = r\<lparr>typeDescriptions := (typeDescriptions r)(ty \<mapsto> description)\<rparr>"

definition hasType_ar :: "string \<Rightarrow> action_registry \<Rightarrow> bool" where
  "hasType_ar ty r = (typeDescriptions r ty \<noteq> None)"

definition hasDefinition_ar :: "string \<Rightarrow> action_registry \<Rightarrow> bool" where
  "hasDefinition_ar i r = (ar_definitions r i \<noteq> None)"

section \<open>The actions\<close>

text \<open>Where the thread that runs \<^verbatim>\<open>execute\<close> is: before it, at the test of the loop, or after it.\<close>

datatype action_pc = Created | Looping nat | Finished

record sim_action =
  sim_status :: ActionStatus
  sim_progress :: progress
  sim_cancelled :: bool
  sim_pc :: action_pc
  sim_context :: execution_context

definition new_sim :: "execution_context \<Rightarrow> sim_action" where
  "new_sim c = \<lparr>sim_status = PENDING, sim_progress = Quot 0 1, sim_cancelled = False, sim_pc = Created, sim_context = c\<rparr>"

definition start_sim :: "sim_action \<Rightarrow> sim_action" where
  "start_sim a = a\<lparr>sim_status := RUNNING, sim_progress := Quot 0 1, sim_cancelled := False, sim_pc := Looping 0\<rparr>"

text \<open>What follows the loop of \<^verbatim>\<open>DelayAction::execute\<close>: the delay is stored as the result in both cases.\<close>

definition finish_delay :: "string \<Rightarrow> int \<Rightarrow> sim_action \<Rightarrow> sim_action" where
  "finish_delay i delay a =
    (let a = (if sim_cancelled a then a\<lparr>sim_status := CANCELLED\<rparr>
              else a\<lparr>sim_status := COMPLETED, sim_progress := Quot 1 1\<rparr>)
     in a\<lparr>sim_context := setActionResult i (CLong delay) (sim_context a), sim_pc := Finished\<rparr>)"

text \<open>The loop test, and one pass if it succeeds.\<close>

definition delay_step :: "string \<Rightarrow> int \<Rightarrow> sim_action \<Rightarrow> sim_action" where
  "delay_step i delay a =
    (case sim_pc a of
       Created \<Rightarrow> start_sim a
     | Looping n \<Rightarrow>
         if n < 10 \<and> \<not> sim_cancelled a then a\<lparr>sim_progress := Quot (int n + 1) 10, sim_pc := Looping (Suc n)\<rparr>
         else finish_delay i delay a
     | Finished \<Rightarrow> a)"

text \<open>\<open>d\<close> is \<^verbatim>\<open>static_cast<int>(distance * 10)\<close>.\<close>

definition move_steps :: "int \<Rightarrow> nat" where
  "move_steps d = nat (if d < 1 then 1 else d)"

record move_target =
  targetX :: u64
  targetY :: u64
  targetZ :: u64

definition finish_move :: "move_target \<Rightarrow> sim_action \<Rightarrow> sim_action" where
  "finish_move t a =
    (if sim_cancelled a then a\<lparr>sim_status := CANCELLED, sim_pc := Finished\<rparr>
     else a\<lparr>sim_status := COMPLETED, sim_progress := Quot 1 1, sim_pc := Finished,
            sim_context := setVariable ''last_position_z'' (CDouble (targetZ t))
              (setVariable ''last_position_y'' (CDouble (targetY t))
                (setVariable ''last_position_x'' (CDouble (targetX t)) (sim_context a)))\<rparr>)"

definition move_step :: "int \<Rightarrow> move_target \<Rightarrow> sim_action \<Rightarrow> sim_action" where
  "move_step d t a =
    (case sim_pc a of
       Created \<Rightarrow> start_sim a
     | Looping n \<Rightarrow>
         if n < move_steps d \<and> \<not> sim_cancelled a
         then a\<lparr>sim_progress := Quot (int n + 1) (int (move_steps d)), sim_pc := Looping (Suc n)\<rparr>
         else finish_move t a
     | Finished \<Rightarrow> a)"

definition cancel_sim :: "sim_action \<Rightarrow> sim_action" where
  "cancel_sim a = a\<lparr>sim_cancelled := True\<rparr>"

datatype sim_op = Run | Cancel

definition sim_step :: "(sim_action \<Rightarrow> sim_action) \<Rightarrow> sim_action \<Rightarrow> sim_op \<Rightarrow> sim_action" where
  "sim_step step a e = (case e of Run \<Rightarrow> step a | Cancel \<Rightarrow> cancel_sim a)"

section \<open>Lemmas\<close>

text \<open>Both actions are loops of this form: \<open>bound\<close> passes, and an end that says whether it was cancelled.\<close>

locale stepped_action =
  fixes step :: "sim_action \<Rightarrow> sim_action" and bound :: nat
  assumes step_created: "sim_pc a = Created \<Longrightarrow> step a = start_sim a"
    and step_loop: "sim_pc a = Looping n \<Longrightarrow> n < bound \<Longrightarrow> \<not> sim_cancelled a \<Longrightarrow>
      sim_pc (step a) = Looping (Suc n) \<and> sim_cancelled (step a) = sim_cancelled a \<and> sim_status (step a) = sim_status a"
    and step_end: "sim_pc a = Looping n \<Longrightarrow> bound \<le> n \<or> sim_cancelled a \<Longrightarrow>
      sim_pc (step a) = Finished \<and> sim_status (step a) = (if sim_cancelled a then CANCELLED else COMPLETED)"
    and step_finished: "sim_pc a = Finished \<Longrightarrow> step a = a"
begin

text \<open>The passes that are left at most.\<close>

definition work_left :: "sim_action \<Rightarrow> nat" where
  "work_left a = (case sim_pc a of Created \<Rightarrow> bound + 2 | Looping n \<Rightarrow> Suc (bound - n) | Finished \<Rightarrow> 0)"

definition sim_ok :: "sim_action \<Rightarrow> bool" where
  "sim_ok a = (sim_pc a = Finished \<longrightarrow> sim_status a \<in> {COMPLETED, CANCELLED})"

lemma work_left_step:
  "work_left (sim_step step a Run) \<le> work_left a - 1" "work_left (sim_step step a Cancel) = work_left a"
proof -
  show "work_left (sim_step step a Run) \<le> work_left a - 1"
  proof (cases "sim_pc a")
    case Created
    then show ?thesis by (simp add: work_left_def sim_step_def step_created start_sim_def)
  next
    case (Looping n)
    then show ?thesis
      using step_loop [OF Looping] step_end [OF Looping] by (cases "n < bound \<and> \<not> sim_cancelled a") (auto simp: work_left_def sim_step_def)
  next
    case Finished
    then show ?thesis by (simp add: work_left_def sim_step_def step_finished)
  qed
qed (simp add: work_left_def sim_step_def cancel_sim_def)

lemma sim_ok_step: "sim_ok a \<Longrightarrow> sim_ok (sim_step step a e)"
proof (cases e)
  case Run
  assume "sim_ok a"
  then show ?thesis
    using step_loop [of a] step_end [of a]
    by (cases "sim_pc a"; cases "sim_cancelled a")
      (force simp: Run sim_ok_def sim_step_def step_created step_finished start_sim_def not_less split: if_splits)+
qed (simp add: sim_ok_def sim_step_def cancel_sim_def)

lemma ends:
  assumes "sim_ok a" and "work_left a \<le> length (filter (\<lambda>e. e = Run) es)"
  shows "sim_pc (run_steps (sim_step step) a es) = Finished \<and>
    sim_status (run_steps (sim_step step) a es) \<in> {COMPLETED, CANCELLED}"
  using assms
proof (induction es arbitrary: a)
  case Nil
  then show ?case by (auto simp: work_left_def sim_ok_def split: action_pc.splits)
next
  case (Cons e es)
  have "work_left (sim_step step a e) \<le> length (filter (\<lambda>e. e = Run) es)"
    using Cons.prems(2) work_left_step [of a] by (cases e) auto
  then show ?case using Cons.IH [OF sim_ok_step [OF Cons.prems(1)]] by simp
qed

lemma not_cancelled:
  assumes "sim_pc a = Looping n" and "\<not> sim_cancelled a" and "k = Suc (bound - n)"
  shows "sim_status (run_steps (sim_step step) a (replicate k Run)) = COMPLETED"
  using assms
proof (induction "bound - n" arbitrary: a n k)
  case 0
  then show ?case using step_end [of a n] by (simp add: sim_step_def)
next
  case (Suc m)
  then have m: "m = bound - Suc n" "n < bound" "k = Suc (Suc (bound - Suc n))" by auto
  have "sim_pc (step a) = Looping (Suc n)" "\<not> sim_cancelled (step a)" using step_loop [OF Suc.prems(1) m(2)] Suc.prems(2) by auto
  from Suc.hyps(1) [OF m(1) this refl] show ?case using m(3) by (simp add: sim_step_def)
qed

text \<open>A cancellation counts from the start of the loop to its last test, and not before.\<close>

lemma early_cancel_lost:
  assumes "sim_pc a = Created"
  shows "sim_status (run_steps (sim_step step) a (Cancel # replicate (bound + 2) Run)) = COMPLETED"
proof -
  have "sim_step step (sim_step step a Cancel) Run = start_sim (cancel_sim a)"
    using step_created [of "cancel_sim a"] assms by (simp add: sim_step_def cancel_sim_def)
  moreover have "sim_status (run_steps (sim_step step) (start_sim (cancel_sim a)) (replicate (Suc bound) Run)) = COMPLETED"
    by (rule not_cancelled [of _ 0]) (simp_all add: start_sim_def)
  ultimately show ?thesis by (simp add: sim_step_def)
qed

lemma cancel_in_loop:
  assumes "sim_pc a = Looping n"
  shows "sim_status (run_steps (sim_step step) a [Cancel, Run]) = CANCELLED"
  using step_end [of "cancel_sim a" n] assms by (simp add: sim_step_def cancel_sim_def)

end

interpretation delay: stepped_action "delay_step i d" 10
  by unfold_locales (auto simp: delay_step_def finish_delay_def Let_def)

interpretation move: stepped_action "move_step d t" "move_steps d"
  by unfold_locales (auto simp: move_step_def finish_move_def)

lemma delay_work: "delay.work_left (new_sim c) = 12"
  by (simp add: delay.work_left_def new_sim_def)

lemma move_work: "move.work_left d (new_sim c) = move_steps d + 2"
  by (simp add: move.work_left_def new_sim_def)

section \<open>Properties\<close>

text \<open>C23. The actions end: under every interleaving with cancellations a delay is over after twelve steps of its thread and
  a move after its number of passes and two, completed or cancelled, whatever happens in between.\<close>

theorem actions_terminate:
  "(12 \<le> length (filter (\<lambda>e. e = Run) es) \<longrightarrow>
      sim_status (run_steps (sim_step (delay_step i delay)) (new_sim c) es) \<in> {COMPLETED, CANCELLED}) \<and>
   (move_steps d + 2 \<le> length (filter (\<lambda>e. e = Run) es) \<longrightarrow>
      sim_status (run_steps (sim_step (move_step d t)) (new_sim c) es) \<in> {COMPLETED, CANCELLED})"
proof -
  have ok: "delay.sim_ok (new_sim c)" "move.sim_ok (new_sim c)" by (simp_all add: delay.sim_ok_def move.sim_ok_def new_sim_def)
  show ?thesis using delay.ends [OF ok(1)] move.ends [OF ok(2)] by (simp add: delay_work move_work)
qed

theorem actions_terminate_witness:
  "sim_status (run_steps (sim_step (delay_step ''a'' 100)) (new_sim ExecutionContext) (replicate 12 Run @ [Cancel])) \<in>
     {COMPLETED, CANCELLED}"
  using actions_terminate [of "replicate 12 Run @ [Cancel]" "''a''" 100 ExecutionContext] by simp

text \<open>A cancellation that comes before the thread of the action has begun is lost: starting resets the flag, and
  the delay or the move runs to its end as completed. Once the loop has begun, the next
  test sees it.\<close>

theorem early_cancel_is_lost:
  "sim_status (run_steps (sim_step (delay_step i delay)) (new_sim c) (Cancel # replicate 12 Run)) = COMPLETED \<and>
   sim_status (run_steps (sim_step (move_step d t)) (new_sim c) (Cancel # replicate (move_steps d + 2) Run)) = COMPLETED \<and>
   sim_status (run_steps (sim_step (delay_step i delay)) (new_sim c) [Run, Cancel, Run]) = CANCELLED \<and>
   sim_status (run_steps (sim_step (move_step d t)) (new_sim c) [Run, Cancel, Run]) = CANCELLED"
proof -
  have new: "sim_pc (new_sim c) = Created" and start: "sim_pc (start_sim (new_sim c)) = Looping 0"
    by (simp_all add: new_sim_def start_sim_def)
  have "sim_step (delay_step i delay) (new_sim c) Run = start_sim (new_sim c)"
    "sim_step (move_step d t) (new_sim c) Run = start_sim (new_sim c)"
    using new by (simp_all add: sim_step_def delay.step_created move.step_created)
  then show ?thesis
    using delay.early_cancel_lost [OF new, of i delay] move.early_cancel_lost [OF new, of d t]
      delay.cancel_in_loop [OF start, of i delay] move.cancel_in_loop [OF start, of d t]
    by (simp add: numeral_eq_Suc)
qed

end
