(* ===== verification/Sequence_Conditions.thy ===== *)
theory Sequence_Conditions
  imports Action_Core "HOL-Library.Sublist"
begin

text \<open>
  What sequences are made of, \<^verbatim>\<open>src/src/core/sequence\<close>: the definitions and the retry policy of \<^verbatim>\<open>dto\<close>, and the
  condition evaluator, the retry handler and the registry of \<^verbatim>\<open>core\<close>.

  The conversions between text and floating-point numbers are arguments (\<open>num_lib\<close>): the printed form of doubles and floats,
  which strings \<^verbatim>\<open>istream\<close> reads as a whole number, what \<^verbatim>\<open>std::stod\<close> makes of them (\<open>None\<close> where it throws), and the
  absolute difference of two doubles. Strings are compared as bytes.

  The lemmas show how a condition is taken apart, and that a variable or a literal on its left side is
  compared with the literal on its right side.
\<close>

section \<open>Definitions\<close>

record action_step =
  as_actionId :: string
  as_actionType :: string
  as_parameters :: "string \<rightharpoonup> string"
  as_timeout :: int

definition ActionStep :: "string \<Rightarrow> string \<Rightarrow> action_step" where
  "ActionStep i ty = \<lparr>as_actionId = i, as_actionType = ty, as_parameters = Map.empty, as_timeout = 0\<rparr>"

definition addParameter :: "string \<Rightarrow> string \<Rightarrow> action_step \<Rightarrow> action_step" where
  "addParameter key v st = st\<lparr>as_parameters := (as_parameters st)(key \<mapsto> v)\<rparr>"

definition setTimeout_step :: "int \<Rightarrow> action_step \<Rightarrow> action_step" where
  "setTimeout_step t st = st\<lparr>as_timeout := t\<rparr>"

record retry_policy =
  maxRetries :: int
  retryDelay :: int
  exponentialBackoff :: bool
  backoffMultiplier :: u64

definition RetryPolicy :: "int \<Rightarrow> int \<Rightarrow> retry_policy" where
  "RetryPolicy retries delay =
    \<lparr>maxRetries = retries, retryDelay = delay, exponentialBackoff = False, backoffMultiplier = 0x4000000000000000\<rparr>"

definition setMaxRetries :: "int \<Rightarrow> retry_policy \<Rightarrow> retry_policy" where
  "setMaxRetries n p = p\<lparr>maxRetries := n\<rparr>"

definition setRetryDelay :: "int \<Rightarrow> retry_policy \<Rightarrow> retry_policy" where
  "setRetryDelay d p = p\<lparr>retryDelay := d\<rparr>"

definition setExponentialBackoff :: "bool \<Rightarrow> u64 \<Rightarrow> retry_policy \<Rightarrow> retry_policy" where
  "setExponentialBackoff enabled multiplier p = p\<lparr>exponentialBackoff := enabled, backoffMultiplier := multiplier\<rparr>"

text \<open>\<open>scaled d m n\<close> is the double \<open>d * m\<close> to the power \<open>n\<close>, cut to an integer.\<close>

definition calculateDelay :: "(int \<Rightarrow> u64 \<Rightarrow> int \<Rightarrow> int) \<Rightarrow> int \<Rightarrow> retry_policy \<Rightarrow> int" where
  "calculateDelay scaled n p =
    (if \<not> exponentialBackoff p then retryDelay p else scaled (retryDelay p) (backoffMultiplier p) n)"

definition canRetry :: "retry_policy \<Rightarrow> int \<Rightarrow> bool" where
  "canRetry p n = (n < maxRetries p)"

text \<open>How long the thread sleeps.\<close>

definition waitBeforeRetry :: "(int \<Rightarrow> u64 \<Rightarrow> int \<Rightarrow> int) \<Rightarrow> retry_policy \<Rightarrow> int \<Rightarrow> int" where
  "waitBeforeRetry scaled p n = (let d = calculateDelay scaled n p in if 0 < d then d else 0)"

record conditional_branch =
  cb_condition :: string
  trueActions :: "string list"
  falseActions :: "string list"

definition ConditionalBranch :: "string \<Rightarrow> conditional_branch" where
  "ConditionalBranch cond = \<lparr>cb_condition = cond, trueActions = [], falseActions = []\<rparr>"

definition addTrueAction :: "string \<Rightarrow> conditional_branch \<Rightarrow> conditional_branch" where
  "addTrueAction i b = b\<lparr>trueActions := trueActions b @ [i]\<rparr>"

definition addFalseAction :: "string \<Rightarrow> conditional_branch \<Rightarrow> conditional_branch" where
  "addFalseAction i b = b\<lparr>falseActions := falseActions b @ [i]\<rparr>"

record sequence_definition =
  sq_id :: string
  sq_name :: string
  sq_description :: string
  sq_steps :: "action_step list"
  sq_timeout :: int
  conditionalBranches :: "string \<rightharpoonup> conditional_branch"
  retryPolicy :: "retry_policy option"

definition SequenceDefinition :: "string \<Rightarrow> string \<Rightarrow> sequence_definition" where
  "SequenceDefinition i name =
    \<lparr>sq_id = i, sq_name = (if name = '''' then i else name), sq_description = '''', sq_steps = [], sq_timeout = 0,
     conditionalBranches = Map.empty, retryPolicy = None\<rparr>"

definition addStep :: "action_step \<Rightarrow> sequence_definition \<Rightarrow> sequence_definition" where
  "addStep st d = d\<lparr>sq_steps := sq_steps d @ [st]\<rparr>"

definition setTimeout_seq :: "int \<Rightarrow> sequence_definition \<Rightarrow> sequence_definition" where
  "setTimeout_seq t d = d\<lparr>sq_timeout := t\<rparr>"

definition addConditionalBranch :: "string \<Rightarrow> conditional_branch \<Rightarrow> sequence_definition \<Rightarrow> sequence_definition" where
  "addConditionalBranch i b d = d\<lparr>conditionalBranches := (conditionalBranches d)(i \<mapsto> b)\<rparr>"

definition setRetryPolicy :: "retry_policy \<Rightarrow> sequence_definition \<Rightarrow> sequence_definition" where
  "setRetryPolicy p d = d\<lparr>retryPolicy := Some p\<rparr>"

section \<open>The registry\<close>

type_synonym sequence_registry = "string \<rightharpoonup> sequence_definition"

definition registerDefinition_sr :: "sequence_definition \<Rightarrow> sequence_registry \<Rightarrow> sequence_registry" where
  "registerDefinition_sr d m = m(sq_id d \<mapsto> d)"

definition getDefinition_sr :: "string \<Rightarrow> sequence_registry \<Rightarrow> sequence_definition option" where
  "getDefinition_sr i m = m i"

definition hasDefinition_sr :: "string \<Rightarrow> sequence_registry \<Rightarrow> bool" where
  "hasDefinition_sr i m = (m i \<noteq> None)"

definition removeDefinition_sr :: "string \<Rightarrow> sequence_registry \<Rightarrow> bool \<times> sequence_registry" where
  "removeDefinition_sr i m = (if m i = None then (False, m) else (True, m(i := None)))"

definition clear_sr :: "sequence_registry \<Rightarrow> sequence_registry" where
  "clear_sr m = Map.empty"

section \<open>Conditions\<close>

record num_lib =
  print_double :: "u64 \<Rightarrow> string"
  print_float :: "u32 \<Rightarrow> string"
  isNumber :: "string \<Rightarrow> bool"
  stod :: "string \<Rightarrow> u64 option"
  abs_diff :: "u64 \<Rightarrow> u64 \<Rightarrow> u64"

definition whitespace :: "char \<Rightarrow> bool" where
  "whitespace c = (c \<in> {CHR '' '', CHR 0x09, CHR 0x0A, CHR 0x0D})"

definition trim :: "string \<Rightarrow> string" where
  "trim s = rev (dropWhile whitespace (rev (dropWhile whitespace s)))"

text \<open>The position of the first occurrence, \<^verbatim>\<open>std::string::find\<close>.\<close>

fun find_str :: "string \<Rightarrow> string \<Rightarrow> nat option" where
  "find_str pat s =
    (if prefix pat s then Some 0
     else case s of [] \<Rightarrow> None | c # s \<Rightarrow> map_option Suc (find_str pat s))"

declare find_str.simps [simp del]

text \<open>The first operator of the list that occurs at all, with the position of its first occurrence.\<close>

fun find_op :: "string list \<Rightarrow> string \<Rightarrow> (string \<times> nat) option" where
  "find_op [] s = None"
| "find_op (p # ps) s = (case find_str p s of Some n \<Rightarrow> Some (p, n) | None \<Rightarrow> find_op ps s)"

definition operators :: "string list" where
  "operators = [''=='', ''!='', ''>='', ''<='', ''>'', ''<'']"

definition getVariableAsString :: "num_lib \<Rightarrow> string \<Rightarrow> execution_context \<Rightarrow> string" where
  "getVariableAsString N name c =
    (case getVariable name c of
       None \<Rightarrow> name
     | Some v \<Rightarrow>
         (case v of
            CInt i \<Rightarrow> to_string i
          | CLong i \<Rightarrow> to_string i
          | CDouble d \<Rightarrow> print_double N d
          | CFloat f \<Rightarrow> print_float N f
          | CBool b \<Rightarrow> (if b then ''true'' else ''false'')
          | CString s \<Rightarrow> s
          | CChars s \<Rightarrow> s
          | _ \<Rightarrow> name))"

text \<open>Strings are compared by the codes of their characters.\<close>

fun string_less :: "string \<Rightarrow> string \<Rightarrow> bool" where
  "string_less s [] = False"
| "string_less [] (d # t) = True"
| "string_less (c # s) (d # t) = (of_char c < (of_char d :: nat) \<or> c = d \<and> string_less s t)"

definition compareStrings :: "string \<Rightarrow> string \<Rightarrow> string \<Rightarrow> bool" where
  "compareStrings l op r =
    (if op = ''=='' then l = r
     else if op = ''!='' then l \<noteq> r
     else if op = ''>'' then string_less r l
     else if op = ''<'' then string_less l r
     else if op = ''>='' then \<not> string_less l r
     else if op = ''<='' then \<not> string_less r l
     else False)"

text \<open>The double \<^verbatim>\<open>1e-9\<close>.\<close>

definition epsilon :: u64 where
  "epsilon = 0x3E112E0BE826D695"

definition compareNumbers :: "num_lib \<Rightarrow> string \<Rightarrow> string \<Rightarrow> string \<Rightarrow> bool option" where
  "compareNumbers N l op r =
    (case (stod N l, stod N r) of
       (Some a, Some b) \<Rightarrow>
         Some (if op = ''=='' then double_less (abs_diff N a b) epsilon
               else if op = ''!='' then double_le epsilon (abs_diff N a b)
               else if op = ''>'' then double_less b a
               else if op = ''<'' then double_less a b
               else if op = ''>='' then double_le b a
               else if op = ''<='' then double_le a b
               else False)
     | _ \<Rightarrow> None)"

definition compare :: "num_lib \<Rightarrow> string \<Rightarrow> string \<Rightarrow> string \<Rightarrow> bool option" where
  "compare N l op r =
    (if isNumber N l \<and> isNumber N r then compareNumbers N l op r else Some (compareStrings l op r))"

definition evaluate :: "num_lib \<Rightarrow> string \<Rightarrow> execution_context \<Rightarrow> bool option" where
  "evaluate N expression c =
    (let expr = trim expression in
     case find_op operators expr of
       None \<Rightarrow> None
     | Some (op, n) \<Rightarrow>
         let left = trim (take n expr);
             right = trim (drop (n + length op) expr)
         in compare N (getVariableAsString N left c) op right)"

section \<open>Lemmas\<close>

text \<open>A word is not empty and has no white space at its ends and no operator character.\<close>

definition op_char :: "char \<Rightarrow> bool" where
  "op_char c = (c \<in> set ''=!<>'')"

definition plain_word :: "string \<Rightarrow> bool" where
  "plain_word s = (s \<noteq> [] \<and> \<not> whitespace (hd s) \<and> \<not> whitespace (last s) \<and> list_all (\<lambda>c. \<not> op_char c) s)"

lemma trim_padded:
  assumes "list_all whitespace a" and "list_all whitespace b" and "s \<noteq> []" and "\<not> whitespace (hd s)" and "\<not> whitespace (last s)"
  shows "trim (a @ s @ b) = s"
proof -
  have "dropWhile whitespace (a @ s @ b) = s @ b"
    using assms(1,3,4) by (cases s) (auto simp: list_all_iff dropWhile_append)
  moreover have "dropWhile whitespace (rev (s @ b)) = rev s"
    using assms(2,3,5) by (cases s rule: rev_cases) (auto simp: list_all_iff dropWhile_append)
  ultimately show ?thesis by (simp add: trim_def)
qed

lemma find_str_skip:
  assumes "list_all (\<lambda>c. \<not> op_char c) l" and "p \<noteq> []" and "op_char (hd p)"
  shows "find_str p (l @ s) = map_option ((+) (length l)) (find_str p s)"
  using assms
proof (induction l)
  case Nil
  show ?case by (cases "find_str p s") simp_all
next
  case (Cons c l)
  have "\<not> prefix p (c # l @ s)" using Cons.prems by (cases p) auto
  then show ?case using Cons by (simp add: find_str.simps [of p "c # l @ s"] option.map_comp comp_def)
qed

lemma find_str_none:
  assumes "list_all (\<lambda>c. \<not> op_char c) s" and "p \<noteq> []" and "op_char (hd p)"
  shows "find_str p s = None"
  using find_str_skip [OF assms, of "[]"] assms(2) by (simp add: find_str.simps [of p "[]"])

lemma operators_start: "p \<in> set operators \<Longrightarrow> p \<noteq> [] \<and> op_char (hd p)"
  by (auto simp: operators_def op_char_def)

lemma find_op_skip:
  assumes "list_all (\<lambda>c. \<not> op_char c) l" and "set ps \<subseteq> set operators"
  shows "find_op ps (l @ s) = map_option (\<lambda>(p, n). (p, length l + n)) (find_op ps s)"
  using assms by (induction ps) (auto simp: find_str_skip operators_start split: option.split)

lemma find_op_here:
  assumes "op \<in> set operators" and "list_all (\<lambda>c. \<not> op_char c) s"
  shows "find_op operators (op @ s) = Some (op, 0)"
proof -
  have none: "find_str p s = None" if "p \<in> set operators" for p
    using find_str_none [OF assms(2)] operators_start [OF that] by simp
  have no: "\<not> prefix [x] s" if "op_char x" for x
    using that assms(2) by (cases s) auto
  have eq: "\<not> prefix ''='' s" by (rule no) (simp add: op_char_def)
  have "find_str p (c # s) = (if prefix p (c # s) then Some 0 else None)" if "p \<in> set operators" for p c
    using none [OF that] by (simp add: find_str.simps [of p "c # s"])
  moreover have "find_str p (c # d # s) = (if prefix p (c # d # s) then Some 0 else if prefix p (d # s) then Some 1 else None)"
    if "p \<in> set operators" for p c d
    using none [OF that] by (simp add: find_str.simps [of p "c # d # s"] find_str.simps [of p "d # s"])
  ultimately show ?thesis
    using assms(1) eq by (auto simp: operators_def)
qed

lemma evaluate_words:
  assumes "op \<in> set operators" and "plain_word l" and "plain_word r"
    and "list_all whitespace (a @ b @ e @ d)"
  shows "evaluate N (a @ l @ b @ op @ e @ r @ d) c = compare N (getVariableAsString N l c) op r"
proof -
  let ?x = "l @ b @ op @ e @ r"
  have ws: "list_all whitespace a" "list_all whitespace b" "list_all whitespace e" "list_all whitespace d"
    using assms(4) by auto
  have not_op: "\<not> op_char c" if "whitespace c" for c using that by (auto simp: whitespace_def op_char_def)
  have l: "l \<noteq> []" "\<not> whitespace (hd l)" "\<not> whitespace (last l)" "list_all (\<lambda>c. \<not> op_char c) l"
    and r: "r \<noteq> []" "\<not> whitespace (hd r)" "\<not> whitespace (last r)" "list_all (\<lambda>c. \<not> op_char c) r"
    using assms(2,3) by (simp_all add: plain_word_def)
  have "trim (a @ ?x @ d) = ?x" using ws(1,4) l r by (intro trim_padded) auto
  moreover have "find_op operators ((l @ b) @ op @ e @ r) = Some (op, length (l @ b))"
  proof -
    have "list_all (\<lambda>c. \<not> op_char c) (l @ b)" "list_all (\<lambda>c. \<not> op_char c) (e @ r)"
      using l(4) r(4) ws(2,3) not_op by (auto simp: list_all_iff)
    then show ?thesis
      using find_op_skip [of "l @ b" operators "op @ e @ r"] find_op_here [OF assms(1), of "e @ r"] by simp
  qed
  moreover have "trim (l @ b) = l" using trim_padded [of "[]" b l] ws(2) l by simp
  moreover have "trim (e @ r) = r" using trim_padded [of e "[]" r] ws(3) r by simp
  ultimately show ?thesis by (simp add: evaluate_def Let_def)
qed

section \<open>Properties\<close>

text \<open>A condition of the form \<open>word operator word\<close>, with any white space around, compares the value of the
  variable named by the left word, or the left word itself if there is no such variable, with the right
  word: as numbers if both are numbers, as strings otherwise.\<close>

theorem evaluate_condition:
  assumes "op \<in> set operators" and "plain_word l" and "plain_word r"
    and "list_all whitespace (a @ b @ e @ d)"
  shows "evaluate N (a @ l @ b @ op @ e @ r @ d) c = compare N (getVariableAsString N l c) op r"
  using assms by (rule evaluate_words)

definition plain_num_lib :: num_lib where
  "plain_num_lib = \<lparr>print_double = (\<lambda>_. ''''), print_float = (\<lambda>_. ''''), isNumber = (\<lambda>_. False), stod = (\<lambda>_. None), abs_diff = (\<lambda>a b. a - b)\<rparr>"

theorem evaluate_condition_witness:
  "evaluate plain_num_lib (''mode'' @ '' '' @ ''=='' @ '' '' @ ''AUTO'')
     (setVariable ''mode'' (CString ''AUTO'') ExecutionContext) = Some True"
  using evaluate_condition [of "''==''" "''mode''" "''AUTO''" "[]" "'' ''" "'' ''" "[]" plain_num_lib
      "setVariable ''mode'' (CString ''AUTO'') ExecutionContext"]
  by (simp add: operators_def plain_word_def whitespace_def op_char_def compare_def compareStrings_def plain_num_lib_def
      getVariableAsString_def getVariable_def setVariable_def)

text \<open>The condition \<^verbatim>\<open>result.status == COMPLETED\<close> of the documentation looks at no result: results are not variables, and
  without a variable of that name the text itself is compared.\<close>

theorem documented_condition_false:
  assumes "getVariable ''result.status'' c = None" and "\<not> isNumber N ''result.status''"
  shows "evaluate N (''result.status'' @ '' '' @ ''=='' @ '' '' @ ''COMPLETED'') (setActionResult i (CResult r) c) = Some False"
  using evaluate_words [of "''==''" "''result.status''" "''COMPLETED''" "[]" "'' ''" "'' ''" "[]" N "setActionResult i (CResult r) c"] assms
  by (simp add: operators_def plain_word_def whitespace_def op_char_def compare_def compareStrings_def
      getVariableAsString_def getVariable_def setActionResult_def)

theorem documented_condition_false_witness:
  "evaluate plain_num_lib (''result.status'' @ '' '' @ ''=='' @ '' '' @ ''COMPLETED'')
     (setActionResult ''a'' (CResult (ExecutionResult ''a'' COMPLETED)) ExecutionContext) = Some False"
  using documented_condition_false [of ExecutionContext plain_num_lib "''a''" "ExecutionResult ''a'' COMPLETED"]
  by (simp add: plain_num_lib_def getVariable_def ExecutionContext_def)

end
