(* ===== verification/Action_Executor.thy ===== *)
theory Action_Executor
  imports Action_Core "HOL-Library.Monad_Syntax"
begin

text \<open>
  The action executor, \<^verbatim>\<open>src/src/core/action/core/ActionExecutor.cpp\<close>. Three kinds of threads meet here: callers, one
  thread per launched action (\<open>runner\<close>), and one monitor thread per action with a timeout. A step is a
  section of one of them that runs under \<^verbatim>\<open>actionsMutex_\<close> or between two such sections; a step that cannot go on is
  \<open>None\<close>. What \<^verbatim>\<open>IAction::execute\<close> does is an argument of the step in which it ends.

  Two details of C++ matter. \<^verbatim>\<open>emplace\<close> with a key that exists builds the new node and destroys it, and the destructor
  of a future of \<^verbatim>\<open>std::async\<close> waits for its thread: here with the mutex held (\<open>mutex_holder\<close>). And assigning over a
  \<^verbatim>\<open>std::thread\<close> that was not joined ends the process (\<open>terminated\<close>).

  The lemmas show what a call for a new id returns, that the events match the runs, and what goes wrong when an id is used
  again.
\<close>

section \<open>State\<close>

record exec_state =
  xs_action :: nat
  xs_thread :: nat
  xs_startTime :: time
  xs_cancelRequested :: bool
  xs_shouldStopMonitoring :: bool
  xs_timeoutThread :: "(time \<times> int) option"
  xs_exceptionOccurred :: bool
  xs_exceptionMessage :: string

text \<open>The objects behind the pointers to actions: \<open>ao_cancelled\<close> says that \<^verbatim>\<open>cancel()\<close> was called.\<close>

record action_object =
  ao_id :: string
  ao_type :: string
  ao_status :: ActionStatus
  ao_progress :: progress
  ao_cancelled :: bool

text \<open>A runner is inside \<^verbatim>\<open>execute\<close>, has caught an exception, or has ended (its future is ready).\<close>

datatype runner_pc = Executing | Threw string | Ended

record runner =
  rn_action :: nat
  rn_id :: string
  rn_startTime :: time
  rn_pc :: runner_pc

datatype exec_event =
    ActionStarted string string
  | ActionCompleted string string int
  | ActionFailed string string string int
  | ActionTimeout string int int
  | ActionCancelled string string

record executor =
  runningActions :: "string \<rightharpoonup> exec_state"
  objects :: "action_object list"
  runners :: "runner list"
  mutex_holder :: "nat option"
  terminated :: bool
  exec_events :: "exec_event list"

definition ActionExecutor :: executor where
  "ActionExecutor =
    \<lparr>runningActions = Map.empty, objects = [], runners = [], mutex_holder = None, terminated = False, exec_events = []\<rparr>"

text \<open>A factory makes an object; the pointer to it is its position.\<close>

definition new_object :: "string \<Rightarrow> string \<Rightarrow> executor \<Rightarrow> executor" where
  "new_object i ty x =
    x\<lparr>objects := objects x @ [\<lparr>ao_id = i, ao_type = ty, ao_status = PENDING, ao_progress = Quot 0 1, ao_cancelled = False\<rparr>]\<rparr>"

definition publish_ae :: "exec_event \<Rightarrow> executor \<Rightarrow> executor" where
  "publish_ae e x = x\<lparr>exec_events := exec_events x @ [e]\<rparr>"

definition elapsed_ms :: "time \<Rightarrow> time \<Rightarrow> int" where
  "elapsed_ms now start = tdiv (now - start) 1000000"

section \<open>The sections of \<^verbatim>\<open>executeAsync\<close>\<close>

definition launch :: "nat \<Rightarrow> time \<Rightarrow> executor \<Rightarrow> executor" where
  "launch a now x =
    (let x = publish_ae (ActionStarted (ao_id (objects x ! a)) (ao_type (objects x ! a))) x
     in x\<lparr>runners := runners x @ [\<lparr>rn_action = a, rn_id = ao_id (objects x ! a), rn_startTime = now, rn_pc = Executing\<rparr>]\<rparr>)"

definition new_state :: "runner \<Rightarrow> nat \<Rightarrow> exec_state" where
  "new_state r n =
    \<lparr>xs_action = rn_action r, xs_thread = n, xs_startTime = rn_startTime r, xs_cancelRequested = False,
     xs_shouldStopMonitoring = False, xs_timeoutThread = None, xs_exceptionOccurred = False, xs_exceptionMessage = ''''\<rparr>"

definition register_run :: "nat \<Rightarrow> executor \<Rightarrow> executor option" where
  "register_run n x =
    (if mutex_holder x \<noteq> None then None
     else
       let r = runners x ! n in
       case runningActions x (rn_id r) of
         None \<Rightarrow> Some (x\<lparr>runningActions := (runningActions x)(rn_id r \<mapsto> new_state r n)\<rparr>)
       | Some _ \<Rightarrow> Some (if rn_pc r = Ended then x else x\<lparr>mutex_holder := Some n\<rparr>))"

definition release :: "executor \<Rightarrow> executor option" where
  "release x =
    (case mutex_holder x of
       None \<Rightarrow> None
     | Some n \<Rightarrow> if rn_pc (runners x ! n) = Ended then Some (x\<lparr>mutex_holder := None\<rparr>) else None)"

definition update_state :: "string \<Rightarrow> (exec_state \<Rightarrow> exec_state) \<Rightarrow> executor \<Rightarrow> executor" where
  "update_state i f x = x\<lparr>runningActions := (runningActions x)(i := map_option f (runningActions x i))\<rparr>"

definition start_monitor :: "string \<Rightarrow> time \<Rightarrow> int \<Rightarrow> executor \<Rightarrow> executor option" where
  "start_monitor i start timeout x =
    (if mutex_holder x \<noteq> None then None
     else
       case runningActions x i of
         None \<Rightarrow> Some x
       | Some st \<Rightarrow>
           Some (if xs_timeoutThread st \<noteq> None then x\<lparr>terminated := True\<rparr>
                 else update_state i (\<lambda>st. st\<lparr>xs_timeoutThread := Some (start, timeout)\<rparr>) x))"

section \<open>The threads\<close>

definition set_pc :: "nat \<Rightarrow> runner_pc \<Rightarrow> executor \<Rightarrow> executor" where
  "set_pc n pc x = x\<lparr>runners := (runners x)[n := (runners x ! n)\<lparr>rn_pc := pc\<rparr>]\<rparr>"

definition set_object :: "nat \<Rightarrow> (action_object \<Rightarrow> action_object) \<Rightarrow> executor \<Rightarrow> executor" where
  "set_object a f x = x\<lparr>objects := (objects x)[a := f (objects x ! a)]\<rparr>"

text \<open>\<^verbatim>\<open>execute\<close> returns and leaves the action in some status.\<close>

definition runner_returns :: "nat \<Rightarrow> ActionStatus \<Rightarrow> progress \<Rightarrow> time \<Rightarrow> executor \<Rightarrow> executor" where
  "runner_returns n status p now x =
    (let r = runners x ! n;
         x = set_object (rn_action r) (\<lambda>a. a\<lparr>ao_status := status, ao_progress := p\<rparr>) x;
         x = publish_ae (ActionCompleted (rn_id r) (ao_type (objects x ! (rn_action r))) (elapsed_ms now (rn_startTime r))) x
     in set_pc n Ended x)"

definition runner_throws :: "nat \<Rightarrow> string \<Rightarrow> ActionStatus \<Rightarrow> progress \<Rightarrow> executor \<Rightarrow> executor" where
  "runner_throws n message status p x =
    set_pc n (Threw message) (set_object (rn_action (runners x ! n)) (\<lambda>a. a\<lparr>ao_status := status, ao_progress := p\<rparr>) x)"

definition runner_catches :: "nat \<Rightarrow> string \<Rightarrow> time \<Rightarrow> executor \<Rightarrow> executor option" where
  "runner_catches n message now x =
    (if mutex_holder x \<noteq> None then None
     else
       let r = runners x ! n;
           x = update_state (rn_id r) (\<lambda>st. st\<lparr>xs_exceptionOccurred := True, xs_exceptionMessage := message\<rparr>) x;
           x = publish_ae (ActionFailed (rn_id r) (ao_type (objects x ! (rn_action r))) message (elapsed_ms now (rn_startTime r))) x
       in Some (set_pc n Ended x))"

definition cancel_ae :: "string \<Rightarrow> executor \<Rightarrow> executor option" where
  "cancel_ae i x =
    (if mutex_holder x \<noteq> None then None
     else
       case runningActions x i of
         None \<Rightarrow> Some x
       | Some st \<Rightarrow>
           let x = update_state i (\<lambda>st. st\<lparr>xs_cancelRequested := True\<rparr>) x;
               x = set_object (xs_action st) (\<lambda>a. a\<lparr>ao_cancelled := True\<rparr>) x
           in Some (publish_ae (ActionCancelled i (ao_type (objects x ! (xs_action st)))) x))"

text \<open>One pass of the monitor thread. The flag and the cancellation are set in two sections of the mutex; the call of
  \<^verbatim>\<open>cancel\<close> that follows the first one is a step of its own.\<close>

definition monitor_tick :: "string \<Rightarrow> time \<Rightarrow> executor \<Rightarrow> executor option" where
  "monitor_tick i now x =
    (if mutex_holder x \<noteq> None then None
     else
       case runningActions x i of
         None \<Rightarrow> Some x
       | Some st \<Rightarrow>
           (case xs_timeoutThread st of
              None \<Rightarrow> Some x
            | Some (start, timeout) \<Rightarrow>
                if \<not> xs_shouldStopMonitoring st \<and> timeout < elapsed_ms now start \<and> \<not> xs_cancelRequested st
                then Some (publish_ae (ActionTimeout i timeout (elapsed_ms now start))
                       (update_state i (\<lambda>st. st\<lparr>xs_cancelRequested := True\<rparr>) x))
                else Some x))"

section \<open>Results\<close>

definition ready :: "executor \<Rightarrow> exec_state \<Rightarrow> bool" where
  "ready x st = (rn_pc (runners x ! xs_thread st) = Ended)"

definition isRunning_ae :: "string \<Rightarrow> executor \<Rightarrow> bool" where
  "isRunning_ae i x = (case runningActions x i of None \<Rightarrow> False | Some st \<Rightarrow> \<not> ready x st)"

definition getResult :: "string \<Rightarrow> time \<Rightarrow> executor \<Rightarrow> execution_result" where
  "getResult i now x =
    (case runningActions x i of
       None \<Rightarrow> (ExecutionResult i FAILED)\<lparr>er_errorMessage := ''Action not found''\<rparr>
     | Some st \<Rightarrow>
         let a = objects x ! (xs_action st) in
         if ready x st then
           if xs_exceptionOccurred st then
             (ExecutionResult i FAILED)\<lparr>er_errorMessage := xs_exceptionMessage st, er_progress := ao_progress a,
                er_executionTime := elapsed_ms now (xs_startTime st)\<rparr>
           else
             let r = (ExecutionResult i (ao_status a))\<lparr>er_progress := ao_progress a,
                        er_executionTime := elapsed_ms now (xs_startTime st)\<rparr>
             in if xs_cancelRequested st \<and> er_status r = CANCELLED
                then r\<lparr>er_status := TIMEOUT, er_errorMessage := ''Action exceeded timeout''\<rparr>
                else r
         else (ExecutionResult i RUNNING)\<lparr>er_progress := ao_progress a\<rparr>)"

text \<open>The condition on which \<^verbatim>\<open>waitForCompletion\<close> returns.\<close>

definition wait_over :: "string \<Rightarrow> executor \<Rightarrow> bool" where
  "wait_over i x = (case runningActions x i of None \<Rightarrow> True | Some st \<Rightarrow> ready x st)"

text \<open>The end of \<^verbatim>\<open>execute\<close>: the entry goes.\<close>

definition forget_action :: "string \<Rightarrow> executor \<Rightarrow> executor option" where
  "forget_action i x =
    (if mutex_holder x \<noteq> None then None else Some (x\<lparr>runningActions := (runningActions x)(i := None)\<rparr>))"

definition clearable :: "executor \<Rightarrow> exec_state \<Rightarrow> bool" where
  "clearable x st = (ready x st \<and> ao_status (objects x ! (xs_action st)) \<in> {COMPLETED, FAILED, CANCELLED, TIMEOUT})"

definition clearCompletedActions :: "executor \<Rightarrow> executor option" where
  "clearCompletedActions x =
    (if mutex_holder x \<noteq> None then None
     else Some (x\<lparr>runningActions := (\<lambda>i. case runningActions x i of
                    None \<Rightarrow> None | Some st \<Rightarrow> if clearable x st then None else Some st)\<rparr>))"

section \<open>Steps\<close>

datatype exec_op =
    Create string string
  | Launch nat time
  | Register nat
  | Release
  | StartMonitor string time int
  | Returns nat ActionStatus progress time
  | Throws nat string ActionStatus progress
  | Catches nat time
  | CancelAction string
  | MonitorTick string time
  | Forget string
  | ClearCompleted

fun exec_step :: "executor \<Rightarrow> exec_op \<Rightarrow> executor option" where
  "exec_step x (Create i ty) = Some (new_object i ty x)"
| "exec_step x (Launch a now) = (if a < length (objects x) then Some (launch a now x) else None)"
| "exec_step x (Register n) = (if n < length (runners x) then register_run n x else None)"
| "exec_step x Release = release x"
| "exec_step x (StartMonitor i start timeout) = start_monitor i start timeout x"
| "exec_step x (Returns n status p now) =
    (if n < length (runners x) \<and> rn_pc (runners x ! n) = Executing then Some (runner_returns n status p now x) else None)"
| "exec_step x (Throws n message status p) =
    (if n < length (runners x) \<and> rn_pc (runners x ! n) = Executing then Some (runner_throws n message status p x) else None)"
| "exec_step x (Catches n now) =
    (if n < length (runners x) then
       case rn_pc (runners x ! n) of Threw message \<Rightarrow> runner_catches n message now x | _ \<Rightarrow> None
     else None)"
| "exec_step x (CancelAction i) = cancel_ae i x"
| "exec_step x (MonitorTick i now) = monitor_tick i now x"
| "exec_step x (Forget i) = forget_action i x"
| "exec_step x ClearCompleted = clearCompletedActions x"

fun exec_steps :: "executor \<Rightarrow> exec_op list \<Rightarrow> executor option" where
  "exec_steps x [] = Some x"
| "exec_steps x (e # es) = Option.bind (exec_step x e) (\<lambda>x. exec_steps x es)"

section \<open>One call after another\<close>

text \<open>How a run of an action goes: it returns with a status or throws. \<open>between\<close> are the steps of other threads while it
  runs.\<close>

datatype outcome =
    OReturns ActionStatus progress
  | OThrows string ActionStatus progress

fun finish_run :: "nat \<Rightarrow> outcome \<Rightarrow> time \<Rightarrow> executor \<Rightarrow> executor option" where
  "finish_run n (OReturns status p) now x = exec_step x (Returns n status p now)"
| "finish_run n (OThrows message status p) now x = exec_steps x [Throws n message status p, Catches n now]"

text \<open>\<^verbatim>\<open>executeAsync\<close>: when the id is in use the call waits for the new run, which ends meanwhile.\<close>

definition executeAsync :: "(nat \<Rightarrow> time) \<Rightarrow> nat \<Rightarrow> int \<Rightarrow> outcome \<Rightarrow> executor \<Rightarrow> executor option" where
  "executeAsync clock a timeout out x = do {
     let i = ao_id (objects x ! a);
     let n = length (runners x);
     let x = launch a (clock 0) x;
     x \<leftarrow> register_run n x;
     x \<leftarrow> (if mutex_holder x = Some n then Option.bind (finish_run n out (clock 1) x) release else Some x);
     x \<leftarrow> (if 0 < timeout then start_monitor i (clock 0) timeout x else Some x);
     if terminated x then None else Some x
   }"

text \<open>\<^verbatim>\<open>executeAsync\<close>, \<^verbatim>\<open>waitForCompletion\<close> and \<^verbatim>\<open>getResult\<close> in a row. \<open>None\<close> means that the call never returns.\<close>

definition perform ::
  "(nat \<Rightarrow> time) \<Rightarrow> nat \<Rightarrow> int \<Rightarrow> outcome \<Rightarrow> exec_op list \<Rightarrow> executor \<Rightarrow> (execution_result \<times> executor) option" where
  "perform clock a timeout out between x = do {
     let i = ao_id (objects x ! a);
     let n = length (runners x);
     x \<leftarrow> executeAsync clock a timeout out x;
     x \<leftarrow> (if rn_pc (runners x ! n) = Ended then Some x
          else Option.bind (exec_steps x between) (finish_run n out (clock 1)));
     if wait_over i x then Some (getResult i (clock 2) x, x) else None
   }"

text \<open>\<^verbatim>\<open>execute\<close>: the same, and the entry is forgotten.\<close>

definition execute_ae ::
  "(nat \<Rightarrow> time) \<Rightarrow> nat \<Rightarrow> int \<Rightarrow> outcome \<Rightarrow> exec_op list \<Rightarrow> executor \<Rightarrow> (execution_result \<times> executor) option" where
  "execute_ae clock a timeout out between x = do {
     (r, y) \<leftarrow> perform clock a timeout out between x;
     y \<leftarrow> forget_action (ao_id (objects x ! a)) y;
     Some (r, y)
   }"

section \<open>Lemmas\<close>

lemmas exec_defs = new_object_def launch_def register_run_def release_def start_monitor_def set_pc_def set_object_def update_state_def
  runner_returns_def runner_throws_def runner_catches_def cancel_ae_def monitor_tick_def forget_action_def
  clearCompletedActions_def publish_ae_def Let_def

subsection \<open>Events\<close>

fun is_started :: "exec_event \<Rightarrow> bool" where
  "is_started (ActionStarted _ _) = True"
| "is_started _ = False"

fun is_ended :: "exec_event \<Rightarrow> bool" where
  "is_ended (ActionCompleted _ _ _) = True"
| "is_ended (ActionFailed _ _ _ _) = True"
| "is_ended _ = False"

definition ended_runs :: "executor \<Rightarrow> nat" where
  "ended_runs x = length (filter (\<lambda>r. rn_pc r = Ended) (runners x))"

definition events_ok :: "executor \<Rightarrow> bool" where
  "events_ok x \<longleftrightarrow> length (filter is_started (exec_events x)) = length (runners x) \<and>
     length (filter is_ended (exec_events x)) = ended_runs x"

lemma length_filter_list_update:
  assumes "n < length xs"
  shows "length (filter P (xs[n := y])) + (if P (xs ! n) then 1 else 0) = length (filter P xs) + (if P y then 1 else 0)"
  using assms
proof (induction xs arbitrary: n)
  case (Cons x xs)
  then show ?case using Cons.IH [of "n - 1"] by (cases n) auto
qed simp

lemma events_ok_step:
  assumes "events_ok x" and "exec_step x e = Some y"
  shows "events_ok y"
proof -
  have pc: "length (filter (\<lambda>r. rn_pc r = Ended) ((runners x)[n := (runners x ! n)\<lparr>rn_pc := pc\<rparr>])) =
      ended_runs x + (if pc = Ended then 1 else 0)" if "n < length (runners x)" "rn_pc (runners x ! n) \<noteq> Ended" for n pc
    using that length_filter_list_update [of n "runners x" "\<lambda>r. rn_pc r = Ended"] by (simp add: ended_runs_def)
  show ?thesis
    using assms pc
    by (cases e) (auto simp: events_ok_def ended_runs_def exec_defs split: option.splits if_splits runner_pc.splits)
qed

lemma events_ok_steps: "events_ok x \<Longrightarrow> exec_steps x es = Some y \<Longrightarrow> events_ok y"
  by (induction es arbitrary: x) (auto simp: bind_eq_Some_conv dest: events_ok_step)

subsection \<open>A call that never returns\<close>

definition stuck :: "nat \<Rightarrow> string \<Rightarrow> executor \<Rightarrow> bool" where
  "stuck n m x \<longleftrightarrow> mutex_holder x = Some n \<and> n < length (runners x) \<and> rn_pc (runners x ! n) = Threw m"

lemma stuck_step: "stuck n m x \<Longrightarrow> exec_step x e = Some y \<Longrightarrow> stuck n m y"
  by (cases e) (auto simp: stuck_def exec_defs nth_append nth_list_update split: option.splits if_splits runner_pc.splits)

lemma stuck_steps: "stuck n m x \<Longrightarrow> exec_steps x es = Some y \<Longrightarrow> stuck n m y"
  by (induction es arbitrary: x) (auto simp: bind_eq_Some_conv dest: stuck_step)

subsection \<open>Single calls\<close>

text \<open>The status and the message that a run should give, and the entry and the object that it leaves.\<close>

fun outcome_brief :: "outcome \<Rightarrow> ActionStatus \<times> string" where
  "outcome_brief (OReturns status p) = (status, '''')"
| "outcome_brief (OThrows m status p) = (FAILED, m)"

fun outcome_entry :: "outcome \<Rightarrow> exec_state \<Rightarrow> exec_state" where
  "outcome_entry (OReturns status p) st = st"
| "outcome_entry (OThrows m status p) st = st\<lparr>xs_exceptionOccurred := True, xs_exceptionMessage := m\<rparr>"

fun outcome_object :: "outcome \<Rightarrow> action_object \<Rightarrow> action_object" where
  "outcome_object (OReturns status p) a = a\<lparr>ao_status := status, ao_progress := p\<rparr>"
| "outcome_object (OThrows m status p) a = a\<lparr>ao_status := status, ao_progress := p\<rparr>"

definition brief :: "execution_result \<Rightarrow> ActionStatus \<times> string" where
  "brief r = (er_status r, er_errorMessage r)"

definition idle :: "executor \<Rightarrow> bool" where
  "idle x \<longleftrightarrow> mutex_holder x = None \<and> \<not> terminated x"

definition run_of :: "nat \<Rightarrow> time \<Rightarrow> runner_pc \<Rightarrow> executor \<Rightarrow> runner" where
  "run_of a t pc x = \<lparr>rn_action = a, rn_id = ao_id (objects x ! a), rn_startTime = t, rn_pc = pc\<rparr>"

definition entry_of :: "nat \<Rightarrow> time \<Rightarrow> int \<Rightarrow> executor \<Rightarrow> exec_state" where
  "entry_of a t timeout x =
    (new_state (run_of a t Executing x) (length (runners x)))\<lparr>xs_timeoutThread := if 0 < timeout then Some (t, timeout) else None\<rparr>"

lemma perform_new:
  assumes "idle x" and "a < length (objects x)" and "runningActions x (ao_id (objects x ! a)) = None"
  shows "\<exists>r y. perform clock a timeout out [] x = Some (r, y) \<and> brief r = outcome_brief out \<and> idle y \<and>
    runningActions y = (runningActions x)(ao_id (objects x ! a) \<mapsto> outcome_entry out (entry_of a (clock 0) timeout x)) \<and>
    runners y = runners x @ [run_of a (clock 0) Ended x] \<and> objects y = (objects x)[a := outcome_object out (objects x ! a)]"
  using assms
  by (cases out; cases "0 < timeout")
    (simp_all add: perform_def executeAsync_def idle_def exec_defs new_state_def ready_def wait_over_def getResult_def nth_append
      ExecutionResult_def brief_def entry_of_def run_of_def)

text \<open>A second call with the id of an entry that is still there returns what the first one returned.\<close>

lemma perform_known:
  assumes "idle x" and "a < length (objects x)" and "runningActions x (ao_id (objects x ! a)) = Some st" and "ready x st"
    and "xs_thread st < length (runners x)" and "xs_action st \<noteq> a" and "timeout \<le> 0" and "out = OReturns status p"
  shows "\<exists>y. perform clock a timeout out between x = Some (getResult (ao_id (objects x ! a)) (clock 2) x, y) \<and> idle y \<and>
    runningActions y = runningActions x \<and> runners y = runners x @ [run_of a (clock 0) Ended x] \<and>
    objects y = (objects x)[a := outcome_object out (objects x ! a)]"
  using assms
  by (simp add: perform_def executeAsync_def idle_def exec_defs ready_def wait_over_def getResult_def nth_append run_of_def)

text \<open>If it throws, or if both calls have a timeout, it does not return.\<close>

lemma perform_known_throws:
  assumes "idle x" and "a < length (objects x)" and "runningActions x (ao_id (objects x ! a)) = Some st"
    and "out = OThrows m status p"
  shows "perform clock a timeout out between x = None"
  using assms by (simp add: perform_def executeAsync_def idle_def exec_defs)

lemma perform_known_timeout:
  assumes "idle x" and "a < length (objects x)" and "runningActions x (ao_id (objects x ! a)) = Some st" and "0 < timeout"
    and "xs_timeoutThread st \<noteq> None"
  shows "perform clock a timeout out between x = None"
  using assms by (cases out) (auto simp: perform_def executeAsync_def idle_def exec_defs nth_append)

subsection \<open>Calls for new objects\<close>

text \<open>The status and message that the executor remembers for an id.\<close>

definition known :: "executor \<Rightarrow> string \<rightharpoonup> ActionStatus \<times> string" where
  "known x i = (if runningActions x i = None then None else Some (brief (getResult i 0 x)))"

definition monitored :: "executor \<Rightarrow> string \<Rightarrow> bool" where
  "monitored x i = (case runningActions x i of None \<Rightarrow> False | Some st \<Rightarrow> xs_timeoutThread st \<noteq> None)"

text \<open>Between two calls: no thread is inside the executor, and the entries belong to runs that have ended.\<close>

definition settled :: "executor \<Rightarrow> bool" where
  "settled x \<longleftrightarrow> idle x \<and>
    (\<forall>i st. runningActions x i = Some st \<longrightarrow> xs_thread st < length (runners x) \<and> xs_action st < length (objects x) \<and> ready x st)"

definition perform_created ::
  "(nat \<Rightarrow> time) \<Rightarrow> string \<Rightarrow> string \<Rightarrow> int \<Rightarrow> outcome \<Rightarrow> executor \<Rightarrow> (execution_result \<times> executor) option" where
  "perform_created clock i ty timeout out x = perform clock (length (objects x)) timeout out [] (new_object i ty x)"

lemma settledD:
  assumes "settled x" and "runningActions x i = Some st"
  shows "xs_thread st < length (runners x)" "xs_action st < length (objects x)" "ready x st"
  using assms by (auto simp: settled_def)

lemma settled_new: "settled ActionExecutor"
  by (simp add: settled_def idle_def ActionExecutor_def)

lemma brief_getResult: "brief (getResult i t x) = brief (getResult i 0 x)"
  by (simp add: brief_def getResult_def ExecutionResult_def Let_def split: option.split)

lemma created_new:
  assumes "settled x" and "known x i = None"
  shows "\<exists>r y. perform_created clock i ty timeout out x = Some (r, y) \<and> brief r = outcome_brief out \<and> settled y \<and>
    known y = (known x)(i \<mapsto> outcome_brief out) \<and> (\<forall>k. monitored y k = (if k = i then 0 < timeout else monitored x k))"
proof -
  let ?x = "new_object i ty x" and ?a = "length (objects x)"
  have x: "idle ?x" "?a < length (objects ?x)" "runningActions ?x (ao_id (objects ?x ! ?a)) = None" "ao_id (objects ?x ! ?a) = i"
    using assms by (auto simp: settled_def idle_def new_object_def known_def split: if_splits)
  obtain r y where y: "perform clock ?a timeout out [] ?x = Some (r, y)" "brief r = outcome_brief out" "idle y"
    "runningActions y = (runningActions x)(i \<mapsto> outcome_entry out (entry_of ?a (clock 0) timeout ?x))"
    "runners y = runners x @ [run_of ?a (clock 0) Ended ?x]" "objects y = (objects ?x)[?a := outcome_object out (objects ?x ! ?a)]"
    using perform_new [OF x(1-3), of clock timeout out] x(4) by (auto simp: new_object_def)
  have ready: "ready y st \<and> xs_thread st < length (runners y) \<and> xs_action st < length (objects y)"
    if "runningActions y k = Some st" for k st
  proof (cases "k = i")
    case True
    then show ?thesis
      using that y(4-6) by (cases out) (auto simp: ready_def entry_of_def new_state_def run_of_def new_object_def)
  next
    case False
    then have "runningActions x k = Some st" using that y(4) by simp
    from settledD [OF assms(1) this] show ?thesis using y(5,6) by (simp add: ready_def new_object_def nth_append)
  qed
  have "known y k = ((known x)(i \<mapsto> outcome_brief out)) k" for k
  proof (cases "k = i")
    case True
    then show ?thesis
      using y(4-6) by (cases out) (simp_all add: known_def getResult_def brief_def ready_def entry_of_def new_state_def run_of_def
          new_object_def ExecutionResult_def Let_def)
  next
    case False
    have "objects y ! xs_action st = objects x ! xs_action st" "ready y st = ready x st" if "runningActions x k = Some st" for st
      using settledD [OF assms(1) that] y(5,6) by (simp_all add: ready_def new_object_def nth_append)
    then show ?thesis using False y(4) by (auto simp: known_def getResult_def split: option.split)
  qed
  moreover have "monitored y k = (if k = i then 0 < timeout else monitored x k)" for k
    using y(4) by (cases out) (simp_all add: monitored_def entry_of_def)
  moreover have "settled y" using ready y(3) by (simp add: settled_def)
  ultimately show ?thesis using y(1,2) by (auto simp: perform_created_def)
qed

lemma created_known:
  assumes "settled x" and "known x i = Some b" and "timeout \<le> 0" and "out = OReturns status p"
  shows "\<exists>r y. perform_created clock i ty timeout out x = Some (r, y) \<and> brief r = b \<and> settled y \<and> known y = known x \<and>
    monitored y = monitored x"
proof -
  let ?x = "new_object i ty x" and ?a = "length (objects x)"
  obtain st where st: "runningActions x i = Some st" using assms(2) by (auto simp: known_def split: if_splits)
  have "ready ?x st" "xs_thread st < length (runners ?x)" "xs_action st \<noteq> ?a"
    using settledD [OF assms(1) st] by (simp_all add: ready_def new_object_def)
  moreover have x: "idle ?x" "?a < length (objects ?x)" "runningActions ?x (ao_id (objects ?x ! ?a)) = Some st" "ao_id (objects ?x ! ?a) = i"
    using assms(1) st by (auto simp: settled_def idle_def new_object_def)
  ultimately obtain y where y: "perform clock ?a timeout out [] ?x = Some (getResult i (clock 2) ?x, y)" "idle y"
    "runningActions y = runningActions x" "runners y = runners x @ [run_of ?a (clock 0) Ended ?x]"
    "objects y = (objects ?x)[?a := outcome_object out (objects ?x ! ?a)]"
    using perform_known [OF x(1-3) _ _ _ assms(3,4), of clock "[]"] by (auto simp: new_object_def)
  have same: "objects z ! xs_action st = objects x ! xs_action st \<and> ready z st = ready x st"
    if "runningActions x k = Some st" "z = y \<or> z = ?x" for k st z
    using settledD [OF assms(1) that(1)] that(2) y(4,5) by (auto simp: ready_def new_object_def nth_append)
  have res: "getResult k t z = getResult k t x" if "z = y \<or> z = ?x" for k t z
    using same [OF _ that] that y(3) by (auto simp: getResult_def new_object_def split: option.split)
  have "known y = known x" using res y(3) by (simp add: known_def fun_eq_iff)
  moreover have "brief (getResult i (clock 2) ?x) = b"
    using assms(2) brief_getResult [of i "clock 2"] res by (auto simp: known_def split: if_splits)
  moreover have "settled y"
  proof -
    have "xs_thread st < length (runners y) \<and> xs_action st < length (objects y) \<and> ready y st" if "runningActions y k = Some st" for k st
      using that settledD [OF assms(1), of k st] same [of k st y] y(3-5) by (simp add: new_object_def)
    then show ?thesis using y(2) by (simp add: settled_def)
  qed
  ultimately show ?thesis using y(1,3) by (auto simp: perform_created_def monitored_def fun_eq_iff)
qed

lemma created_known_throws:
  assumes "settled x" and "known x i = Some b" and "out = OThrows m status p"
  shows "perform_created clock i ty timeout out x = None"
  using assms perform_known_throws [of "new_object i ty x" "length (objects x)" _ out]
  by (auto simp: perform_created_def settled_def idle_def new_object_def known_def split: if_splits)

lemma created_known_timeout:
  assumes "settled x" and "monitored x i" and "0 < timeout"
  shows "perform_created clock i ty timeout out x = None"
  using assms perform_known_timeout [of "new_object i ty x" "length (objects x)"]
  by (auto simp: perform_created_def settled_def idle_def new_object_def monitored_def split: option.splits)

section \<open>Properties\<close>

text \<open>C24. Every launched action is announced: under every interleaving there is one start event for each run, and one
  event of completion or failure for each run that has ended.\<close>

theorem events_match_runs:
  assumes "exec_steps ActionExecutor es = Some x"
  shows "length (filter is_started (exec_events x)) = length (runners x) \<and>
    length (filter is_ended (exec_events x)) = length (filter (\<lambda>r. rn_pc r = Ended) (runners x))"
proof -
  have "events_ok ActionExecutor" by (simp add: events_ok_def ended_runs_def ActionExecutor_def)
  then show ?thesis using events_ok_steps [OF _ assms] by (simp add: events_ok_def ended_runs_def)
qed

theorem events_match_runs_witness:
  "\<exists>x. exec_steps ActionExecutor [Create ''a'' ''Move'', Launch 0 0, Register 0, Throws 0 ''e'' RUNNING (Quot 0 1), Catches 0 5] = Some x \<and>
    length (filter is_ended (exec_events x)) = length (filter (\<lambda>r. rn_pc r = Ended) (runners x))"
proof -
  let ?es = "[Create ''a'' ''Move'', Launch 0 0, Register 0, Throws 0 ''e'' RUNNING (Quot 0 1), Catches 0 5]"
  obtain x where x: "exec_steps ActionExecutor ?es = Some x" by (simp add: ActionExecutor_def exec_defs)
  then show ?thesis using events_match_runs [OF x] by (intro exI [of _ x]) (simp del: exec_steps.simps)
qed

text \<open>A call for an id that the executor does not know returns what the action did: the status it ended in, or a failure
  with the message of its exception. The executor remembers it under the id.\<close>

theorem new_action_result:
  assumes "settled x" and "known x i = None"
  shows "\<exists>r y. perform_created clock i ty timeout out x = Some (r, y) \<and> (er_status r, er_errorMessage r) = outcome_brief out \<and>
    settled y \<and> known y = (known x)(i \<mapsto> outcome_brief out)"
  using created_new [OF assms, of clock ty timeout out] by (auto simp: brief_def)

theorem new_action_result_witness:
  "\<exists>r y. perform_created (\<lambda>n. int n) ''a'' ''Move'' 100 (OThrows ''e'' RUNNING (Quot 0 1)) ActionExecutor = Some (r, y) \<and>
    (er_status r, er_errorMessage r) = (FAILED, ''e'') \<and> known y ''a'' = Some (FAILED, ''e'')"
proof -
  have "known ActionExecutor ''a'' = None" by (simp add: known_def ActionExecutor_def)
  from new_action_result [OF settled_new this, of "\<lambda>n. int n" "''Move''" 100 "OThrows ''e'' RUNNING (Quot 0 1)"] show ?thesis
    by auto
qed

text \<open>An id cannot be used again while its entry is there. A second action with that id runs, but the call returns what
  the first one did; if the second one throws the call never returns, and neither does it if both were given a
  timeout.\<close>

theorem reused_id_stale:
  assumes "settled x" and "known x i = Some (status, message)"
  shows "(timeout \<le> 0 \<longrightarrow> (\<exists>r y. perform_created clock i ty timeout (OReturns status' p) x = Some (r, y) \<and>
      (er_status r, er_errorMessage r) = (status, message))) \<and>
    perform_created clock i ty timeout (OThrows m status' p) x = None \<and>
    (monitored x i \<and> 0 < timeout \<longrightarrow> perform_created clock i ty timeout out x = None)"
  using created_known [OF assms, of timeout "OReturns status' p" status' p clock ty]
    created_known_throws [OF assms, of "OThrows m status' p" m status' p clock ty timeout]
    created_known_timeout [OF assms(1), of i timeout clock ty out]
  by (auto simp: brief_def)

theorem reused_id_stale_witness:
  "\<exists>x r y. settled x \<and> known x ''a'' = Some (FAILED, ''e'') \<and>
    perform_created (\<lambda>n. int n) ''a'' ''Move'' 0 (OReturns COMPLETED (Quot 1 1)) x = Some (r, y) \<and> er_status r = FAILED"
proof -
  have "known ActionExecutor ''a'' = None" by (simp add: known_def ActionExecutor_def)
  then obtain x where x: "settled x" "known x ''a'' = Some (FAILED, ''e'')"
    using created_new [OF settled_new, of "''a''" "\<lambda>n. int n" "''Move''" 0 "OThrows ''e'' RUNNING (Quot 0 1)"] by auto
  show ?thesis using reused_id_stale [OF x, of 0 "\<lambda>n. int n" "''Move''" COMPLETED "Quot 1 1" "''e''" "OReturns COMPLETED (Quot 1 1)"] x
    by (intro exI [of _ x]) auto
qed

text \<open>C39. The call that never returns takes the executor with it. When an action whose id is in use throws before its
  registration is over, the registering thread waits for it with the mutex held while it waits for the mutex;
  no step of any thread ever frees it.\<close>

theorem reused_id_deadlock:
  assumes "idle x" and "a < length (objects x)" and "runningActions x (ao_id (objects x ! a)) \<noteq> None"
    and "n = length (runners x)"
  shows "\<exists>y. exec_steps x [Launch a t, Register n, Throws n m status p] = Some y \<and>
    (\<forall>es z. exec_steps y es = Some z \<longrightarrow> mutex_holder z = Some n \<and> rn_pc (runners z ! n) = Threw m)"
proof -
  obtain y where y: "exec_steps x [Launch a t, Register n, Throws n m status p] = Some y" "stuck n m y"
    using assms by (auto simp: idle_def exec_defs stuck_def)
  have "mutex_holder z = Some n \<and> rn_pc (runners z ! n) = Threw m" if "exec_steps y es = Some z" for es z
    using stuck_steps [OF y(2) that] by (simp add: stuck_def)
  with y(1) show ?thesis by blast
qed

theorem reused_id_deadlock_witness:
  "\<exists>x y. exec_steps ActionExecutor [Create ''a'' ''Move'', Launch 0 0, Register 0] = Some x \<and>
    exec_steps x [Launch 0 1, Register 1, Throws 1 ''e'' RUNNING (Quot 0 1)] = Some y \<and> mutex_holder y = Some 1"
proof -
  obtain x where x: "exec_steps ActionExecutor [Create ''a'' ''Move'', Launch 0 0, Register 0] = Some x" "idle x"
    "0 < length (objects x)" "runningActions x (ao_id (objects x ! 0)) \<noteq> None" "1 = length (runners x)"
    by (simp add: ActionExecutor_def exec_defs idle_def)
  from reused_id_deadlock [OF x(2-5), of 1 "''e''" RUNNING "Quot 0 1"] obtain y where
    y: "exec_steps x [Launch 0 1, Register 1, Throws 1 ''e'' RUNNING (Quot 0 1)] = Some y"
    "\<forall>es z. exec_steps y es = Some z \<longrightarrow> mutex_holder z = Some 1 \<and> rn_pc (runners z ! 1) = Threw ''e''" by blast
  then have "mutex_holder y = Some 1" using spec [OF spec [OF y(2)], of "[]" y] by simp
  with x(1) y(1) show ?thesis by blast
qed

text \<open>An action that throws before it is registered does not count as failed: there is no entry yet for the exception, and the
  result has whatever status the action had, with no message.\<close>

theorem early_exception_lost:
  assumes "idle x" and "a < length (objects x)" and "runningActions x (ao_id (objects x ! a)) = None"
    and "n = length (runners x)" and "status \<noteq> CANCELLED"
  shows "\<exists>y. exec_steps x [Launch a t, Throws n m status p, Catches n t', Register n] = Some y \<and>
    wait_over (ao_id (objects x ! a)) y \<and> brief (getResult (ao_id (objects x ! a)) t'' y) = (status, '''')"
  using assms
  by (auto simp: idle_def exec_defs wait_over_def ready_def brief_def getResult_def new_state_def ExecutionResult_def nth_append)

theorem early_exception_lost_witness:
  "\<exists>x y. exec_steps ActionExecutor [Create ''a'' ''Move''] = Some x \<and>
    exec_steps x [Launch 0 0, Throws 0 ''e'' RUNNING (Quot 0 1), Catches 0 1, Register 0] = Some y \<and>
    brief (getResult ''a'' 2 y) = (RUNNING, '''')"
  using early_exception_lost [of "new_object ''a'' ''Move'' ActionExecutor" 0 0 RUNNING 0 "''e''" "Quot 0 1" 1 2]
  by (auto simp: ActionExecutor_def new_object_def idle_def simp del: exec_steps.simps)
    (simp add: ActionExecutor_def new_object_def)

text \<open>A cancelled action is reported as timed out: if \<^verbatim>\<open>cancel\<close> is called while the action runs and the action
  stops as cancelled, the result has the status \<^verbatim>\<open>TIMEOUT\<close>, with or without a timeout.\<close>

theorem cancel_reported_as_timeout:
  assumes "idle x" and "a < length (objects x)" and "i = ao_id (objects x ! a)" and "runningActions x i = None"
  shows "\<exists>r y. perform clock a timeout (OReturns CANCELLED p) [CancelAction i] x = Some (r, y) \<and>
    er_status r = TIMEOUT \<and> er_errorMessage r = ''Action exceeded timeout'' \<and> isFailed r \<and> \<not> isCancelled r"
  using assms
  by (cases "0 < timeout")
    (simp_all add: perform_def executeAsync_def idle_def exec_defs new_state_def ready_def wait_over_def getResult_def nth_append
      ExecutionResult_def isFailed_def isCancelled_def)

theorem cancel_reported_as_timeout_witness:
  "\<exists>r y. perform (\<lambda>n. int n) 0 0 (OReturns CANCELLED (Quot 1 2)) [CancelAction ''a''] (new_object ''a'' ''Move'' ActionExecutor) = Some (r, y) \<and>
    er_status r = TIMEOUT"
  using cancel_reported_as_timeout [of "new_object ''a'' ''Move'' ActionExecutor" 0 "''a''" "\<lambda>n. int n" 0 "Quot 1 2"]
  by (auto simp: ActionExecutor_def new_object_def idle_def)

text \<open>The monitor of an action with a timeout outlives the action: if the entry of a completed action is still there when
  the timeout is over, the action is announced as timed out and cancelled, although its result stays completed.\<close>

theorem timeout_after_completion:
  assumes "idle x" and "a < length (objects x)" and "i = ao_id (objects x ! a)" and "runningActions x i = None"
    and "n = length (runners x)" and "0 < timeout" and "timeout < elapsed_ms t3 t"
  shows "\<exists>y. exec_steps x [Launch a t, Register n, StartMonitor i t timeout, Returns n COMPLETED p t2, MonitorTick i t3, CancelAction i] = Some y \<and>
    er_status (getResult i t4 y) = COMPLETED \<and>
    (\<exists>ms. drop (length (exec_events x) + 2) (exec_events y) = [ActionTimeout i timeout ms, ActionCancelled i (ao_type (objects x ! a))])"
  using assms
  by (auto simp: idle_def exec_defs ready_def getResult_def new_state_def ExecutionResult_def nth_append)

theorem timeout_after_completion_witness:
  "\<exists>y. exec_steps (new_object ''a'' ''Move'' ActionExecutor) [Launch 0 0, Register 0, StartMonitor ''a'' 0 100, Returns 0 COMPLETED (Quot 1 1) 50000000,
      MonitorTick ''a'' 150000000, CancelAction ''a''] = Some y \<and> er_status (getResult ''a'' 200000000 y) = COMPLETED"
  using timeout_after_completion [of "new_object ''a'' ''Move'' ActionExecutor" 0 "''a''" 0 100 150000000 0 "Quot 1 1" 50000000 200000000]
  by (auto simp: ActionExecutor_def new_object_def idle_def elapsed_ms_def simp del: exec_steps.simps)

end
