(* ===== verification/Sequence_Engine.thy ===== *)
theory Sequence_Engine
  imports Sequence_Conditions Action_Executor
begin

text \<open>
  The sequence engine, \<^verbatim>\<open>src/src/core/sequence/core/SequenceEngine.cpp\<close>, on top of an action service: \<^verbatim>\<open>createAction\<close>, \<^verbatim>\<open>executeAsync\<close>,
  \<^verbatim>\<open>waitForCompletion\<close> and \<^verbatim>\<open>getResult\<close> in a row, with the ids of the actions that are cancelled meanwhile. A service that
  does not return is \<open>None\<close>, and so is a sequence that does not.

  Other threads call \<^verbatim>\<open>cancel\<close>, \<^verbatim>\<open>pause\<close> and \<^verbatim>\<open>resume\<close>. Their requests are taken at three places: at the head of the loop over the
  steps, in each round of the loop that waits while the sequence is paused, and while an action runs. The n-th
  place gets the n-th list of requests. \<open>se_calls\<close> and \<open>se_waits\<close> record the actions that were handed to the service and the sleeps
  between attempts.

  The lemmas show what a finished sequence has done under every service and all requests; the locale
  \<open>remembering_service\<close> adds what sequences do on a service that remembers results by id, and its interpretation is the
  executor.
\<close>

section \<open>State\<close>

datatype SequenceStatus = PENDING | RUNNING | COMPLETED | FAILED | CANCELLED | PAUSED | TIMEOUT

fun sequenceStatusToString :: "SequenceStatus \<Rightarrow> string" where
  "sequenceStatusToString PENDING = ''PENDING''"
| "sequenceStatusToString RUNNING = ''RUNNING''"
| "sequenceStatusToString COMPLETED = ''COMPLETED''"
| "sequenceStatusToString FAILED = ''FAILED''"
| "sequenceStatusToString CANCELLED = ''CANCELLED''"
| "sequenceStatusToString PAUSED = ''PAUSED''"
| "sequenceStatusToString TIMEOUT = ''TIMEOUT''"

record sequence_state =
  ss_status :: SequenceStatus
  ss_progress :: progress
  ss_cancelRequested :: bool
  ss_pauseRequested :: bool
  ss_completedSteps :: int
  ss_totalSteps :: int
  ss_currentActionId :: string
  ss_startTime :: time
  ss_lastReportedProgress :: progress

definition SequenceState :: sequence_state where
  "SequenceState =
    \<lparr>ss_status = PENDING, ss_progress = Quot 0 1, ss_cancelRequested = False, ss_pauseRequested = False, ss_completedSteps = 0,
     ss_totalSteps = 0, ss_currentActionId = '''', ss_startTime = 0, ss_lastReportedProgress = Quot 0 1\<rparr>"

record sequence_result =
  sr_sequenceId :: string
  sr_status :: SequenceStatus
  sr_progress :: progress
  sr_errorMessage :: string
  sr_completedSteps :: int
  sr_totalSteps :: int
  sr_executionTime :: int

definition isSuccessful_sr :: "sequence_result \<Rightarrow> bool" where
  "isSuccessful_sr r = (sr_status r = COMPLETED)"

definition isFailed_sr :: "sequence_result \<Rightarrow> bool" where
  "isFailed_sr r = (sr_status r = FAILED \<or> sr_status r = CANCELLED \<or> sr_status r = TIMEOUT)"

datatype seq_event =
    SequenceStarted string string int
  | SequenceCompleted string string int int int
  | SequenceFailed string string string int int int int
  | SequenceCancelled string string int int int
  | StepStarted string string string int int
  | StepCompleted string string string int int

datatype seq_request = RCancel string | RPause string | RResume string

record 'x engine =
  se_states :: "string \<rightharpoonup> sequence_state"
  se_events :: "seq_event list"
  se_context :: execution_context
  se_exec :: 'x
  se_tick :: nat
  se_calls :: "string list"
  se_waits :: "int list"

type_synonym 'x action_service =
  "string list \<Rightarrow> action_step \<Rightarrow> execution_context \<Rightarrow> 'x \<Rightarrow> ((string + execution_result) \<times> execution_context \<times> 'x) option"

definition SequenceEngine :: "'x \<Rightarrow> 'x engine" where
  "SequenceEngine x =
    \<lparr>se_states = Map.empty, se_events = [], se_context = ExecutionContext, se_exec = x, se_tick = 0, se_calls = [], se_waits = []\<rparr>"

definition publish_se :: "seq_event \<Rightarrow> 'x engine \<Rightarrow> 'x engine" where
  "publish_se ev e = e\<lparr>se_events := se_events e @ [ev]\<rparr>"

text \<open>\<^verbatim>\<open>states_[id]\<close>, which is created when it is missing.\<close>

definition getOrCreateState :: "string \<Rightarrow> 'x engine \<Rightarrow> sequence_state" where
  "getOrCreateState sid e = (case se_states e sid of None \<Rightarrow> SequenceState | Some s \<Rightarrow> s)"

definition set_state :: "string \<Rightarrow> (sequence_state \<Rightarrow> sequence_state) \<Rightarrow> 'x engine \<Rightarrow> 'x engine" where
  "set_state sid f e = e\<lparr>se_states := (se_states e)(sid \<mapsto> f (getOrCreateState sid e))\<rparr>"

definition update_known :: "string \<Rightarrow> (sequence_state \<Rightarrow> sequence_state) \<Rightarrow> 'x engine \<Rightarrow> 'x engine" where
  "update_known sid f e = e\<lparr>se_states := (se_states e)(sid := map_option f (se_states e sid))\<rparr>"

section \<open>Requests\<close>

text \<open>\<^verbatim>\<open>cancel\<close> gives the id of the action to cancel in the executor, if there is one.\<close>

definition cancel_se :: "string \<Rightarrow> 'x engine \<Rightarrow> string list \<times> 'x engine" where
  "cancel_se sid e =
    (let actionId = (case se_states e sid of None \<Rightarrow> '''' | Some s \<Rightarrow> ss_currentActionId s);
         e = update_known sid (\<lambda>s. s\<lparr>ss_cancelRequested := True\<rparr>) e
     in (if actionId = '''' then [] else [actionId], e))"

definition pause :: "string \<Rightarrow> 'x engine \<Rightarrow> 'x engine" where
  "pause sid e = update_known sid (\<lambda>s. s\<lparr>ss_pauseRequested := True, ss_status := PAUSED\<rparr>) e"

definition resume :: "string \<Rightarrow> 'x engine \<Rightarrow> 'x engine" where
  "resume sid e = update_known sid (\<lambda>s. s\<lparr>ss_pauseRequested := False, ss_status := RUNNING\<rparr>) e"

definition getStatus :: "string \<Rightarrow> 'x engine \<Rightarrow> SequenceStatus" where
  "getStatus sid e = (case se_states e sid of None \<Rightarrow> PENDING | Some s \<Rightarrow> ss_status s)"

definition getProgress :: "string \<Rightarrow> 'x engine \<Rightarrow> progress" where
  "getProgress sid e = (case se_states e sid of None \<Rightarrow> Quot 0 1 | Some s \<Rightarrow> ss_progress s)"

fun handle_request :: "seq_request \<Rightarrow> 'x engine \<Rightarrow> string list \<times> 'x engine" where
  "handle_request (RCancel sid) e = cancel_se sid e"
| "handle_request (RPause sid) e = ([], pause sid e)"
| "handle_request (RResume sid) e = ([], resume sid e)"

fun handle_requests :: "seq_request list \<Rightarrow> 'x engine \<Rightarrow> string list \<times> 'x engine" where
  "handle_requests [] e = ([], e)"
| "handle_requests (q # qs) e =
    (case handle_request q e of (ids, e) \<Rightarrow> case handle_requests qs e of (ids', e) \<Rightarrow> (ids @ ids', e))"

definition poll :: "(nat \<Rightarrow> seq_request list) \<Rightarrow> 'x engine \<Rightarrow> string list \<times> 'x engine" where
  "poll reqs e = handle_requests (reqs (se_tick e)) (e\<lparr>se_tick := Suc (se_tick e)\<rparr>)"

definition updateProgress :: "string \<Rightarrow> int \<Rightarrow> int \<Rightarrow> 'x engine \<Rightarrow> 'x engine" where
  "updateProgress sid completedSteps totalSteps e =
    (if 0 < totalSteps then set_state sid (\<lambda>s. s\<lparr>ss_progress := Quot completedSteps totalSteps\<rparr>) e else e)"

definition clearCompletedSequences :: "'x engine \<Rightarrow> 'x engine" where
  "clearCompletedSequences e =
    e\<lparr>se_states := (\<lambda>sid. case se_states e sid of
        None \<Rightarrow> None
      | Some s \<Rightarrow> if ss_status s = COMPLETED \<or> ss_status s = FAILED \<or> ss_status s = CANCELLED then None else Some s)\<rparr>"

section \<open>Actions\<close>

definition set_current :: "string \<Rightarrow> string \<Rightarrow> 'x engine \<Rightarrow> 'x engine" where
  "set_current sid actionId e = set_state sid (\<lambda>s. s\<lparr>ss_currentActionId := actionId\<rparr>) e"

definition run_action ::
  "'x action_service \<Rightarrow> (nat \<Rightarrow> seq_request list) \<Rightarrow> string \<Rightarrow> action_step \<Rightarrow> 'x engine \<Rightarrow> ((string + execution_result) \<times> 'x engine) option" where
  "run_action svc reqs sid step e =
    (case poll reqs (set_current sid (as_actionId step) e) of
       (ids, e) \<Rightarrow>
         (case svc ids step (se_context e) (se_exec e) of
            None \<Rightarrow> None
          | Some (r, c, x) \<Rightarrow>
              Some (r, set_current sid '''' (e\<lparr>se_context := c, se_exec := x, 
                se_calls := se_calls e @ (case r of Inl _ \<Rightarrow> [] | Inr _ \<Rightarrow> [as_actionId step])\<rparr>))))"

text \<open>The loop over the attempts: the last result and the number of retries.\<close>

function run_attempts ::
  "'x action_service \<Rightarrow> (int \<Rightarrow> u64 \<Rightarrow> int \<Rightarrow> int) \<Rightarrow> (nat \<Rightarrow> seq_request list) \<Rightarrow> sequence_definition \<Rightarrow> int \<Rightarrow> action_step \<Rightarrow>
     int \<Rightarrow> 'x engine \<Rightarrow> ((string + execution_result) \<times> int \<times> 'x engine) option" where
  "run_attempts svc scaled reqs d i step k e =
    (case run_action svc reqs (sq_id d) step e of
       None \<Rightarrow> None
     | Some (Inl m, e) \<Rightarrow> Some (Inl m, k, e)
     | Some (Inr r, e) \<Rightarrow>
         if isSuccessful r then
           Some (Inr r, k, publish_se (StepCompleted (sq_id d) (as_actionId step) (as_actionType step) i (int (length (sq_steps d)))) e)
         else
           (case retryPolicy d of
              None \<Rightarrow> Some (Inr r, k, e)
            | Some p \<Rightarrow>
                if canRetry p k
                then run_attempts svc scaled reqs d i step (k + 1) (e\<lparr>se_waits := se_waits e @ [waitBeforeRetry scaled p k]\<rparr>)
                else Some (Inr r, k, e)))"
  by pat_completeness auto
termination
  by (relation "measure (\<lambda>(svc, scaled, reqs, d, i, step, k, e). case retryPolicy d of None \<Rightarrow> 0 | Some p \<Rightarrow> nat (maxRetries p - k))")
    (auto simp: canRetry_def)

declare run_attempts.simps [simp del]

definition find_step :: "string \<Rightarrow> sequence_definition \<Rightarrow> action_step option" where
  "find_step i d = List.find (\<lambda>st. as_actionId st = i) (sq_steps d)"

fun run_branch ::
  "'x action_service \<Rightarrow> (nat \<Rightarrow> seq_request list) \<Rightarrow> sequence_definition \<Rightarrow> string list \<Rightarrow> string set \<Rightarrow> 'x engine \<Rightarrow>
     (int \<times> string set \<times> 'x engine) option" where
  "run_branch svc reqs d [] executed e = Some (0, executed, e)"
| "run_branch svc reqs d (i # is) executed e =
    (if i \<in> executed then run_branch svc reqs d is executed e
     else
       case find_step i d of
         None \<Rightarrow> run_branch svc reqs d is executed e
       | Some step \<Rightarrow>
           (case run_action svc reqs (sq_id d) step e of
              None \<Rightarrow> None
            | Some (Inl m, e) \<Rightarrow> run_branch svc reqs d is executed e
            | Some (Inr r, e) \<Rightarrow>
                map_option (\<lambda>(n, executed, e). (n + 1, executed, e))
                  (run_branch svc reqs d is (insert (as_actionId step) executed)
                    (e\<lparr>se_context := setActionResult (as_actionId step) (CResult r) (se_context e)\<rparr>))))"

definition handleConditionalBranch ::
  "'x action_service \<Rightarrow> num_lib \<Rightarrow> (nat \<Rightarrow> seq_request list) \<Rightarrow> string \<Rightarrow> sequence_definition \<Rightarrow> string set \<Rightarrow> 'x engine \<Rightarrow>
     (int \<times> string set \<times> 'x engine) option" where
  "handleConditionalBranch svc N reqs actionId d executed e =
    (case conditionalBranches d actionId of
       None \<Rightarrow> Some (0, executed, e)
     | Some branch \<Rightarrow>
         (case evaluate N (cb_condition branch) (se_context e) of
            None \<Rightarrow> Some (0, executed, e)
          | Some b \<Rightarrow> run_branch svc reqs d (if b then trueActions branch else falseActions branch) executed e))"

section \<open>Sequences\<close>

partial_function (option) pause_wait :: "(nat \<Rightarrow> seq_request list) \<Rightarrow> string \<Rightarrow> 'x engine \<Rightarrow> 'x engine option" where
  "pause_wait reqs sid e =
    (if ss_pauseRequested (getOrCreateState sid e) \<and> \<not> ss_cancelRequested (getOrCreateState sid e)
     then pause_wait reqs sid (snd (poll reqs e)) else Some e)"

definition end_with :: "SequenceStatus \<Rightarrow> sequence_result \<Rightarrow> 'x engine \<Rightarrow> sequence_result \<times> 'x engine" where
  "end_with status r e = (r\<lparr>sr_status := status\<rparr>, set_state (sr_sequenceId r) (\<lambda>s. s\<lparr>ss_status := status\<rparr>) e)"

definition step_name :: "int \<Rightarrow> action_step \<Rightarrow> string" where
  "step_name i step = ''Step '' @ to_string (i + 1) @ '' ('' @ as_actionId step @ '')''"

definition count_steps :: "int \<Rightarrow> sequence_result \<Rightarrow> sequence_result" where
  "count_steps n r = r\<lparr>sr_completedSteps := sr_completedSteps r + n\<rparr>"

text \<open>One step after its start was announced: either the sequence ends (\<open>Inl\<close>) or it goes on (\<open>Inr\<close>).\<close>

definition run_step ::
  "'x action_service \<Rightarrow> num_lib \<Rightarrow> (int \<Rightarrow> u64 \<Rightarrow> int \<Rightarrow> int) \<Rightarrow> (nat \<Rightarrow> seq_request list) \<Rightarrow> sequence_definition \<Rightarrow> int \<Rightarrow> action_step \<Rightarrow>
     sequence_result \<Rightarrow> string set \<Rightarrow> 'x engine \<Rightarrow> (sequence_result \<times> 'x engine + sequence_result \<times> string set \<times> 'x engine) option" where
  "run_step svc N scaled reqs d i step res executed e =
    (case run_attempts svc scaled reqs d i step 0 e of
       None \<Rightarrow> None
     | Some (Inl m, k, e) \<Rightarrow>
         Some (Inl (end_with FAILED (res\<lparr>sr_errorMessage := step_name i step @ '' exception: '' @ m\<rparr>) e))
     | Some (Inr r, k, e) \<Rightarrow>
         let e = e\<lparr>se_context := setActionResult (as_actionId step) (CResult r) (se_context e)\<rparr> in
         if isCancelled r \<or> er_status r = ActionStatus.TIMEOUT \<and> ss_cancelRequested (getOrCreateState (sq_id d) e)
         then Some (Inl (end_with CANCELLED res e))
         else if isFailed r
         then Some (Inl (end_with FAILED
           (res\<lparr>sr_errorMessage := step_name i step @ '' failed after '' @ to_string k @ '' retries: '' @ er_errorMessage r\<rparr>) e))
         else
           let res = count_steps 1 res;
               e = set_state (sq_id d) (\<lambda>s. s\<lparr>ss_completedSteps := ss_completedSteps s + 1\<rparr>) e;
               executed = insert (as_actionId step) executed;
               e = updateProgress (sq_id d) (sr_completedSteps res) (sr_totalSteps res) e
           in case handleConditionalBranch svc N reqs (as_actionId step) d executed e of
                None \<Rightarrow> None
              | Some (n, executed, e) \<Rightarrow>
                  let res = count_steps n res;
                      e = set_state (sq_id d) (\<lambda>s. s\<lparr>ss_completedSteps := ss_completedSteps s + n\<rparr>) e;
                      e = (if 0 < n then updateProgress (sq_id d) (sr_completedSteps res) (sr_totalSteps res) e else e)
                  in Some (Inr (res, executed, e)))"

fun run_list ::
  "'x action_service \<Rightarrow> num_lib \<Rightarrow> (int \<Rightarrow> u64 \<Rightarrow> int \<Rightarrow> int) \<Rightarrow> (nat \<Rightarrow> seq_request list) \<Rightarrow> sequence_definition \<Rightarrow> int \<Rightarrow>
     action_step list \<Rightarrow> sequence_result \<Rightarrow> string set \<Rightarrow> 'x engine \<Rightarrow> (sequence_result \<times> 'x engine) option" where
  "run_list svc N scaled reqs d i [] res executed e =
    Some (res\<lparr>sr_status := COMPLETED, sr_progress := Quot 1 1\<rparr>,
          set_state (sq_id d) (\<lambda>s. s\<lparr>ss_status := COMPLETED, ss_progress := Quot 1 1\<rparr>) e)"
| "run_list svc N scaled reqs d i (step # steps) res executed e =
    (let e = snd (poll reqs e) in
     if ss_cancelRequested (getOrCreateState (sq_id d) e) then Some (end_with CANCELLED res e)
     else
       case pause_wait reqs (sq_id d) e of
         None \<Rightarrow> None
       | Some e \<Rightarrow>
           if as_actionId step \<in> executed then run_list svc N scaled reqs d (i + 1) steps res executed e
           else
             let e = publish_se (StepStarted (sq_id d) (as_actionId step) (as_actionType step) i (int (length (sq_steps d)))) e in
             (case run_step svc N scaled reqs d i step res executed e of
                None \<Rightarrow> None
              | Some (Inl out) \<Rightarrow> Some out
              | Some (Inr (res, executed, e)) \<Rightarrow> run_list svc N scaled reqs d (i + 1) steps res executed e))"

definition start_result :: "sequence_definition \<Rightarrow> sequence_result" where
  "start_result d =
    \<lparr>sr_sequenceId = sq_id d, sr_status = RUNNING, sr_progress = Quot 0 1, sr_errorMessage = '''', sr_completedSteps = 0,
     sr_totalSteps = int (length (sq_steps d)), sr_executionTime = 0\<rparr>"

definition executeSequential ::
  "'x action_service \<Rightarrow> num_lib \<Rightarrow> (int \<Rightarrow> u64 \<Rightarrow> int \<Rightarrow> int) \<Rightarrow> (nat \<Rightarrow> seq_request list) \<Rightarrow> sequence_definition \<Rightarrow> 'x engine \<Rightarrow>
     (sequence_result \<times> 'x engine) option" where
  "executeSequential svc N scaled reqs d e = run_list svc N scaled reqs d 0 (sq_steps d) (start_result d) {} e"

definition start_sequence :: "sequence_definition \<Rightarrow> time \<Rightarrow> 'x engine \<Rightarrow> 'x engine" where
  "start_sequence d now e =
    publish_se (SequenceStarted (sq_id d) (sq_name d) (int (length (sq_steps d))))
      (set_state (sq_id d)
        (\<lambda>s. s\<lparr>ss_status := RUNNING, ss_totalSteps := int (length (sq_steps d)), ss_completedSteps := 0, ss_cancelRequested := False,
               ss_pauseRequested := False, ss_startTime := now, ss_lastReportedProgress := Quot 0 1\<rparr>) e)"

definition announce_end :: "sequence_definition \<Rightarrow> sequence_result \<Rightarrow> 'x engine \<Rightarrow> 'x engine" where
  "announce_end d r e =
    (case sr_status r of
       COMPLETED \<Rightarrow> publish_se (SequenceCompleted (sq_id d) (sq_name d) (sr_completedSteps r) (sr_totalSteps r) (sr_executionTime r)) e
     | FAILED \<Rightarrow> publish_se (SequenceFailed (sq_id d) (sq_name d) (sr_errorMessage r) (sr_completedSteps r) (sr_totalSteps r)
         (sr_completedSteps r) (sr_executionTime r)) e
     | CANCELLED \<Rightarrow> publish_se (SequenceCancelled (sq_id d) (sq_name d) (sr_completedSteps r) (sr_totalSteps r) (sr_executionTime r)) e
     | _ \<Rightarrow> e)"

definition execute_se ::
  "'x action_service \<Rightarrow> num_lib \<Rightarrow> (int \<Rightarrow> u64 \<Rightarrow> int \<Rightarrow> int) \<Rightarrow> (nat \<Rightarrow> seq_request list) \<Rightarrow> (nat \<Rightarrow> time) \<Rightarrow> sequence_definition \<Rightarrow>
     'x engine \<Rightarrow> (sequence_result \<times> 'x engine) option" where
  "execute_se svc N scaled reqs clock d e =
    (case executeSequential svc N scaled reqs d (start_sequence d (clock 0) e) of
       None \<Rightarrow> None
     | Some (r, e) \<Rightarrow>
         let r = r\<lparr>sr_executionTime := elapsed_ms (clock 1) (clock 0)\<rparr> in Some (r, announce_end d r e))"

declare pause_wait.simps [code]

text \<open>The destructor cancels what is running.\<close>

definition destroy_engine :: "string list \<Rightarrow> 'x engine \<Rightarrow> string list \<times> 'x engine" where
  "destroy_engine sids e = handle_requests (map RCancel (filter (\<lambda>sid. getStatus sid e = RUNNING \<and> se_states e sid \<noteq> None) sids)) e"

section \<open>Lemmas\<close>

lemma getOrCreateState_set_state [simp]:
  "getOrCreateState k (set_state sid f e) = (if k = sid then f (getOrCreateState sid e) else getOrCreateState k e)"
  by (simp add: getOrCreateState_def set_state_def)

lemma getOrCreateState_publish [simp]: "getOrCreateState sid (publish_se ev e) = getOrCreateState sid e"
  by (simp add: getOrCreateState_def publish_se_def)

lemma getOrCreateState_update [simp]:
  "getOrCreateState sid (e\<lparr>se_context := c\<rparr>) = getOrCreateState sid e"
  "getOrCreateState sid (e\<lparr>se_exec := x\<rparr>) = getOrCreateState sid e"
  "getOrCreateState sid (e\<lparr>se_tick := t\<rparr>) = getOrCreateState sid e"
  "getOrCreateState sid (e\<lparr>se_calls := cs\<rparr>) = getOrCreateState sid e"
  "getOrCreateState sid (e\<lparr>se_waits := ws\<rparr>) = getOrCreateState sid e"
  by (simp_all add: getOrCreateState_def)

lemma set_state_simps [simp]:
  "se_events (set_state sid f e) = se_events e" "se_context (set_state sid f e) = se_context e"
  "se_exec (set_state sid f e) = se_exec e" "se_tick (set_state sid f e) = se_tick e"
  "se_calls (set_state sid f e) = se_calls e" "se_waits (set_state sid f e) = se_waits e"
  by (simp_all add: set_state_def)

lemma publish_se_simps [simp]:
  "se_states (publish_se ev e) = se_states e" "se_context (publish_se ev e) = se_context e"
  "se_exec (publish_se ev e) = se_exec e" "se_tick (publish_se ev e) = se_tick e"
  "se_calls (publish_se ev e) = se_calls e" "se_waits (publish_se ev e) = se_waits e"
  by (simp_all add: publish_se_def)

lemma updateProgress_simps [simp]:
  "se_exec (updateProgress sid m n e) = se_exec e" "se_calls (updateProgress sid m n e) = se_calls e"
  "se_tick (updateProgress sid m n e) = se_tick e" "se_context (updateProgress sid m n e) = se_context e"
  by (simp_all add: updateProgress_def)

lemma updateProgress_flags [simp]:
  "ss_cancelRequested (getOrCreateState k (updateProgress sid m n e)) = ss_cancelRequested (getOrCreateState k e)"
  "ss_pauseRequested (getOrCreateState k (updateProgress sid m n e)) = ss_pauseRequested (getOrCreateState k e)"
  by (simp_all add: updateProgress_def)

lemma set_current_simps [simp]:
  "se_exec (set_current sid i e) = se_exec e" "se_calls (set_current sid i e) = se_calls e"
  "se_tick (set_current sid i e) = se_tick e" "se_context (set_current sid i e) = se_context e"
  by (simp_all add: set_current_def)

lemma set_current_flags [simp]:
  "ss_cancelRequested (getOrCreateState k (set_current sid i e)) = ss_cancelRequested (getOrCreateState k e)"
  "ss_pauseRequested (getOrCreateState k (set_current sid i e)) = ss_pauseRequested (getOrCreateState k e)"
  by (simp_all add: set_current_def)

lemma count_steps_simps [simp]:
  "sr_completedSteps (count_steps n r) = sr_completedSteps r + n" "sr_sequenceId (count_steps n r) = sr_sequenceId r"
  "sr_totalSteps (count_steps n r) = sr_totalSteps r" "sr_errorMessage (count_steps n r) = sr_errorMessage r"
  "sr_status (count_steps n r) = sr_status r"
  by (simp_all add: count_steps_def)

lemma getStatus_eq: "getStatus sid e = ss_status (getOrCreateState sid e)"
  by (simp add: getStatus_def getOrCreateState_def SequenceState_def split: option.split)

lemma getStatus_announce [simp]: "getStatus sid (announce_end d r e) = getStatus sid e"
  by (simp add: announce_end_def getStatus_eq split: SequenceStatus.split)

lemma se_calls_announce [simp]: "se_calls (announce_end d r e) = se_calls e"
  by (simp add: announce_end_def split: SequenceStatus.split)

lemma se_exec_announce [simp]: "se_exec (announce_end d r e) = se_exec e"
  by (simp add: announce_end_def split: SequenceStatus.split)

subsection \<open>Requests\<close>

lemma handle_request_simps [simp]:
  "se_exec (snd (handle_request q e)) = se_exec e" "se_calls (snd (handle_request q e)) = se_calls e"
  "se_tick (snd (handle_request q e)) = se_tick e" "se_context (snd (handle_request q e)) = se_context e"
  by (cases q; simp add: cancel_se_def pause_def resume_def update_known_def Let_def)+

lemma handle_requests_simps [simp]:
  "se_exec (snd (handle_requests qs e)) = se_exec e" "se_calls (snd (handle_requests qs e)) = se_calls e"
  "se_tick (snd (handle_requests qs e)) = se_tick e" "se_context (snd (handle_requests qs e)) = se_context e"
proof (induction qs arbitrary: e)
  case (Cons q qs)
  { case 1 show ?case using Cons.IH(1) handle_request_simps(1) [of q e] by (simp add: case_prod_beta) }
  { case 2 show ?case using Cons.IH(2) handle_request_simps(2) [of q e] by (simp add: case_prod_beta) }
  { case 3 show ?case using Cons.IH(3) handle_request_simps(3) [of q e] by (simp add: case_prod_beta) }
  { case 4 show ?case using Cons.IH(4) handle_request_simps(4) [of q e] by (simp add: case_prod_beta) }
qed simp_all

lemma poll_simps [simp]:
  "se_exec (snd (poll reqs e)) = se_exec e" "se_calls (snd (poll reqs e)) = se_calls e"
  "se_tick (snd (poll reqs e)) = Suc (se_tick e)" "se_context (snd (poll reqs e)) = se_context e"
  by (simp_all add: poll_def)

lemma pause_wait_calls:
  assumes "pause_wait reqs sid e = Some e'"
  shows "se_calls e' = se_calls e"
  using assms
  by (rule pause_wait.raw_induct [where P = "\<lambda>reqs sid e e'. se_calls e' = se_calls e", rotated])
    (auto split: if_splits)

subsection \<open>What a finished sequence has done\<close>

definition step_ids :: "sequence_definition \<Rightarrow> string set" where
  "step_ids d = as_actionId ` set (sq_steps d)"

definition run_ok :: "sequence_definition \<Rightarrow> string list \<Rightarrow> sequence_result \<Rightarrow> string set \<Rightarrow> 'x engine \<Rightarrow> bool" where
  "run_ok d cs res executed e \<longleftrightarrow> sr_sequenceId res = sq_id d \<and> finite executed \<and> executed \<subseteq> step_ids d \<and>
     sr_completedSteps res = int (card executed) \<and> (\<exists>new. se_calls e = cs @ new \<and> executed \<subseteq> set new)"

lemma run_action_calls:
  assumes "run_action svc reqs sid step e = Some (r, e')"
  shows "se_calls e' = se_calls e @ (case r of Inl _ \<Rightarrow> [] | Inr _ \<Rightarrow> [as_actionId step])"
  using assms poll_simps(2) [of reqs "set_current sid (as_actionId step) e"]
  by (auto simp: run_action_def simp del: poll_simps split: prod.splits option.splits)

lemma find_stepD: "find_step i d = Some st \<Longrightarrow> as_actionId st = i \<and> i \<in> step_ids d"
  by (auto simp: find_step_def find_Some_iff step_ids_def)

lemma run_attempts_calls:
  assumes "run_attempts svc scaled reqs d i step k e = Some (r, k', e')"
  shows "\<exists>new. se_calls e' = se_calls e @ new \<and> (\<forall>a. r = Inr a \<longrightarrow> as_actionId step \<in> set new)"
  using assms
proof (induction svc scaled reqs d i step k e rule: run_attempts.induct)
  case (1 svc scaled reqs d i step k e)
  obtain a e1 where a: "run_action svc reqs (sq_id d) step e = Some (a, e1)"
    using 1(2) by (auto simp: run_attempts.simps [of svc scaled reqs d i step k e] split: option.splits)
  note calls = run_action_calls [OF a]
  show ?case
  proof (cases a)
    case (Inl m)
    then show ?thesis using 1(2) a calls by (auto simp: run_attempts.simps [of svc scaled reqs d i step k e])
  next
    case (Inr b)
    show ?thesis
    proof (cases "\<exists>p. retryPolicy d = Some p \<and> canRetry p k \<and> \<not> isSuccessful b")
      case True
      then obtain p where p: "retryPolicy d = Some p" "canRetry p k" "\<not> isSuccessful b" by blast
      from 1(1) [OF a refl Inr p(3,1,2)] 1(2) a Inr p show ?thesis
        using calls by (simp add: run_attempts.simps [of svc scaled reqs d i step k e]) fastforce
    next
      case False
      then show ?thesis
        using 1(2) a Inr calls
        by (auto simp: run_attempts.simps [of svc scaled reqs d i step k e] split: option.splits if_splits)
    qed
  qed
qed

lemma run_branch_ok:
  assumes "run_branch svc reqs d is executed e = Some (n, executed', e')" and "finite executed" and "executed \<subseteq> step_ids d"
    and "se_calls e = cs @ new" and "executed \<subseteq> set new"
  shows "0 \<le> n \<and> finite executed' \<and> executed \<subseteq> executed' \<and> executed' \<subseteq> step_ids d \<and> int (card executed') = int (card executed) + n \<and>
    (\<exists>new. se_calls e' = cs @ new \<and> executed' \<subseteq> set new)"
  using assms
proof (induction "is" arbitrary: executed e new n)
  case (Cons i "is")
  show ?case
  proof (cases "i \<in> executed \<or> find_step i d = None")
    case True
    then have "run_branch svc reqs d is executed e = Some (n, executed', e')"
      using Cons.prems(1) by (auto split: option.splits if_splits)
    from Cons.IH [OF this Cons.prems(2-5)] show ?thesis .
  next
    case False
    then obtain st where st: "find_step i d = Some st" "i \<notin> executed" by auto
    obtain a e1 where a: "run_action svc reqs (sq_id d) st e = Some (a, e1)"
      using Cons.prems(1) st by (cases "run_action svc reqs (sq_id d) st e") auto
    note calls = run_action_calls [OF a] find_stepD [OF st(1)]
    show ?thesis
    proof (cases a)
      case (Inl m)
      then show ?thesis using Cons.IH [of executed e1 n new] Cons.prems a st calls by simp
    next
      case (Inr r)
      let ?e = "e1\<lparr>se_context := setActionResult (as_actionId st) (CResult r) (se_context e1)\<rparr>"
      obtain m where m: "run_branch svc reqs d is (insert i executed) ?e = Some (m, executed', e')" "n = m + 1"
        using Cons.prems(1) st a Inr calls by auto
      show ?thesis
        using Cons.IH [OF m(1), of "new @ [i]"] Cons.prems(2-5) Inr calls st(2) m(2) by (simp add: subset_insertI2)
    qed
  qed
qed auto

lemma handleConditionalBranch_ok:
  assumes "handleConditionalBranch svc N reqs i d executed e = Some (n, executed', e')" and "finite executed" and "executed \<subseteq> step_ids d"
    and "se_calls e = cs @ new" and "executed \<subseteq> set new"
  shows "0 \<le> n \<and> finite executed' \<and> executed \<subseteq> executed' \<and> executed' \<subseteq> step_ids d \<and> int (card executed') = int (card executed) + n \<and>
    (\<exists>new. se_calls e' = cs @ new \<and> executed' \<subseteq> set new)"
  using assms run_branch_ok [OF _ assms(2-5), of svc reqs]
  by (auto simp: handleConditionalBranch_def split: option.splits)

lemma run_step_ok:
  assumes "run_step svc N scaled reqs d i step res executed e = Some out" and "run_ok d cs res executed e"
    and "as_actionId step \<notin> executed" and "step \<in> set (sq_steps d)"
  shows "case out of
      Inl (r, e') \<Rightarrow> sr_completedSteps r = sr_completedSteps res \<and> (sr_status r = FAILED \<or> sr_status r = CANCELLED) \<and>
        getStatus (sq_id d) e' = sr_status r
    | Inr (res', executed', e') \<Rightarrow> run_ok d cs res' executed' e' \<and> insert (as_actionId step) executed \<subseteq> executed'"
proof -
  obtain a k e1 where a: "run_attempts svc scaled reqs d i step 0 e = Some (a, k, e1)"
    using assms(1) by (auto simp: run_step_def split: option.splits)
  have id: "sr_sequenceId res = sq_id d" using assms(2) by (simp add: run_ok_def)
  show ?thesis
  proof (cases out)
    case (Inl o1)
    then show ?thesis
      using assms(1) a id
      by (auto simp: run_step_def Let_def end_with_def getStatus_eq split: sum.splits if_splits option.splits)
  next
    case (Inr o1)
    obtain r where r: "a = Inr r" using assms(1) a Inr by (cases a) (auto simp: run_step_def)
    obtain old more where calls: "se_calls e = cs @ old" "executed \<subseteq> set old" "se_calls e1 = se_calls e @ more" "as_actionId step \<in> set more"
      using run_attempts_calls [OF a] r assms(2) by (auto simp: run_ok_def)
    then have new: "se_calls e1 = cs @ old @ more" "executed \<subseteq> set (old @ more)" "as_actionId step \<in> set (old @ more)"
      by auto
    let ?ex = "insert (as_actionId step) executed" and ?res = "count_steps 1 res"
    let ?e = "updateProgress (sq_id d) (sr_completedSteps ?res) (sr_totalSteps ?res)
      (set_state (sq_id d) (\<lambda>s. s\<lparr>ss_completedSteps := ss_completedSteps s + 1\<rparr>)
        (e1\<lparr>se_context := setActionResult (as_actionId step) (CResult r) (se_context e1)\<rparr>))"
    obtain n executed' e2 where h: "handleConditionalBranch svc N reqs (as_actionId step) d ?ex ?e = Some (n, executed', e2)"
      and o1: "fst o1 = count_steps n ?res" "fst (snd o1) = executed'" "se_calls (snd (snd o1)) = se_calls e2"
      using assms(1) a Inr r by (auto simp: run_step_def Let_def split: if_splits option.splits)
    have "finite ?ex" "?ex \<subseteq> step_ids d" "se_calls ?e = cs @ old @ more" "?ex \<subseteq> set (old @ more)"
      using assms(2,4) new by (auto simp: run_ok_def step_ids_def)
    from handleConditionalBranch_ok [OF h this] show ?thesis
      using assms(2,3) Inr o1 by (cases o1) (auto simp: run_ok_def)
  qed
qed

definition list_ok :: "sequence_definition \<Rightarrow> string list \<Rightarrow> string set \<Rightarrow> sequence_result \<Rightarrow> 'x engine \<Rightarrow> bool" where
  "list_ok d cs S r e \<longleftrightarrow> 0 \<le> sr_completedSteps r \<and> sr_completedSteps r \<le> int (card (step_ids d)) \<and>
     (sr_status r = COMPLETED \<or> sr_status r = FAILED \<or> sr_status r = CANCELLED) \<and> getStatus (sq_id d) e = sr_status r \<and>
     (sr_status r = COMPLETED \<longrightarrow> (\<exists>done. S \<subseteq> done \<and> run_ok d cs r done e))"

lemma run_ok_bound: "run_ok d cs res executed e \<Longrightarrow> 0 \<le> sr_completedSteps res \<and> sr_completedSteps res \<le> int (card (step_ids d))"
  by (simp add: run_ok_def step_ids_def card_mono)

lemma list_ok_mono: "list_ok d cs S r e \<Longrightarrow> S' \<subseteq> S \<Longrightarrow> list_ok d cs S' r e"
  by (meson list_ok_def subset_trans)

lemma run_list_ok:
  assumes "run_list svc N scaled reqs d i steps res executed e = Some (r, e')" and "run_ok d cs res executed e"
    and "set steps \<subseteq> set (sq_steps d)"
  shows "list_ok d cs (as_actionId ` set steps \<union> executed) r e'"
  using assms
proof (induction steps arbitrary: i res executed e)
  case Nil
  then have r: "r = res\<lparr>sr_status := COMPLETED, sr_progress := Quot 1 1\<rparr>"
    "e' = set_state (sq_id d) (\<lambda>s. s\<lparr>ss_status := COMPLETED, ss_progress := Quot 1 1\<rparr>) e" by simp_all
  then have "run_ok d cs r executed e'" using Nil.prems(2) by (simp add: run_ok_def)
  then show ?case using run_ok_bound [OF Nil.prems(2)] r by (auto simp: list_ok_def getStatus_eq)
next
  case (Cons step steps)
  let ?e = "snd (poll reqs e)"
  have id: "sr_sequenceId res = sq_id d" using Cons.prems(2) by (simp add: run_ok_def)
  show ?case
  proof (cases "ss_cancelRequested (getOrCreateState (sq_id d) ?e)")
    case True
    then have "(r, e') = end_with CANCELLED res ?e" using Cons.prems(1) by simp
    then show ?thesis
      using run_ok_bound [OF Cons.prems(2)] id by (simp add: end_with_def getStatus_eq list_ok_def)
  next
    case False
    then obtain e1 where e1: "pause_wait reqs (sq_id d) ?e = Some e1"
      using Cons.prems(1) by (cases "pause_wait reqs (sq_id d) ?e") simp_all
    have ok: "run_ok d cs res executed e1"
      using Cons.prems(2) pause_wait_calls [OF e1] by (simp add: run_ok_def)
    have steps: "step \<in> set (sq_steps d)" "set steps \<subseteq> set (sq_steps d)" using Cons.prems(3) by simp_all
    show ?thesis
    proof (cases "as_actionId step \<in> executed")
      case True
      then have "run_list svc N scaled reqs d (i + 1) steps res executed e1 = Some (r, e')"
        using Cons.prems(1) e1 False by simp
      from Cons.IH [OF this ok steps(2)] show ?thesis by (rule list_ok_mono) (use True in auto)
    next
      case new: False
      let ?e1 = "publish_se (StepStarted (sq_id d) (as_actionId step) (as_actionType step) i (int (length (sq_steps d)))) e1"
      obtain out where out: "run_step svc N scaled reqs d i step res executed ?e1 = Some out"
        using Cons.prems(1) e1 False new by (cases "run_step svc N scaled reqs d i step res executed ?e1") simp_all
      have ok1: "run_ok d cs res executed ?e1" using ok by (simp add: run_ok_def)
      note step = run_step_ok [OF out ok1 new steps(1)]
      show ?thesis
      proof (cases out)
        case (Inl o1)
        then have "o1 = (r, e')" using Cons.prems(1) e1 False new out by simp
        then have "sr_completedSteps r = sr_completedSteps res" "sr_status r = FAILED \<or> sr_status r = CANCELLED" "getStatus (sq_id d) e' = sr_status r"
          using step Inl by simp_all
        then show ?thesis using run_ok_bound [OF ok] unfolding list_ok_def by (metis SequenceStatus.distinct(23,25))
      next
        case (Inr o1)
        then obtain res' executed' e2 where o1: "out = Inr (res', executed', e2)" by (cases o1) auto
        then have "run_list svc N scaled reqs d (i + 1) steps res' executed' e2 = Some (r, e')"
          using Cons.prems(1) e1 False new out by simp
        moreover have "run_ok d cs res' executed' e2" "insert (as_actionId step) executed \<subseteq> executed'" using step o1 by simp_all
        ultimately have "list_ok d cs (as_actionId ` set steps \<union> executed') r e'" using Cons.IH [OF _ _ steps(2)] by blast
        then show ?thesis by (rule list_ok_mono) (use \<open>insert (as_actionId step) executed \<subseteq> executed'\<close> in auto)
      qed
    qed
  qed
qed

subsection \<open>Sequences end\<close>

definition unpaused :: "string \<Rightarrow> 'x engine \<Rightarrow> bool" where
  "unpaused sid e = (\<not> ss_pauseRequested (getOrCreateState sid e))"

definition no_pause :: "(nat \<Rightarrow> seq_request list) \<Rightarrow> bool" where
  "no_pause reqs = (\<forall>n sid. RPause sid \<notin> set (reqs n))"

definition always_returns :: "'x action_service \<Rightarrow> bool" where
  "always_returns svc = (\<forall>ids step c x. svc ids step c x \<noteq> None)"

lemma getOrCreateState_update_known [simp]:
  "getOrCreateState k (update_known sid f e) =
    (if k = sid \<and> se_states e sid \<noteq> None then f (getOrCreateState sid e) else getOrCreateState k e)"
  by (auto simp: getOrCreateState_def update_known_def)

lemma pause_wait_unpaused: "\<not> ss_pauseRequested (getOrCreateState sid e) \<Longrightarrow> pause_wait reqs sid e = Some e"
  by (subst pause_wait.simps) simp

lemmas run_defs = execute_se_def executeSequential_def start_sequence_def start_result_def run_step_def run_attempts.simps run_action_def poll_def
  handleConditionalBranch_def find_step_def isSuccessful_def isCancelled_def isFailed_def ExecutionResult_def Let_def pause_wait_unpaused

lemma unpaused_handle_requests: "\<forall>sid. RPause sid \<notin> set qs \<Longrightarrow> unpaused sid e \<Longrightarrow> unpaused sid (snd (handle_requests qs e))"
proof (induction qs arbitrary: e)
  case (Cons q qs)
  then have "unpaused sid (snd (handle_request q e))"
    by (cases q) (auto simp: unpaused_def cancel_se_def resume_def Let_def)
  then show ?case using Cons.IH [of "snd (handle_request q e)"] Cons.prems(1) by (simp add: case_prod_beta)
qed simp

lemma unpaused_poll: "no_pause reqs \<Longrightarrow> unpaused sid e \<Longrightarrow> unpaused sid (snd (poll reqs e))"
  by (simp add: poll_def unpaused_handle_requests no_pause_def unpaused_def [of sid "e\<lparr>se_tick := t\<rparr>" for t] unpaused_def [of sid e])

lemma run_action_ends:
  assumes "always_returns svc" and "no_pause reqs" and "unpaused sid e"
  obtains r e' where "run_action svc reqs k step e = Some (r, e')" "unpaused sid e'"
proof -
  have "unpaused sid (set_current k (as_actionId step) e)" using assms(3) by (simp add: unpaused_def)
  from unpaused_poll [OF assms(2) this] obtain ids e1 where
    p: "poll reqs (set_current k (as_actionId step) e) = (ids, e1)" "unpaused sid e1"
    by (cases "poll reqs (set_current k (as_actionId step) e)") simp
  obtain r c x where "svc ids step (se_context e1) (se_exec e1) = Some (r, c, x)"
    using assms(1) by (fastforce simp: always_returns_def)
  with p that show thesis by (simp add: run_action_def unpaused_def)
qed

lemma run_attempts_ends:
  assumes "always_returns svc" and "no_pause reqs" and "unpaused sid e"
  shows "\<exists>r k' e'. run_attempts svc scaled reqs d i step k e = Some (r, k', e') \<and> unpaused sid e'"
  using assms
proof (induction svc scaled reqs d i step k e rule: run_attempts.induct)
  case (1 svc scaled reqs d i step k e)
  obtain a e1 where a: "run_action svc reqs (sq_id d) step e = Some (a, e1)" "unpaused sid e1"
    using run_action_ends [OF 1(2-4)] by blast
  show ?case
  proof (cases a)
    case (Inl m)
    then show ?thesis using a by (simp add: run_attempts.simps [of svc scaled reqs d i step k e])
  next
    case (Inr b)
    show ?thesis
    proof (cases "\<exists>p. retryPolicy d = Some p \<and> canRetry p k \<and> \<not> isSuccessful b")
      case True
      then obtain p where p: "retryPolicy d = Some p" "canRetry p k" "\<not> isSuccessful b" by blast
      from 1(1) [OF a(1) refl Inr p(3,1,2) 1(2,3)] a Inr p show ?thesis
        by (simp add: run_attempts.simps [of svc scaled reqs d i step k e] unpaused_def)
    next
      case False
      then show ?thesis
        using a Inr by (auto simp: run_attempts.simps [of svc scaled reqs d i step k e] unpaused_def split: option.split)
    qed
  qed
qed

lemma run_branch_ends:
  assumes "always_returns svc" and "no_pause reqs" and "unpaused sid e"
  shows "\<exists>n executed' e'. run_branch svc reqs d is executed e = Some (n, executed', e') \<and> unpaused sid e'"
  using assms(3)
proof (induction "is" arbitrary: executed e)
  case (Cons i "is")
  show ?case
  proof (cases "i \<in> executed \<or> find_step i d = None")
    case True
    then show ?thesis using Cons by auto
  next
    case False
    then obtain st where st: "find_step i d = Some st" "i \<notin> executed" by auto
    obtain a e1 where a: "run_action svc reqs (sq_id d) st e = Some (a, e1)" "unpaused sid e1"
      using run_action_ends [OF assms(1,2) Cons.prems] by blast
    let ?e = "\<lambda>r. e1\<lparr>se_context := setActionResult (as_actionId st) (CResult r) (se_context e1)\<rparr>"
    have "unpaused sid (?e r)" for r using a(2) by (simp add: unpaused_def)
    from Cons.IH [OF a(2), of executed] Cons.IH [OF this, of "insert (as_actionId st) executed"] show ?thesis
      using a(1) st by (cases a) fastforce+
  qed
qed simp

lemma handleConditionalBranch_ends:
  assumes "always_returns svc" and "no_pause reqs" and "unpaused sid e"
  shows "\<exists>n executed' e'. handleConditionalBranch svc N reqs i d executed e = Some (n, executed', e') \<and> unpaused sid e'"
  using assms(3) run_branch_ends [OF assms] by (auto simp: handleConditionalBranch_def split: option.split)

lemma run_step_ends:
  assumes "always_returns svc" and "no_pause reqs" and "unpaused (sq_id d) e"
  shows "\<exists>out. run_step svc N scaled reqs d i step res executed e = Some out \<and>
    (\<forall>res' executed' e'. out = Inr (res', executed', e') \<longrightarrow> unpaused (sq_id d) e')"
proof -
  obtain a k e1 where a: "run_attempts svc scaled reqs d i step 0 e = Some (a, k, e1)" "unpaused (sq_id d) e1"
    using run_attempts_ends [OF assms] by blast
  show ?thesis
  proof (cases a)
    case (Inl m)
    then show ?thesis using a by (simp add: run_step_def)
  next
    case (Inr r)
    let ?res = "count_steps 1 res"
    let ?e = "updateProgress (sq_id d) (sr_completedSteps ?res) (sr_totalSteps ?res)
      (set_state (sq_id d) (\<lambda>s. s\<lparr>ss_completedSteps := ss_completedSteps s + 1\<rparr>)
        (e1\<lparr>se_context := setActionResult (as_actionId step) (CResult r) (se_context e1)\<rparr>))"
    have e: "unpaused (sq_id d) ?e" using a(2) by (simp add: unpaused_def)
    obtain n executed' e2 where h: "handleConditionalBranch svc N reqs (as_actionId step) d (insert (as_actionId step) executed) ?e = Some (n, executed', e2)"
      "unpaused (sq_id d) e2"
      using handleConditionalBranch_ends [OF assms(1,2) e] by blast
    then show ?thesis using a(1) Inr by (simp add: run_step_def Let_def) (simp add: unpaused_def)
  qed
qed

lemma run_list_ends:
  assumes "always_returns svc" and "no_pause reqs" and "unpaused (sq_id d) e"
  shows "run_list svc N scaled reqs d i steps res executed e \<noteq> None"
  using assms(3)
proof (induction steps arbitrary: i res executed e)
  case (Cons step steps)
  let ?e = "snd (poll reqs e)"
  have e: "unpaused (sq_id d) ?e" using Cons.prems assms(2) by (rule unpaused_poll [rotated])
  then have wait: "pause_wait reqs (sq_id d) ?e = Some ?e" by (subst pause_wait.simps) (simp add: unpaused_def)
  let ?e1 = "publish_se (StepStarted (sq_id d) (as_actionId step) (as_actionType step) i (int (length (sq_steps d)))) ?e"
  have "unpaused (sq_id d) ?e1" using e by (simp add: unpaused_def)
  from run_step_ends [OF assms(1,2) this, of N scaled i step res executed] obtain out where
    out: "run_step svc N scaled reqs d i step res executed ?e1 = Some out"
    "\<And>res' executed' e'. out = Inr (res', executed', e') \<Longrightarrow> unpaused (sq_id d) e'" by blast
  show ?case
    using out Cons.IH [OF e] Cons.IH wait by (cases out) (auto simp: Let_def)
qed simp

section \<open>Properties\<close>

text \<open>C5. A sequence ends as completed, failed or cancelled, its state says so too, and it counts at most one step for each
  id. If it is completed then every step was handed to the executor, the steps of a branch that was not taken
  included.\<close>

theorem sequence_counts_steps:
  assumes "execute_se svc N scaled reqs clock d e = Some (r, e')"
  shows "0 \<le> sr_completedSteps r \<and> sr_completedSteps r \<le> int (card (as_actionId ` set (sq_steps d))) \<and>
    (sr_status r = COMPLETED \<or> sr_status r = FAILED \<or> sr_status r = CANCELLED) \<and> getStatus (sq_id d) e' = sr_status r \<and>
    (sr_status r = COMPLETED \<longrightarrow> sr_completedSteps r = int (card (as_actionId ` set (sq_steps d))) \<and>
       (\<exists>new. se_calls e' = se_calls e @ new \<and> as_actionId ` set (sq_steps d) \<subseteq> set new))"
proof -
  let ?e = "start_sequence d (clock 0) e"
  obtain r1 e1 where x: "run_list svc N scaled reqs d 0 (sq_steps d) (start_result d) {} ?e = Some (r1, e1)"
    "r = r1\<lparr>sr_executionTime := elapsed_ms (clock 1) (clock 0)\<rparr>" "e' = announce_end d r e1"
    using assms by (auto simp: execute_se_def executeSequential_def Let_def split: option.splits)
  have "run_ok d (se_calls e) (start_result d) {} ?e"
    by (simp add: run_ok_def start_result_def start_sequence_def)
  from run_list_ok [OF x(1) this] have ok: "list_ok d (se_calls e) (step_ids d) r1 e1" by (simp add: step_ids_def)
  have "done = step_ids d" if "step_ids d \<subseteq> done" "run_ok d (se_calls e) r1 done e1" for "done"
    using that by (auto simp: run_ok_def)
  with ok show ?thesis
    using x(2,3) unfolding list_ok_def run_ok_def step_ids_def by auto
qed

definition plain_service :: "unit action_service" where
  "plain_service ids step c x = Some (Inr (ExecutionResult (as_actionId step) ActionStatus.COMPLETED), c, x)"

definition branching :: sequence_definition where
  "branching = addConditionalBranch ''a'' (addTrueAction ''b'' (ConditionalBranch ''mode == AUTO''))
     (addStep (ActionStep ''b'' ''Move'') (addStep (ActionStep ''a'' ''Move'') (SequenceDefinition ''s'' '''')))"

lemmas definition_defs = branching_def addConditionalBranch_def addStep_def SequenceDefinition_def ActionStep_def SequenceEngine_def
  ConditionalBranch_def addTrueAction_def setActionResult_def ExecutionContext_def

theorem sequence_counts_steps_witness:
  "\<exists>r e'. execute_se plain_service plain_num_lib (\<lambda>d m n. d) (\<lambda>n. []) (\<lambda>n. 0) branching (SequenceEngine ()) = Some (r, e') \<and>
    sr_status r = COMPLETED \<and> set [''a'', ''b''] \<subseteq> set (se_calls e')"
proof -
  let ?x = "execute_se plain_service plain_num_lib (\<lambda>d m n. d) (\<lambda>n. []) (\<lambda>n. 0) branching (SequenceEngine ())"
  have condition: "evaluate plain_num_lib ''mode == AUTO'' c = Some False" if "variables c = Map.empty" for c
    using evaluate_words [of "''==''" "''mode''" "''AUTO''" "[]" "'' ''" "'' ''" "[]" plain_num_lib c] that
    by (simp add: operators_def plain_word_def whitespace_def op_char_def compare_def compareStrings_def plain_num_lib_def
      getVariableAsString_def getVariable_def)
  have "?x \<noteq> None \<and> sr_status (fst (the ?x)) = COMPLETED"
    by (simp add: run_defs plain_service_def definition_defs condition)
  then obtain r e' where x: "?x = Some (r, e')" "sr_status r = COMPLETED" by auto
  have "as_actionId ` set (sq_steps branching) = set [''a'', ''b'']" "se_calls (SequenceEngine ()) = []"
    by (auto simp: definition_defs)
  then show ?thesis using sequence_counts_steps [OF x(1)] x by (intro exI [of _ r] exI [of _ e']) auto
qed



definition waits :: "(nat \<Rightarrow> seq_request list) \<Rightarrow> string \<Rightarrow> 'x engine \<Rightarrow> bool" where
  "waits reqs sid e \<longleftrightarrow> ss_pauseRequested (getOrCreateState sid e) \<and> \<not> ss_cancelRequested (getOrCreateState sid e) \<and>
     (\<forall>n \<ge> se_tick e. reqs n = [])"

lemma waits_poll: "waits reqs sid e \<Longrightarrow> waits reqs sid (snd (poll reqs e))"
  by (simp add: waits_def poll_def)

lemma pause_wait_forever:
  assumes "pause_wait reqs sid e = Some e'"
  shows "\<not> waits reqs sid e"
  using assms
  by (rule pause_wait.raw_induct [where P = "\<lambda>reqs sid e e'. \<not> waits reqs sid e", rotated])
    (auto split: if_splits dest: waits_poll, simp_all add: waits_def)

lemma update_known_simps [simp]:
  "se_exec (update_known sid f e) = se_exec e" "se_calls (update_known sid f e) = se_calls e"
  "se_tick (update_known sid f e) = se_tick e" "se_context (update_known sid f e) = se_context e"
  "se_states (update_known sid f e) k = None \<longleftrightarrow> se_states e k = None"
  by (simp_all add: update_known_def)

lemma started_flags [simp]:
  "ss_cancelRequested (getOrCreateState (sq_id d) (start_sequence d t e)) = False"
  "ss_pauseRequested (getOrCreateState (sq_id d) (start_sequence d t e)) = False"
  "se_tick (start_sequence d t e) = se_tick e" "se_calls (start_sequence d t e) = se_calls e"
  "se_exec (start_sequence d t e) = se_exec e" "se_context (start_sequence d t e) = se_context e"
  by (simp_all add: start_sequence_def)

lemma started_known [simp]: "se_states (start_sequence d t e) (sq_id d) \<noteq> None"
  by (simp add: start_sequence_def set_state_def)

text \<open>A paused sequence is not resumed by anything else: without further requests it never returns.\<close>

theorem paused_sequence_waits:
  assumes "sq_steps d \<noteq> []" and "reqs (se_tick e) = [RPause (sq_id d)]" and "\<forall>n > se_tick e. reqs n = []"
  shows "execute_se svc N scaled reqs clock d e = None"
proof -
  let ?e = "snd (poll reqs (start_sequence d (clock 0) e))"
  have e: "ss_pauseRequested (getOrCreateState (sq_id d) ?e)" "\<not> ss_cancelRequested (getOrCreateState (sq_id d) ?e)" "se_tick ?e = Suc (se_tick e)"
    using assms(2) by (simp_all add: poll_def pause_def)
  moreover have "\<forall>n \<ge> se_tick ?e. reqs n = []" using assms(3) e(3) by simp
  ultimately have "waits reqs (sq_id d) ?e" by (simp add: waits_def)
  then have "pause_wait reqs (sq_id d) ?e = None"
    using pause_wait_forever [of reqs "sq_id d" ?e] by (cases "pause_wait reqs (sq_id d) ?e") auto
  then show ?thesis using assms(1) e(2) by (cases "sq_steps d") (simp_all add: execute_se_def executeSequential_def)
qed

theorem paused_sequence_waits_witness:
  "execute_se plain_service plain_num_lib (\<lambda>d m n. d) (\<lambda>n. if n = 0 then [RPause ''s''] else []) (\<lambda>n. 0) branching (SequenceEngine ()) = None"
  using paused_sequence_waits [of branching "\<lambda>n. if n = 0 then [RPause ''s''] else []" "SequenceEngine ()"]
  by (simp add: definition_defs)

text \<open>Cancelling a paused sequence does not stop it where it is: the loop that waits gives way and the next step is executed
  all the same. If it was the last one the cancelled sequence is even reported as completed.\<close>

theorem cancel_while_paused:
  assumes "sq_steps d = step # rest" and "conditionalBranches d (as_actionId step) = None"
    and "reqs (se_tick e) = [RPause (sq_id d)]" and "reqs (se_tick e + 1) = [RCancel (sq_id d)]" and "\<forall>n > se_tick e + 1. reqs n = []"
    and "svc [] step (se_context e) (se_exec e) = Some (Inr r, c, x)" and "er_status r = ActionStatus.COMPLETED"
  shows "\<exists>r' e'. execute_se svc N scaled reqs clock d e = Some (r', e') \<and> se_calls e' = se_calls e @ [as_actionId step] \<and>
    sr_status r' = (if rest = [] then COMPLETED else CANCELLED)"
proof -
  let ?e0 = "start_sequence d (clock 0) e"
  let ?e1 = "snd (poll reqs ?e0)"
  let ?e2 = "snd (poll reqs ?e1)"
  have e1: "ss_pauseRequested (getOrCreateState (sq_id d) ?e1)" "\<not> ss_cancelRequested (getOrCreateState (sq_id d) ?e1)" "se_tick ?e1 = Suc (se_tick e)"
    "se_states ?e1 (sq_id d) \<noteq> None"
    using assms(3) by (simp_all add: poll_def pause_def del: not_None_eq)
  have e2: "ss_cancelRequested (getOrCreateState (sq_id d) ?e2)" "se_tick ?e2 = Suc (Suc (se_tick e))" "se_states ?e2 (sq_id d) \<noteq> None"
    "se_calls ?e2 = se_calls e" "se_exec ?e2 = se_exec e" "se_context ?e2 = se_context e"
    using assms(4) e1 by (simp_all add: poll_def [of _ ?e1] cancel_se_def Let_def del: not_None_eq)
  have wait: "pause_wait reqs (sq_id d) ?e1 = Some ?e2"
    using e1 e2(1) by (subst pause_wait.simps) (simp add: pause_wait.simps [of reqs "sq_id d" ?e2])
  have quiet: "poll reqs e' = ([], e'\<lparr>se_tick := Suc (se_tick e')\<rparr>)" if "se_tick e' > Suc (se_tick e)" for e'
    using that assms(5) by (simp add: poll_def)
  show ?thesis
  proof (cases rest)
    case Nil
    then show ?thesis
      using assms e1(2) e2 wait
      by (simp add: execute_se_def executeSequential_def run_step_def run_attempts.simps run_action_def quiet handleConditionalBranch_def
          isSuccessful_def isCancelled_def isFailed_def Let_def start_result_def)
  next
    case (Cons step' rest')
    then show ?thesis
      using assms e1(2) e2 wait
      by (simp add: execute_se_def executeSequential_def run_step_def run_attempts.simps run_action_def quiet handleConditionalBranch_def
          isSuccessful_def isCancelled_def isFailed_def Let_def start_result_def end_with_def)
  qed
qed

theorem cancel_while_paused_witness:
  "\<exists>r e'. execute_se plain_service plain_num_lib (\<lambda>d m n. d)
      (\<lambda>n. if n = 0 then [RPause ''s''] else if n = 1 then [RCancel ''s''] else []) (\<lambda>n. 0)
      (addStep (ActionStep ''a'' ''Move'') (SequenceDefinition ''s'' '''')) (SequenceEngine ()) = Some (r, e') \<and>
    se_calls e' = [''a''] \<and> sr_status r = COMPLETED"
  using cancel_while_paused [of "addStep (ActionStep ''a'' ''Move'') (SequenceDefinition ''s'' '''')" "ActionStep ''a'' ''Move''" "[]"
      "\<lambda>n. if n = 0 then [RPause ''s''] else if n = 1 then [RCancel ''s''] else []" "SequenceEngine ()" plain_service
      "ExecutionResult ''a'' ActionStatus.COMPLETED" ExecutionContext "()" plain_num_lib "\<lambda>d m n. d" "\<lambda>n. 0"]
  by (simp add: definition_defs plain_service_def ExecutionResult_def)

end
