(* ===== verification/Sequence_Runs.thy ===== *)
theory Sequence_Runs
  imports Sequence_Engine
begin

text \<open>
  Sequences on the executor. The locale \<open>remembering_service\<close> is what the engine can rely on: an action with a new id is run
  and its result is remembered, and one with a known id gives the result that is remembered. Its lemmas
  say what a sequence without branches does on such a service if nobody interferes; \<open>seq_spec\<close> is the short form of the result.
  The interpretation \<open>exq\<close> shows that the executor with its factory is such a service, so that the executor's habit with ids
  becomes a fact about retries and about sequences that are executed twice.
\<close>

section \<open>The executor as a service\<close>

text \<open>The factory makes actions; an action is given by what its n-th run does. \<open>effect\<close> is what actions do to the context.\<close>

definition executor_service ::
  "(nat \<Rightarrow> outcome) action_factory \<Rightarrow> (nat \<Rightarrow> time) \<Rightarrow> (action_step \<Rightarrow> execution_context \<Rightarrow> execution_context) \<Rightarrow> executor action_service" where
  "executor_service F clock effect ids step c x =
    (case createAction F (as_actionType step) ((as_parameters step)(''id'' \<mapsto> as_actionId step)) of
       Inl m \<Rightarrow> Some (Inl m, c, x)
     | Inr run \<Rightarrow>
         map_option (\<lambda>(r, y). (Inr r, effect step c, y))
           (perform clock (length (objects x)) (as_timeout step) (run (length (runners x))) (map CancelAction ids)
             (new_object (as_actionId step) (as_actionType step) x)))"

definition action_of :: "(nat \<Rightarrow> outcome) action_factory \<Rightarrow> action_step \<Rightarrow> (nat \<Rightarrow> outcome) option" where
  "action_of F step =
    (case createAction F (as_actionType step) ((as_parameters step)(''id'' \<mapsto> as_actionId step)) of Inl m \<Rightarrow> None | Inr run \<Rightarrow> Some run)"

definition creatable :: "(nat \<Rightarrow> outcome) action_factory \<Rightarrow> action_step \<Rightarrow> bool" where
  "creatable F step = (action_of F step \<noteq> None)"

definition run_brief :: "(nat \<Rightarrow> outcome) action_factory \<Rightarrow> action_step \<Rightarrow> executor \<Rightarrow> ActionStatus \<times> string" where
  "run_brief F step x = outcome_brief (the (action_of F step) (length (runners x)))"

text \<open>A run that a caller survives if the id is in use.\<close>

fun returns :: "outcome \<Rightarrow> bool" where
  "returns (OReturns status p) = True"
| "returns (OThrows m status p) = False"

definition repeatable :: "(nat \<Rightarrow> outcome) action_factory \<Rightarrow> action_step \<Rightarrow> executor \<Rightarrow> bool" where
  "repeatable F step x = (as_timeout step \<le> 0 \<and> returns (the (action_of F step) (length (runners x))))"

section \<open>What a sequence does\<close>

fun seq_spec :: "(action_step \<Rightarrow> ActionStatus \<times> string) \<Rightarrow> int \<Rightarrow> int \<Rightarrow> action_step list \<Rightarrow> SequenceStatus \<times> int \<times> string" where
  "seq_spec b retries i [] = (COMPLETED, i, '''')"
| "seq_spec b retries i (step # steps) =
    (case fst (b step) of
       ActionStatus.CANCELLED \<Rightarrow> (CANCELLED, i, '''')
     | ActionStatus.FAILED \<Rightarrow> (FAILED, i, step_name i step @ '' failed after '' @ to_string retries @ '' retries: '' @ snd (b step))
     | ActionStatus.TIMEOUT \<Rightarrow> (FAILED, i, step_name i step @ '' failed after '' @ to_string retries @ '' retries: '' @ snd (b step))
     | _ \<Rightarrow> seq_spec b retries (i + 1) steps)"

definition short :: "sequence_result \<Rightarrow> SequenceStatus \<times> int \<times> string" where
  "short r = (sr_status r, sr_completedSteps r, sr_errorMessage r)"

definition quiet :: "nat \<Rightarrow> seq_request list" where
  "quiet n = []"

definition calm :: "string \<Rightarrow> 'x engine \<Rightarrow> bool" where
  "calm sid e \<longleftrightarrow> \<not> ss_pauseRequested (getOrCreateState sid e) \<and> \<not> ss_cancelRequested (getOrCreateState sid e)"

definition retries_after :: "sequence_definition \<Rightarrow> int \<Rightarrow> int" where
  "retries_after d k = (case retryPolicy d of None \<Rightarrow> k | Some p \<Rightarrow> max k (maxRetries p))"

lemma poll_quiet: "poll quiet e = ([], e\<lparr>se_tick := Suc (se_tick e)\<rparr>)"
  by (simp add: poll_def quiet_def)

lemma calm_simps [simp]:
  "calm sid (e\<lparr>se_tick := t\<rparr>) = calm sid e" "calm sid (e\<lparr>se_context := c\<rparr>) = calm sid e" "calm sid (e\<lparr>se_waits := w\<rparr>) = calm sid e"
  "calm sid (publish_se ev e) = calm sid e" "calm sid (set_current k i e) = calm sid e" "calm sid (updateProgress k m n e) = calm sid e"
  by (simp_all add: calm_def)

lemma calm_start [simp]: "calm (sq_id d) (start_sequence d t e)"
  by (simp add: calm_def)

definition expected :: "(string \<rightharpoonup> ActionStatus \<times> string) \<Rightarrow> (action_step \<Rightarrow> ActionStatus \<times> string) \<Rightarrow> action_step \<Rightarrow> ActionStatus \<times> string" where
  "expected memory b step = (case memory (as_actionId step) of None \<Rightarrow> b step | Some r \<Rightarrow> r)"

lemma seq_spec_cong: "(\<And>step. step \<in> set steps \<Longrightarrow> b step = b' step) \<Longrightarrow> seq_spec b n i steps = seq_spec b' n i steps"
  by (induction steps arbitrary: i) (auto split: ActionStatus.split)

text \<open>What the service remembers in the end.\<close>

definition stops :: "ActionStatus \<Rightarrow> bool" where
  "stops status = (status = ActionStatus.CANCELLED \<or> status = ActionStatus.FAILED \<or> status = ActionStatus.TIMEOUT)"

fun seq_memory :: "(action_step \<Rightarrow> ActionStatus \<times> string) \<Rightarrow> (string \<rightharpoonup> ActionStatus \<times> string) \<Rightarrow> action_step list \<Rightarrow>
    (string \<rightharpoonup> ActionStatus \<times> string)" where
  "seq_memory b m [] = m"
| "seq_memory b m (step # steps) =
    (if stops (fst (b step)) then m(as_actionId step \<mapsto> b step) else seq_memory b (m(as_actionId step \<mapsto> b step)) steps)"

lemma seq_memory_other: "i \<notin> as_actionId ` set steps \<Longrightarrow> seq_memory b m steps i = m i"
  by (induction steps arbitrary: m) auto

lemma seq_memory_cong: "(\<And>step. step \<in> set steps \<Longrightarrow> b step = b' step) \<Longrightarrow> seq_memory b m steps = seq_memory b' m steps"
  by (induction steps arbitrary: m) auto

lemma seq_spec_again:
  "distinct (map as_actionId steps) \<Longrightarrow> seq_spec (expected (seq_memory b m steps) b') n i steps = seq_spec b n i steps"
proof (induction steps arbitrary: m i)
  case (Cons step steps)
  have head: "expected (seq_memory b m (step # steps)) b' step = b step"
    using Cons.prems by (simp add: expected_def seq_memory_other)
  show ?case
  proof (cases "stops (fst (b step))")
    case True
    then show ?thesis using head by (auto simp: stops_def simp del: seq_memory.simps)
  next
    case False
    have "seq_spec (expected (seq_memory b (m(as_actionId step \<mapsto> b step)) steps) b') n (i + 1) steps = seq_spec b n (i + 1) steps"
      using Cons.prems by (intro Cons.IH) simp
    then show ?thesis
      using head False by (cases "fst (b step)") (simp_all add: stops_def)
  qed
qed simp

lemma count_steps_0 [simp]: "count_steps 0 r = r"
  by (simp add: count_steps_def)

locale remembering_service =
  fixes svc :: "'x action_service"
    and good :: "'x \<Rightarrow> bool"
    and memory :: "'x \<Rightarrow> string \<rightharpoonup> ActionStatus \<times> string"
    and creates :: "action_step \<Rightarrow> bool"
    and behaviour :: "action_step \<Rightarrow> 'x \<Rightarrow> ActionStatus \<times> string"
    and survives :: "action_step \<Rightarrow> 'x \<Rightarrow> bool"
  assumes fresh: "good x \<Longrightarrow> creates step \<Longrightarrow> memory x (as_actionId step) = None \<Longrightarrow>
      \<exists>r c' y. svc [] step c x = Some (Inr r, c', y) \<and> brief r = behaviour step x \<and> good y \<and>
        memory y = (memory x)(as_actionId step \<mapsto> behaviour step x)"
    and again: "good x \<Longrightarrow> creates step \<Longrightarrow> memory x (as_actionId step) = Some b \<Longrightarrow> survives step x \<Longrightarrow>
      \<exists>r c' y. svc [] step c x = Some (Inr r, c', y) \<and> brief r = b \<and> good y \<and> memory y = memory x"
begin

text \<open>One call, new or not.\<close>

lemma call:
  assumes "good (se_exec e)" and "creates step" and "memory (se_exec e) (as_actionId step) \<noteq> None \<Longrightarrow> survives step (se_exec e)"
    and "b = expected (memory (se_exec e)) (\<lambda>step. behaviour step (se_exec e)) step"
  shows "\<exists>r e'. run_action svc quiet sid step e = Some (Inr r, e') \<and> brief r = b \<and> good (se_exec e') \<and>
    memory (se_exec e') = (memory (se_exec e))(as_actionId step \<mapsto> b) \<and> (\<forall>k. calm k e' = calm k e) \<and>
    se_calls e' = se_calls e @ [as_actionId step]"
proof (cases "memory (se_exec e) (as_actionId step)")
  case None
  from fresh [OF assms(1,2) None, of "se_context e"] show ?thesis
    using None assms(4) by (auto simp: run_action_def poll_quiet expected_def calm_def)
next
  case (Some b')
  from again [OF assms(1,2) Some, of "se_context e"] assms(3) Some show ?thesis
    using assms(4) by (auto simp: run_action_def poll_quiet expected_def calm_def fun_upd_idem)
qed

lemma call_known:
  assumes "good (se_exec e)" and "creates step" and "memory (se_exec e) (as_actionId step) = Some b" and "survives step (se_exec e)"
  shows "\<exists>r e'. run_action svc quiet sid step e = Some (Inr r, e') \<and> brief r = b \<and> good (se_exec e') \<and>
    memory (se_exec e') = memory (se_exec e) \<and> (\<forall>k. calm k e' = calm k e)"
proof -
  have "b = expected (memory (se_exec e)) (\<lambda>step. behaviour step (se_exec e)) step" using assms(3) by (simp add: expected_def)
  from call [OF assms(1,2,4) this, of sid] fun_upd_idem [of "memory (se_exec e)", OF assms(3)] show ?thesis by auto
qed

text \<open>Further attempts repeat the remembered result until the policy gives up.\<close>

lemma attempts_known:
  assumes "good (se_exec e)" and "creates step" and "memory (se_exec e) (as_actionId step) = Some b" and "\<forall>x. survives step x"
  shows "\<exists>r e'. run_attempts svc scaled quiet d i step k e =
      Some (Inr r, if fst b = ActionStatus.COMPLETED then k else retries_after d k, e') \<and> brief r = b \<and> good (se_exec e') \<and>
    memory (se_exec e') = memory (se_exec e) \<and> (\<forall>k. calm k e' = calm k e)"
  using assms(1,3)
proof (induction "nat (retries_after d k - k)" arbitrary: k e)
  case (0 k e)
  from call_known [OF 0(2) assms(2) 0(3), of "sq_id d"] assms(4) obtain r e' where
    r: "run_action svc quiet (sq_id d) step e = Some (Inr r, e')" "brief r = b" "good (se_exec e')"
    "memory (se_exec e') = memory (se_exec e)" "\<forall>k. calm k e' = calm k e"
    by blast
  moreover have "er_status r = fst b" using r(2) by (auto simp: brief_def)
  moreover have "retries_after d k = k" and "\<And>p. retryPolicy d = Some p \<Longrightarrow> \<not> canRetry p k"
    using 0(1) by (auto simp: retries_after_def canRetry_def split: option.splits)
  ultimately show ?case
    by (simp add: run_attempts.simps [of svc scaled quiet d i step k e] isSuccessful_def split: option.split)
next
  case (Suc n k e)
  from call_known [OF Suc(3) assms(2) Suc(4), of "sq_id d"] assms(4) obtain r e' where
    r: "run_action svc quiet (sq_id d) step e = Some (Inr r, e')" "brief r = b" "good (se_exec e')"
    "memory (se_exec e') = memory (se_exec e)" "\<forall>k. calm k e' = calm k e"
    by blast
  obtain p where p: "retryPolicy d = Some p" "canRetry p k" "retries_after d (k + 1) = retries_after d k"
    using Suc(2) by (auto simp: retries_after_def canRetry_def split: option.splits)
  let ?e = "e'\<lparr>se_waits := se_waits e' @ [waitBeforeRetry scaled p k]\<rparr>"
  have "n = nat (retries_after d (k + 1) - (k + 1))" using Suc(2) p(3) by simp
  moreover have "er_status r = fst b" using r(2) by (auto simp: brief_def)
  then have "run_attempts svc scaled quiet d i step k e =
      (if fst b = ActionStatus.COMPLETED
       then Some (Inr r, k, publish_se (StepCompleted (sq_id d) (as_actionId step) (as_actionType step) i (int (length (sq_steps d)))) e')
       else run_attempts svc scaled quiet d i step (k + 1) ?e)"
    using r(1) p by (simp add: run_attempts.simps [of svc scaled quiet d i step k e] isSuccessful_def)
  ultimately show ?case
    using Suc(1) [of "k + 1" ?e] r(2-5) Suc(4) p(3) by (cases "fst b = ActionStatus.COMPLETED") simp_all
qed

lemma attempts:
  assumes "good (se_exec e)" and "creates step" and "memory (se_exec e) (as_actionId step) \<noteq> None \<Longrightarrow> survives step (se_exec e)"
    and "b = expected (memory (se_exec e)) (\<lambda>step. behaviour step (se_exec e)) step"
    and "retryPolicy d \<noteq> None \<Longrightarrow> fst b \<noteq> ActionStatus.COMPLETED \<Longrightarrow> \<forall>x. survives step x"
  shows "\<exists>r e'. run_attempts svc scaled quiet d i step 0 e =
      Some (Inr r, if fst b = ActionStatus.COMPLETED then 0 else retries_after d 0, e') \<and> brief r = b \<and> good (se_exec e') \<and>
    memory (se_exec e') = (memory (se_exec e))(as_actionId step \<mapsto> b) \<and> (\<forall>k. calm k e' = calm k e)"
proof -
  from call [OF assms(1-4), where sid = "sq_id d"] obtain r e' where
    r: "run_action svc quiet (sq_id d) step e = Some (Inr r, e')" "brief r = b" "good (se_exec e')"
    "memory (se_exec e') = (memory (se_exec e))(as_actionId step \<mapsto> b)" "\<forall>k. calm k e' = calm k e" by blast
  have st: "er_status r = fst b" using r(2) by (auto simp: brief_def)
  show ?thesis
  proof (cases "\<exists>p. retryPolicy d = Some p \<and> canRetry p 0 \<and> fst b \<noteq> ActionStatus.COMPLETED")
    case True
    then obtain p where p: "retryPolicy d = Some p" "canRetry p 0" "fst b \<noteq> ActionStatus.COMPLETED" by blast
    let ?e = "e'\<lparr>se_waits := se_waits e' @ [waitBeforeRetry scaled p 0]\<rparr>"
    have "retries_after d 1 = retries_after d 0" using p by (simp add: retries_after_def canRetry_def)
    moreover have "run_attempts svc scaled quiet d i step 0 e = run_attempts svc scaled quiet d i step 1 ?e"
      using r(1) p st by (simp add: run_attempts.simps [of svc scaled quiet d i step 0 e] isSuccessful_def)
    moreover have "\<forall>x. survives step x" using assms(5) p by simp
    ultimately show ?thesis
      using attempts_known [of ?e step b scaled d i 1] r(3-5) p(3) assms(2) by simp
  next
    case False
    then have "run_attempts svc scaled quiet d i step 0 e = Some (Inr r, 0,
        if fst b = ActionStatus.COMPLETED
        then publish_se (StepCompleted (sq_id d) (as_actionId step) (as_actionType step) i (int (length (sq_steps d)))) e' else e')"
      using r(1) st by (simp add: run_attempts.simps [of svc scaled quiet d i step 0 e] isSuccessful_def split: option.split)
    moreover have "retries_after d 0 = 0" if "fst b \<noteq> ActionStatus.COMPLETED"
      using False that by (auto simp: retries_after_def canRetry_def split: option.split)
    ultimately show ?thesis using r(2-5) by simp
  qed
qed

text \<open>One step without a branch.\<close>

lemma step_done:
  assumes "good (se_exec e)" and "creates step" and "memory (se_exec e) (as_actionId step) \<noteq> None \<Longrightarrow> survives step (se_exec e)"
    and "b = expected (memory (se_exec e)) (\<lambda>step. behaviour step (se_exec e)) step"
    and "retryPolicy d \<noteq> None \<Longrightarrow> fst b \<noteq> ActionStatus.COMPLETED \<Longrightarrow> \<forall>x. survives step x"
    and "conditionalBranches d (as_actionId step) = None" and "calm (sq_id d) e"
  shows "\<exists>res' e'. good (se_exec e') \<and> memory (se_exec e') = (memory (se_exec e))(as_actionId step \<mapsto> b) \<and> calm (sq_id d) e' \<and>
    run_step svc N scaled quiet d i step res executed e =
      Some (if stops (fst b) then Inl (res', e') else Inr (count_steps 1 res, insert (as_actionId step) executed, e')) \<and>
    (stops (fst b) \<longrightarrow> short res' = (if fst b = ActionStatus.CANCELLED then (CANCELLED, sr_completedSteps res, sr_errorMessage res)
       else (FAILED, sr_completedSteps res,
         step_name i step @ '' failed after '' @ to_string (retries_after d 0) @ '' retries: '' @ snd b)))"
proof -
  from attempts [where d = d and scaled = scaled and i = i, OF assms(1-5)] obtain r e1 where
    r: "run_attempts svc scaled quiet d i step 0 e = Some (Inr r, if fst b = ActionStatus.COMPLETED then 0 else retries_after d 0, e1)"
    "brief r = b" "good (se_exec e1)" "memory (se_exec e1) = (memory (se_exec e))(as_actionId step \<mapsto> b)" "calm (sq_id d) e1"
    using assms(7) by auto
  have b: "er_status r = fst b" "er_errorMessage r = snd b" using r(2) by (auto simp: brief_def)
  let ?c = "e1\<lparr>se_context := setActionResult (as_actionId step) (CResult r) (se_context e1)\<rparr>"
  have c: "\<not> ss_cancelRequested (getOrCreateState (sq_id d) ?c)" using r(5) by (simp add: calm_def)
  show ?thesis
  proof (cases "stops (fst b)")
    case True
    then show ?thesis
      using r(1,3-5) b c
      by (auto simp: run_step_def isCancelled_def isFailed_def stops_def end_with_def short_def Let_def calm_def)
  next
    case False
    then show ?thesis
      using r(1,3-5) b c assms(6)
      by (simp add: run_step_def isCancelled_def isFailed_def stops_def handleConditionalBranch_def Let_def calm_def)
  qed
qed

lemma list_done:
  assumes "good (se_exec e)" and "calm (sq_id d) e" and "distinct (map as_actionId steps)"
    and "\<forall>step \<in> set steps. as_actionId step \<notin> executed \<and> creates step \<and> conditionalBranches d (as_actionId step) = None \<and>
      (memory (se_exec e) (as_actionId step) = None \<longrightarrow> (\<forall>x. behaviour step x = B step)) \<and>
      (memory (se_exec e) (as_actionId step) \<noteq> None \<or>
         retryPolicy d \<noteq> None \<and> fst (expected (memory (se_exec e)) B step) \<noteq> ActionStatus.COMPLETED \<longrightarrow> (\<forall>x. survives step x))"
    and "sr_errorMessage res = ''''" and "i = sr_completedSteps res"
  shows "\<exists>r e'. run_list svc N scaled quiet d i steps res executed e = Some (r, e') \<and>
    short r = seq_spec (expected (memory (se_exec e)) B) (retries_after d 0) i steps \<and> good (se_exec e') \<and>
    memory (se_exec e') = seq_memory (expected (memory (se_exec e)) B) (memory (se_exec e)) steps"
  using assms
proof (induction steps arbitrary: i res executed e)
  case Nil
  then show ?case by (simp add: short_def)
next
  case (Cons step steps)
  let ?e = "e\<lparr>se_tick := Suc (se_tick e)\<rparr>"
  let ?e1 = "publish_se (StepStarted (sq_id d) (as_actionId step) (as_actionType step) i (int (length (sq_steps d)))) ?e"
  let ?m = "memory (se_exec e)"
  let ?b = "expected ?m B step"
  have wait: "pause_wait quiet (sq_id d) ?e = Some ?e" using Cons.prems(2) by (simp add: pause_wait_unpaused calm_def)
  have go: "\<not> ss_cancelRequested (getOrCreateState (sq_id d) ?e)" using Cons.prems(2) by (simp add: calm_def)
  have s: "creates step" "?m (as_actionId step) \<noteq> None \<Longrightarrow> survives step (se_exec e)" "?b = expected ?m (\<lambda>step. behaviour step (se_exec e)) step"
    "retryPolicy d \<noteq> None \<Longrightarrow> fst ?b \<noteq> ActionStatus.COMPLETED \<Longrightarrow> \<forall>x. survives step x"
    "conditionalBranches d (as_actionId step) = None" "as_actionId step \<notin> executed"
    using Cons.prems(4) by (auto simp: expected_def split: option.split)
  have g: "good (se_exec ?e1)" "calm (sq_id d) ?e1" using Cons.prems(1,2) by simp_all
  obtain res' e' where st: "good (se_exec e')" "memory (se_exec e') = ?m(as_actionId step \<mapsto> ?b)" "calm (sq_id d) e'"
    "run_step svc N scaled quiet d i step res executed ?e1 =
      Some (if stops (fst ?b) then Inl (res', e') else Inr (count_steps 1 res, insert (as_actionId step) executed, e'))"
    "stops (fst ?b) \<longrightarrow> short res' = (if fst ?b = ActionStatus.CANCELLED then (CANCELLED, sr_completedSteps res, sr_errorMessage res)
       else (FAILED, sr_completedSteps res,
         step_name i step @ '' failed after '' @ to_string (retries_after d 0) @ '' retries: '' @ snd ?b))"
    using step_done [OF g(1) s(1) _ _ _ s(5) g(2), of ?b N scaled i res executed] s(2-4) by auto
  have run: "run_list svc N scaled quiet d i (step # steps) res executed e =
      (if stops (fst ?b) then Some (res', e')
       else run_list svc N scaled quiet d (i + 1) steps (count_steps 1 res) (insert (as_actionId step) executed) e')"
    using st(4) wait go s(6) by (simp add: poll_quiet)
  show ?case
  proof (cases "stops (fst ?b)")
    case True
    then show ?thesis
      using run st(1,2,5) Cons.prems(5,6) by (cases "fst ?b") (simp_all add: stops_def fun_upd_def del: run_list.simps)
  next
    case False
    have same: "expected (memory (se_exec e')) B t = expected ?m B t" "memory (se_exec e') (as_actionId t) = ?m (as_actionId t)"
      "as_actionId t \<noteq> as_actionId step" if "t \<in> set steps" for t
      using that Cons.prems(3) st(2) by (auto simp: expected_def image_iff)
    have "\<exists>r e''. run_list svc N scaled quiet d (i + 1) steps (count_steps 1 res) (insert (as_actionId step) executed) e' = Some (r, e'') \<and>
      short r = seq_spec (expected (memory (se_exec e')) B) (retries_after d 0) (i + 1) steps \<and> good (se_exec e'') \<and>
      memory (se_exec e'') = seq_memory (expected (memory (se_exec e')) B) (memory (se_exec e')) steps"
      using Cons.IH [OF st(1,3), of "insert (as_actionId step) executed" "count_steps 1 res" "i + 1"] Cons.prems(3-6) same by simp
    moreover have "seq_spec (expected (memory (se_exec e')) B) (retries_after d 0) (i + 1) steps = seq_spec (expected ?m B) (retries_after d 0) (i + 1) steps"
      using same(1) by (rule seq_spec_cong)
    moreover have "seq_memory (expected (memory (se_exec e')) B) (memory (se_exec e')) steps = seq_memory (expected ?m B) (memory (se_exec e')) steps"
      using same(1) by (rule seq_memory_cong)
    ultimately show ?thesis
      using run False st(2) by (cases "fst ?b") (simp_all add: stops_def fun_upd_def del: run_list.simps)
  qed
qed

lemma sequence_done:
  assumes "good (se_exec e)" and "distinct (map as_actionId (sq_steps d))"
    and "\<forall>step \<in> set (sq_steps d). creates step \<and> conditionalBranches d (as_actionId step) = None \<and>
      (memory (se_exec e) (as_actionId step) = None \<longrightarrow> (\<forall>x. behaviour step x = B step)) \<and>
      (memory (se_exec e) (as_actionId step) \<noteq> None \<or>
         retryPolicy d \<noteq> None \<and> fst (expected (memory (se_exec e)) B step) \<noteq> ActionStatus.COMPLETED \<longrightarrow> (\<forall>x. survives step x))"
  shows "\<exists>r e'. execute_se svc N scaled quiet clock d e = Some (r, e') \<and>
    short r = seq_spec (expected (memory (se_exec e)) B) (retries_after d 0) 0 (sq_steps d) \<and> good (se_exec e') \<and>
    memory (se_exec e') = seq_memory (expected (memory (se_exec e)) B) (memory (se_exec e)) (sq_steps d)"
proof -
  let ?e = "start_sequence d (clock 0) e"
  have "\<exists>r e'. run_list svc N scaled quiet d 0 (sq_steps d) (start_result d) {} ?e = Some (r, e') \<and>
    short r = seq_spec (expected (memory (se_exec ?e)) B) (retries_after d 0) 0 (sq_steps d) \<and> good (se_exec e') \<and>
    memory (se_exec e') = seq_memory (expected (memory (se_exec ?e)) B) (memory (se_exec ?e)) (sq_steps d)"
    using assms by (intro list_done) (auto simp: start_result_def)
  then show ?thesis by (auto simp: execute_se_def executeSequential_def short_def Let_def)
qed

end

section \<open>The executor remembers\<close>

lemma executor_service_created:
  assumes "action_of F step = Some run"
  shows "executor_service F clock effect [] step c x =
    map_option (\<lambda>(r, y). (Inr r, effect step c, y))
      (perform_created clock (as_actionId step) (as_actionType step) (as_timeout step) (run (length (runners x))) x)"
  using assms by (auto simp: executor_service_def perform_created_def action_of_def split: sum.splits)

lemma executor_fresh:
  assumes "settled x" and "creatable F step" and "known x (as_actionId step) = None"
  shows "\<exists>r c' y. executor_service F clock effect [] step c x = Some (Inr r, c', y) \<and> brief r = run_brief F step x \<and> settled y \<and>
    known y = (known x)(as_actionId step \<mapsto> run_brief F step x)"
proof -
  obtain run where run: "action_of F step = Some run" using assms(2) by (auto simp: creatable_def)
  from created_new [OF assms(1,3), of clock "as_actionType step" "as_timeout step" "run (length (runners x))"]
  show ?thesis using run by (auto simp: executor_service_created run_brief_def)
qed

lemma executor_again:
  assumes "settled x" and "creatable F step" and "known x (as_actionId step) = Some b" and "repeatable F step x"
  shows "\<exists>r c' y. executor_service F clock effect [] step c x = Some (Inr r, c', y) \<and> brief r = b \<and> settled y \<and> known y = known x"
proof -
  obtain run where run: "action_of F step = Some run" using assms(2) by (auto simp: creatable_def)
  then obtain status p where out: "run (length (runners x)) = OReturns status p" and t: "as_timeout step \<le> 0"
    using assms(4) by (cases "run (length (runners x))") (auto simp: repeatable_def)
  from created_known [OF assms(1,3) t out, of clock "as_actionType step"]
  show ?thesis using run by (auto simp: executor_service_created)
qed

interpretation exq: remembering_service "executor_service F clock effect" settled known "creatable F" "run_brief F" "repeatable F"
  for F clock effect
  by unfold_locales (blast intro: executor_fresh executor_again)+

section \<open>Properties\<close>


definition two_moves :: sequence_definition where
  "two_moves = addStep (ActionStep ''b'' ''Move'') (addStep (ActionStep ''a'' ''Move'') (SequenceDefinition ''s'' ''''))"

definition move_factory :: "(string \<Rightarrow> nat \<Rightarrow> outcome) \<Rightarrow> (nat \<Rightarrow> outcome) action_factory" where
  "move_factory run = registerFactory ''Move'' (\<lambda>i parameters. Inr (run i)) Map.empty"

lemmas two_moves_defs = two_moves_def addStep_def ActionStep_def SequenceDefinition_def move_factory_def registerFactory_def action_of_def createAction_def

lemma new_engine [simp]:
  "settled (se_exec (SequenceEngine ActionExecutor))" "known (se_exec (SequenceEngine ActionExecutor)) i = None"
  "runners (se_exec (SequenceEngine ActionExecutor)) = []"
  by (simp add: SequenceEngine_def settled_new) (simp_all add: SequenceEngine_def known_def ActionExecutor_def)




context remembering_service
begin

lemma single_done:
  assumes "good (se_exec e)" and "creates step" and "memory (se_exec e) (as_actionId step) = None"
    and "\<forall>x. survives step x" and "sq_steps d = [step]" and "conditionalBranches d = Map.empty"
  shows "\<exists>r e'. execute_se svc N scaled quiet clock d e = Some (r, e') \<and>
    short r = seq_spec (\<lambda>step. behaviour step (se_exec e)) (retries_after d 0) 0 [step]"
proof -
  let ?e0 = "start_sequence d (clock 0) e"
  let ?e = "?e0\<lparr>se_tick := Suc (se_tick ?e0)\<rparr>"
  let ?e1 = "publish_se (StepStarted (sq_id d) (as_actionId step) (as_actionType step) 0 (int (length (sq_steps d)))) ?e"
  let ?b = "behaviour step (se_exec e)"
  have wait: "pause_wait quiet (sq_id d) ?e = Some ?e" by (simp add: pause_wait_unpaused)
  obtain res' e' where st: "run_step svc N scaled quiet d 0 step (start_result d) {} ?e1 =
      Some (if stops (fst ?b) then Inl (res', e') else Inr (count_steps 1 (start_result d), {as_actionId step}, e'))"
    "stops (fst ?b) \<longrightarrow> short res' = (if fst ?b = ActionStatus.CANCELLED then (CANCELLED, 0, '''')
       else (FAILED, 0, step_name 0 step @ '' failed after '' @ to_string (retries_after d 0) @ '' retries: '' @ snd ?b))"
    using step_done [of ?e1 step ?b d N scaled 0 "start_result d" "{}"] assms
    by (auto simp: expected_def start_result_def simp del: append.simps)
  show ?thesis
  proof (cases "stops (fst ?b)")
    case True
    then show ?thesis
      using st wait assms(5)
      by (cases "fst ?b") (simp_all add: execute_se_def executeSequential_def poll_quiet stops_def short_def Let_def)
  next
    case False
    then show ?thesis
      using st wait assms(5)
      by (cases "fst ?b")
        (simp_all add: execute_se_def executeSequential_def poll_quiet stops_def short_def Let_def, simp_all add: start_result_def count_steps_def)
  qed
qed

end

text \<open>C38. A retry policy cannot help. An action that fails in its first run and would succeed in the next is run again as
  often as the policy says, and each time the executor gives the result of the first run: the sequence fails.\<close>

theorem retry_repeats_first_result:
  assumes "settled (se_exec e)" and "sq_steps d = [step]" and "conditionalBranches d = Map.empty" and "retryPolicy d = Some p" and "0 \<le> maxRetries p"
    and "known (se_exec e) (as_actionId step) = None" and "as_timeout step \<le> 0" and "action_of F step = Some run" and "\<forall>n. returns (run n)"
    and "run (length (runners (se_exec e))) = OReturns ActionStatus.FAILED q"
  shows "\<exists>r e'. execute_se (executor_service F clock effect) N scaled quiet clock' d e = Some (r, e') \<and> sr_status r = FAILED \<and>
    sr_errorMessage r = ''Step 1 ('' @ as_actionId step @ '') failed after '' @ to_string (maxRetries p) @ '' retries: ''"
proof -
  have "\<exists>r e'. execute_se (executor_service F clock effect) N scaled quiet clock' d e = Some (r, e') \<and>
    short r = seq_spec (\<lambda>step. run_brief F step (se_exec e)) (retries_after d 0) 0 [step]"
    using assms by (intro exq.single_done) (auto simp: creatable_def repeatable_def)
  moreover have "retries_after d 0 = maxRetries p" using assms(4,5) by (simp add: retries_after_def)
  moreover have "run_brief F step (se_exec e) = (ActionStatus.FAILED, '''')" using assms(8,10) by (simp add: run_brief_def)
  moreover have "to_string 1 = ''1''" by code_simp
  ultimately show ?thesis by (auto simp: short_def step_name_def)
qed

text \<open>If the action fails by an exception both times, the policy makes things worse: the second attempt never returns, and
  the sequence hangs in it.\<close>

theorem retry_hangs:
  assumes "settled (se_exec e)" and "sq_steps d = step # rest" and "retryPolicy d = Some p" and "0 < maxRetries p"
    and "known (se_exec e) (as_actionId step) = None" and "action_of F step = Some (\<lambda>n. OThrows m status q)"
  shows "execute_se (executor_service F clock effect) N scaled quiet clock' d e = None"
proof -
  let ?svc = "executor_service F clock effect" and ?e0 = "start_sequence d (clock' 0) e"
  let ?e = "?e0\<lparr>se_tick := Suc (se_tick ?e0)\<rparr>"
  let ?e1 = "publish_se (StepStarted (sq_id d) (as_actionId step) (as_actionType step) 0 (int (length (sq_steps d)))) ?e"
  have wait: "pause_wait quiet (sq_id d) ?e = Some ?e" by (simp add: pause_wait_unpaused)
  obtain r e2 where r: "run_action ?svc quiet (sq_id d) step ?e1 = Some (Inr r, e2)" "brief r = (ActionStatus.FAILED, m)"
    "settled (se_exec e2)" "known (se_exec e2) (as_actionId step) = Some (ActionStatus.FAILED, m)"
    using exq.call [of ?e1 F step "(ActionStatus.FAILED, m)" clock effect "sq_id d"] assms(1,5,6)
    by (auto simp: creatable_def expected_def run_brief_def)
  have hang: "run_action ?svc quiet (sq_id d) step e' = None" if "se_exec e' = se_exec e2" for e'
    using created_known_throws [OF r(3,4) refl] that assms(6)
    by (simp add: run_action_def poll_quiet executor_service_created)
  have "run_attempts ?svc scaled quiet d 0 step 0 ?e1 = None"
    using r(1,2) assms(3,4)
    by (simp add: run_attempts.simps [of _ _ _ _ _ _ 0] run_attempts.simps [of _ _ _ _ _ _ 1] isSuccessful_def brief_def canRetry_def hang)
  then show ?thesis
    using wait assms(2) by (simp add: execute_se_def executeSequential_def poll_quiet run_step_def)
qed

definition one_move :: "int \<Rightarrow> sequence_definition" where
  "one_move n = setRetryPolicy (RetryPolicy n 100) (addStep (ActionStep ''a'' ''Move'') (SequenceDefinition ''s'' []))"

lemmas one_move_defs = one_move_def setRetryPolicy_def RetryPolicy_def two_moves_defs

theorem retry_repeats_first_result_witness:
  "\<exists>r e'. execute_se (executor_service (move_factory (\<lambda>i n. OReturns (if n = 0 then ActionStatus.FAILED else ActionStatus.COMPLETED) (Quot 1 1)))
      (\<lambda>n. 0) (\<lambda>step c. c)) plain_num_lib (\<lambda>d m n. d) quiet (\<lambda>n. 0) (one_move 3) (SequenceEngine ActionExecutor) = Some (r, e') \<and>
    sr_status r = FAILED"
proof -
  let ?run = "\<lambda>n. OReturns (if n = 0 then ActionStatus.FAILED else ActionStatus.COMPLETED) (Quot 1 1)"
  show ?thesis
    using retry_repeats_first_result [of "SequenceEngine ActionExecutor" "one_move 3" "ActionStep ''a'' ''Move''" "RetryPolicy 3 100"
        "move_factory (\<lambda>i. ?run)" ?run "Quot 1 1" "\<lambda>n. 0" "\<lambda>step c. c" plain_num_lib "\<lambda>d m n. d" "\<lambda>n. 0"]
    by (auto simp: one_move_defs)
qed

theorem retry_hangs_witness:
  "execute_se (executor_service (move_factory (\<lambda>i n. OThrows ''e'' ActionStatus.RUNNING (Quot 0 1))) (\<lambda>n. 0) (\<lambda>step c. c))
    plain_num_lib (\<lambda>d m n. d) quiet (\<lambda>n. 0) (one_move 3) (SequenceEngine ActionExecutor) = None"
proof -
  show ?thesis
    using retry_hangs [of "SequenceEngine ActionExecutor" "one_move 3" "ActionStep ''a'' ''Move''" "[]" "RetryPolicy 3 100"
        "move_factory (\<lambda>i n. OThrows ''e'' ActionStatus.RUNNING (Quot 0 1))" "''e''" ActionStatus.RUNNING "Quot 0 1" "\<lambda>n. 0" "\<lambda>step c. c"
        plain_num_lib "\<lambda>d m n. d" "\<lambda>n. 0"]
    by (simp add: one_move_defs)
qed

end
