(* ===== verification/Task_Executor.thy ===== *)
theory Task_Executor
  imports Sequence_Runs
begin

text \<open>
  Tasks, \<^verbatim>\<open>src/src/core/task\<close>: the definitions of \<^verbatim>\<open>dto\<close>, the registry and the executor of \<^verbatim>\<open>core\<close>. The executor works on an action executor and
  a sequence engine; as in the application, both use the same action executor, which is the one inside the engine.

  While a task waits for its action, other threads go on: \<open>before\<close> and \<open>after\<close> are their steps in the action executor before and
  after the task looks at its cancel flag for the last time, and \<open>reqs\<close> are the calls of \<^verbatim>\<open>cancel\<close>, \<^verbatim>\<open>pause\<close> and \<^verbatim>\<open>resume\<close>. A task that
  waits still after these steps is \<open>None\<close>.

  The lemmas show what a task reports of its action, once, twice and when it is cancelled, and that a
  sequence task executes nothing.
\<close>

section \<open>Definitions\<close>

datatype TaskExecutionMode = ONCE | PERIODIC | TRIGGERED

fun taskExecutionModeToString :: "TaskExecutionMode \<Rightarrow> string" where
  "taskExecutionModeToString ONCE = ''ONCE''"
| "taskExecutionModeToString PERIODIC = ''PERIODIC''"
| "taskExecutionModeToString TRIGGERED = ''TRIGGERED''"

datatype TaskStatus = IDLE | RUNNING | COMPLETED | FAILED | CANCELLED | PAUSED | SCHEDULED

fun taskStatusToString :: "TaskStatus \<Rightarrow> string" where
  "taskStatusToString IDLE = ''IDLE''"
| "taskStatusToString RUNNING = ''RUNNING''"
| "taskStatusToString COMPLETED = ''COMPLETED''"
| "taskStatusToString FAILED = ''FAILED''"
| "taskStatusToString CANCELLED = ''CANCELLED''"
| "taskStatusToString PAUSED = ''PAUSED''"
| "taskStatusToString SCHEDULED = ''SCHEDULED''"

datatype TaskWorkType = ACTION | SEQUENCE

record task_definition =
  td_id :: string
  td_name :: string
  td_description :: string
  td_executionMode :: TaskExecutionMode
  td_workType :: TaskWorkType
  td_workId :: string
  td_periodicInterval :: "int option"
  td_triggerCondition :: "string option"
  td_timeout :: int

definition TaskDefinition :: "string \<Rightarrow> string \<Rightarrow> task_definition" where
  "TaskDefinition taskId taskName =
    \<lparr>td_id = taskId, td_name = (if taskName = '''' then taskId else taskName), td_description = '''', td_executionMode = ONCE,
     td_workType = ACTION, td_workId = '''', td_periodicInterval = None, td_triggerCondition = None, td_timeout = 0\<rparr>"

definition setWork :: "string \<Rightarrow> task_definition \<Rightarrow> task_definition" where
  "setWork actionId d = d\<lparr>td_workType := ACTION, td_workId := actionId\<rparr>"

definition setWorkSequence :: "string \<Rightarrow> task_definition \<Rightarrow> task_definition" where
  "setWorkSequence sequenceId d = d\<lparr>td_workType := SEQUENCE, td_workId := sequenceId\<rparr>"

definition setOnceMode :: "task_definition \<Rightarrow> task_definition" where
  "setOnceMode d = d\<lparr>td_executionMode := ONCE\<rparr>"

definition setPeriodicMode :: "int \<Rightarrow> task_definition \<Rightarrow> task_definition" where
  "setPeriodicMode interval d = d\<lparr>td_executionMode := PERIODIC, td_periodicInterval := Some interval\<rparr>"

definition setTriggeredMode :: "string \<Rightarrow> task_definition \<Rightarrow> task_definition" where
  "setTriggeredMode cond d = d\<lparr>td_executionMode := TRIGGERED, td_triggerCondition := Some cond\<rparr>"

section \<open>The registry\<close>

type_synonym task_registry = "string \<rightharpoonup> task_definition"

definition registerDefinition_tr :: "task_definition \<Rightarrow> task_registry \<Rightarrow> task_registry" where
  "registerDefinition_tr d m = m(td_id d \<mapsto> d)"

definition getDefinition_tr :: "string \<Rightarrow> task_registry \<Rightarrow> task_definition option" where
  "getDefinition_tr i m = m i"

definition hasDefinition_tr :: "string \<Rightarrow> task_registry \<Rightarrow> bool" where
  "hasDefinition_tr i m = (m i \<noteq> None)"

definition removeDefinition_tr :: "string \<Rightarrow> task_registry \<Rightarrow> bool \<times> task_registry" where
  "removeDefinition_tr i m = (if m i = None then (False, m) else (True, m(i := None)))"

definition clear_tr :: "task_registry \<Rightarrow> task_registry" where
  "clear_tr m = Map.empty"

section \<open>The executor\<close>

record task_execution =
  tx_taskId :: string
  tx_executionId :: string
  tx_status :: TaskStatus
  tx_progress :: progress
  tx_errorMessage :: string
  tx_executionTime :: int
  tx_startTime :: time
  tx_endTime :: time
  tx_executionCount :: int

definition isSuccessful_tx :: "task_execution \<Rightarrow> bool" where
  "isSuccessful_tx r = (tx_status r = COMPLETED)"

definition isFailed_tx :: "task_execution \<Rightarrow> bool" where
  "isFailed_tx r = (tx_status r = FAILED \<or> tx_status r = CANCELLED)"

record task_state =
  tt_status :: TaskStatus
  tt_progress :: progress
  tt_cancelRequested :: bool
  tt_pauseRequested :: bool
  tt_startTime :: time
  tt_lastReportedProgress :: progress

definition TaskState :: task_state where
  "TaskState =
    \<lparr>tt_status = IDLE, tt_progress = Quot 0 1, tt_cancelRequested = False, tt_pauseRequested = False, tt_startTime = 0,
     tt_lastReportedProgress = Quot 0 1\<rparr>"

datatype task_event =
    TaskStarted string string string string
  | TaskCompleted string string int progress
  | TaskFailed string string string int progress
  | TaskCancelled string string int progress

datatype task_request = TCancel string | TPause string | TResume string

record task_executor =
  te_states :: "string \<rightharpoonup> task_state"
  te_events :: "task_event list"
  te_engine :: "executor engine"

definition TaskExecutor :: task_executor where
  "TaskExecutor = \<lparr>te_states = Map.empty, te_events = [], te_engine = SequenceEngine ActionExecutor\<rparr>"

definition publish_te :: "task_event \<Rightarrow> task_executor \<Rightarrow> task_executor" where
  "publish_te ev te = te\<lparr>te_events := te_events te @ [ev]\<rparr>"

definition getOrCreateState_te :: "string \<Rightarrow> task_executor \<Rightarrow> task_state" where
  "getOrCreateState_te tid te = (case te_states te tid of None \<Rightarrow> TaskState | Some s \<Rightarrow> s)"

definition set_state_te :: "string \<Rightarrow> (task_state \<Rightarrow> task_state) \<Rightarrow> task_executor \<Rightarrow> task_executor" where
  "set_state_te tid f te = te\<lparr>te_states := (te_states te)(tid \<mapsto> f (getOrCreateState_te tid te))\<rparr>"

definition update_known_te :: "string \<Rightarrow> (task_state \<Rightarrow> task_state) \<Rightarrow> task_executor \<Rightarrow> task_executor" where
  "update_known_te tid f te = te\<lparr>te_states := (te_states te)(tid := map_option f (te_states te tid))\<rparr>"

definition cancel_te :: "string \<Rightarrow> task_executor \<Rightarrow> task_executor" where
  "cancel_te tid te = update_known_te tid (\<lambda>s. s\<lparr>tt_cancelRequested := True\<rparr>) te"

definition pause_te :: "string \<Rightarrow> task_executor \<Rightarrow> task_executor" where
  "pause_te tid te = update_known_te tid (\<lambda>s. s\<lparr>tt_pauseRequested := True, tt_status := PAUSED\<rparr>) te"

definition resume_te :: "string \<Rightarrow> task_executor \<Rightarrow> task_executor" where
  "resume_te tid te = update_known_te tid (\<lambda>s. s\<lparr>tt_pauseRequested := False, tt_status := RUNNING\<rparr>) te"

definition getStatus_te :: "string \<Rightarrow> task_executor \<Rightarrow> TaskStatus" where
  "getStatus_te tid te = (case te_states te tid of None \<Rightarrow> IDLE | Some s \<Rightarrow> tt_status s)"

definition getProgress_te :: "string \<Rightarrow> task_executor \<Rightarrow> progress" where
  "getProgress_te tid te = (case te_states te tid of None \<Rightarrow> Quot 0 1 | Some s \<Rightarrow> tt_progress s)"

definition clearCompletedTasks :: "task_executor \<Rightarrow> task_executor" where
  "clearCompletedTasks te =
    te\<lparr>te_states := (\<lambda>tid. case te_states te tid of
        None \<Rightarrow> None
      | Some s \<Rightarrow> if tt_status s = COMPLETED \<or> tt_status s = FAILED \<or> tt_status s = CANCELLED then None else Some s)\<rparr>"

fun handle_task_request :: "task_request \<Rightarrow> task_executor \<Rightarrow> task_executor" where
  "handle_task_request (TCancel tid) te = cancel_te tid te"
| "handle_task_request (TPause tid) te = pause_te tid te"
| "handle_task_request (TResume tid) te = resume_te tid te"

definition start_execution :: "task_definition \<Rightarrow> (nat \<Rightarrow> time) \<Rightarrow> task_execution" where
  "start_execution d sys =
    \<lparr>tx_taskId = td_id d, tx_executionId = td_id d @ ''_exec_'' @ to_string (sys 0), tx_status = RUNNING, tx_progress = Quot 0 1,
     tx_errorMessage = '''', tx_executionTime = 0, tx_startTime = sys 1, tx_endTime = 0, tx_executionCount = 0\<rparr>"

text \<open>The three ways in which work ends, for the result and for the state.\<close>

definition end_cancelled :: "task_execution \<Rightarrow> task_executor \<Rightarrow> task_execution \<times> task_executor" where
  "end_cancelled r te = (r\<lparr>tx_status := CANCELLED\<rparr>, set_state_te (tx_taskId r) (\<lambda>s. s\<lparr>tt_status := CANCELLED\<rparr>) te)"

definition end_completed :: "task_execution \<Rightarrow> task_executor \<Rightarrow> task_execution \<times> task_executor" where
  "end_completed r te =
    (r\<lparr>tx_status := COMPLETED, tx_progress := Quot 1 1\<rparr>,
     set_state_te (tx_taskId r) (\<lambda>s. s\<lparr>tt_status := COMPLETED, tt_progress := Quot 1 1\<rparr>) te)"

definition end_failed :: "string \<Rightarrow> task_execution \<Rightarrow> task_executor \<Rightarrow> task_execution \<times> task_executor" where
  "end_failed m r te =
    (r\<lparr>tx_status := FAILED, tx_errorMessage := m\<rparr>, set_state_te (tx_taskId r) (\<lambda>s. s\<lparr>tt_status := FAILED\<rparr>) te)"

definition convert_result :: "execution_result \<Rightarrow> task_execution \<Rightarrow> task_executor \<Rightarrow> task_execution \<times> task_executor" where
  "convert_result ar r te =
    (if isCancelled ar \<or> er_status ar = ActionStatus.TIMEOUT \<and> tt_cancelRequested (getOrCreateState_te (tx_taskId r) te)
     then end_cancelled r te
     else if isSuccessful ar then end_completed r te
     else end_failed (er_errorMessage ar) r te)"

definition executeAction ::
  "(nat \<Rightarrow> outcome) action_factory \<Rightarrow> (nat \<Rightarrow> time) \<Rightarrow> (nat \<Rightarrow> time) \<Rightarrow> task_request list \<Rightarrow> exec_op list \<Rightarrow> exec_op list \<Rightarrow>
     task_definition \<Rightarrow> task_executor \<Rightarrow> (task_execution \<times> task_executor) option" where
  "executeAction F clock sys reqs before after d te =
    (let r = start_execution d sys in
     case createAction F (td_workId d) [''id'' \<mapsto> td_workId d] of
       Inl m \<Rightarrow>
         (let (r, te) = end_failed m r te in Some (r\<lparr>tx_endTime := sys 2\<rparr>, te))
     | Inr run \<Rightarrow> do {
         let x = new_object (td_workId d) (td_workId d) (se_exec (te_engine te));
         x \<leftarrow> executeAsync clock (length (objects x) - 1) 0 (run (length (runners x))) x;
         let te = fold handle_task_request reqs te;
         x \<leftarrow> exec_steps x before;
         x \<leftarrow> (if isRunning_ae (td_workId d) x then
                 if tt_cancelRequested (getOrCreateState_te (td_id d) te)
                 then Option.bind (cancel_ae (td_workId d) x) (\<lambda>x. exec_steps x after)
                 else None
               else Some x);
         let ar = getResult (td_workId d) (clock 2) x;
         let te = te\<lparr>te_engine := (te_engine te)\<lparr>se_exec := x\<rparr>\<rparr>;
         let (r, te) = convert_result ar r te;
         Some (r\<lparr>tx_executionTime := er_executionTime ar, tx_endTime := sys 2\<rparr>, te)
       })"

text \<open>The engine gets a definition that has only an id. A request to cancel the task is passed on to the engine.\<close>

definition executeSequence ::
  "executor action_service \<Rightarrow> num_lib \<Rightarrow> (int \<Rightarrow> u64 \<Rightarrow> int \<Rightarrow> int) \<Rightarrow> (nat \<Rightarrow> seq_request list) \<Rightarrow> (nat \<Rightarrow> time) \<Rightarrow> (nat \<Rightarrow> time) \<Rightarrow> task_request list \<Rightarrow>
     task_definition \<Rightarrow> task_executor \<Rightarrow> (task_execution \<times> task_executor) option" where
  "executeSequence svc N scaled seq_reqs steady sys reqs d te =
    (let r = start_execution d sys;
         te = fold handle_task_request reqs te
     in case execute_se svc N scaled seq_reqs steady (SequenceDefinition (td_workId d) (td_workId d)) (te_engine te) of
          None \<Rightarrow> None
        | Some (sr, e) \<Rightarrow>
            let e = (if tt_cancelRequested (getOrCreateState_te (td_id d) te) then snd (cancel_se (td_workId d) e) else e);
                te = te\<lparr>te_engine := e\<rparr>;
                (r, te) = (if sr_status sr = SequenceStatus.CANCELLED then end_cancelled r te
                           else if isSuccessful_sr sr then end_completed r te
                           else end_failed (sr_errorMessage sr) r te)
            in Some (r\<lparr>tx_executionTime := sr_executionTime sr, tx_endTime := sys 2\<rparr>, te))"

definition work_name :: "TaskWorkType \<Rightarrow> string" where
  "work_name w = (case w of ACTION \<Rightarrow> ''ACTION'' | SEQUENCE \<Rightarrow> ''SEQUENCE'')"

definition start_task :: "task_definition \<Rightarrow> time \<Rightarrow> task_executor \<Rightarrow> task_executor" where
  "start_task d now te =
    publish_te (TaskStarted (td_id d) (td_name d) (taskExecutionModeToString (td_executionMode d)) (work_name (td_workType d)))
      (set_state_te (td_id d)
        (\<lambda>s. s\<lparr>tt_status := RUNNING, tt_cancelRequested := False, tt_pauseRequested := False, tt_startTime := now\<rparr>) te)"

definition announce_task :: "task_definition \<Rightarrow> int \<Rightarrow> task_execution \<Rightarrow> task_executor \<Rightarrow> task_executor" where
  "announce_task d elapsed r te =
    (case tx_status r of
       COMPLETED \<Rightarrow> publish_te (TaskCompleted (td_id d) (td_name d) elapsed (tx_progress r)) te
     | FAILED \<Rightarrow> publish_te (TaskFailed (td_id d) (td_name d) (tx_errorMessage r) elapsed (tx_progress r)) te
     | CANCELLED \<Rightarrow> publish_te (TaskCancelled (td_id d) (td_name d) elapsed (tx_progress r)) te
     | _ \<Rightarrow> te)"

record task_env =
  tv_factory :: "(nat \<Rightarrow> outcome) action_factory"
  tv_effect :: "action_step \<Rightarrow> execution_context \<Rightarrow> execution_context"
  tv_numbers :: num_lib
  tv_scaled :: "int \<Rightarrow> u64 \<Rightarrow> int \<Rightarrow> int"
  tv_clock :: "nat \<Rightarrow> time"
  tv_system :: "nat \<Rightarrow> time"

definition execute_te ::
  "task_env \<Rightarrow> task_request list \<Rightarrow> exec_op list \<Rightarrow> exec_op list \<Rightarrow> (nat \<Rightarrow> seq_request list) \<Rightarrow> task_definition \<Rightarrow> task_executor \<Rightarrow>
     (task_execution \<times> task_executor) option" where
  "execute_te V reqs before after seq_reqs d te =
    (let te = start_task d (tv_clock V 0) te in
     case (if td_workType d = ACTION
           then executeAction (tv_factory V) (tv_clock V) (tv_system V) reqs before after d te
           else executeSequence (executor_service (tv_factory V) (tv_clock V) (tv_effect V)) (tv_numbers V) (tv_scaled V) seq_reqs
             (tv_clock V) (tv_system V) reqs d te) of
       None \<Rightarrow> None
     | Some (r, te) \<Rightarrow> Some (r, announce_task d (elapsed_ms (tv_clock V 3) (tv_clock V 0)) r te))"

section \<open>Lemmas\<close>

lemma getOrCreateState_te_simps [simp]:
  "getOrCreateState_te k (set_state_te tid f te) = (if k = tid then f (getOrCreateState_te tid te) else getOrCreateState_te k te)"
  "getOrCreateState_te k (publish_te ev te) = getOrCreateState_te k te"
  "getOrCreateState_te k (te\<lparr>te_engine := e\<rparr>) = getOrCreateState_te k te"
  by (simp_all add: getOrCreateState_te_def set_state_te_def publish_te_def)

lemma te_engine_simps [simp]:
  "te_engine (set_state_te tid f te) = te_engine te" "te_engine (publish_te ev te) = te_engine te"
  "te_engine (start_task d t te) = te_engine te" "te_engine (announce_task d ms r te) = te_engine te"
  by (simp_all add: set_state_te_def publish_te_def start_task_def announce_task_def split: TaskStatus.split)

lemma te_engine_request [simp]: "te_engine (handle_task_request q te) = te_engine te"
  by (cases q) (simp_all add: cancel_te_def pause_te_def resume_te_def update_known_te_def)

lemma te_engine_requests [simp]: "te_engine (fold handle_task_request qs te) = te_engine te"
  by (induction qs arbitrary: te) simp_all

lemma getStatus_te_eq: "getStatus_te tid te = tt_status (getOrCreateState_te tid te)"
  by (simp add: getStatus_te_def getOrCreateState_te_def TaskState_def split: option.split)

lemma getStatus_te_announce [simp]: "getStatus_te tid (announce_task d ms r te) = getStatus_te tid te"
  by (simp add: announce_task_def getStatus_te_eq split: TaskStatus.split)

lemma start_task_cancel [simp]: "tt_cancelRequested (getOrCreateState_te (td_id d) (start_task d t te)) = False"
  by (simp add: start_task_def)

lemma start_task_known [simp]: "te_states (start_task d t te) (td_id d) \<noteq> None"
  by (simp add: start_task_def set_state_te_def publish_te_def)

text \<open>The steps of a run that ends.\<close>

fun run_ops :: "nat \<Rightarrow> outcome \<Rightarrow> time \<Rightarrow> exec_op list" where
  "run_ops n (OReturns status p) t = [Returns n status p t]"
| "run_ops n (OThrows m status p) t = [Throws n m status p, Catches n t]"

lemma run_ops_finish: "exec_steps x (run_ops n out t) = finish_run n out t x"
  by (cases out) (simp_all add: bind_eq_Some_conv split: bind_split)

lemma isRunning_wait: "isRunning_ae i x = (\<not> wait_over i x)"
  by (simp add: isRunning_ae_def wait_over_def split: option.split)

text \<open>A call of the executor as a task makes it, in two halves.\<close>

lemma async_fresh:
  assumes "settled x" and "known x i = None"
  shows "\<exists>y z r. executeAsync clock (length (objects x)) 0 out (new_object i ty x) = Some y \<and> isRunning_ae i y \<and>
    getResult i t y = (ExecutionResult i ActionStatus.RUNNING)\<lparr>er_progress := Quot 0 1\<rparr> \<and> mutex_holder y = None \<and>
    exec_steps y (run_ops (length (runners x)) out (clock 1)) = Some z \<and> \<not> isRunning_ae i z \<and> settled z \<and>
    known z = (known x)(i \<mapsto> outcome_brief out) \<and> brief (getResult i (clock 2) z) = outcome_brief out"
proof -
  let ?x = "new_object i ty x"
  have x: "idle x" "runningActions x i = None" using assms by (auto simp: settled_def known_def split: if_splits)
  obtain r z where p: "perform clock (length (objects x)) 0 out [] ?x = Some (r, z)" "brief r = outcome_brief out" "settled z"
    "known z = (known x)(i \<mapsto> outcome_brief out)"
    using created_new [OF assms, of clock ty 0 out] by (auto simp: perform_created_def)
  obtain y where y: "executeAsync clock (length (objects x)) 0 out ?x = Some y" "rn_pc (runners y ! length (runners x)) = Executing"
    "isRunning_ae i y" "getResult i t y = (ExecutionResult i ActionStatus.RUNNING)\<lparr>er_progress := Quot 0 1\<rparr>" "mutex_holder y = None"
    using x by (simp add: executeAsync_def exec_defs idle_def isRunning_ae_def ready_def getResult_def new_state_def)
  have len: "length (runners ?x) = length (runners x)" and ao: "ao_id (objects ?x ! length (objects x)) = i"
    by (simp_all add: new_object_def)
  from p(1) y(1,2) len ao have "finish_run (length (runners x)) out (clock 1) y = Some z" "wait_over i z" "r = getResult i (clock 2) z"
    by (auto simp: perform_def Let_def bind_eq_Some_conv split: if_splits)
  then show ?thesis using p y by (auto simp: run_ops_finish isRunning_wait)
qed

lemma async_known:
  assumes "settled x" and "known x i = Some b" and "out = OReturns status p"
  shows "\<exists>y. executeAsync clock (length (objects x)) 0 out (new_object i ty x) = Some y \<and> \<not> isRunning_ae i y \<and> settled y \<and> known y = known x \<and>
    brief (getResult i (clock 2) y) = b"
proof -
  let ?x = "new_object i ty x"
  obtain st where x: "idle x" "runningActions x i = Some st" using assms(1,2) by (auto simp: settled_def known_def split: if_splits)
  obtain r z where p: "perform clock (length (objects x)) 0 out [] ?x = Some (r, z)" "brief r = b" "settled z" "known z = known x"
    using created_known [OF assms(1,2) _ assms(3), of 0 clock ty] by (auto simp: perform_created_def)
  obtain y where y: "executeAsync clock (length (objects x)) 0 out ?x = Some y" "rn_pc (runners y ! length (runners x)) = Ended"
    using x assms(3) by (simp add: executeAsync_def exec_defs idle_def)
  have len: "length (runners ?x) = length (runners x)" and ao: "ao_id (objects ?x ! length (objects x)) = i"
    by (simp_all add: new_object_def)
  from p(1) y len ao have "y = z" "wait_over i z" "r = getResult i (clock 2) z"
    by (auto simp: perform_def Let_def bind_eq_Some_conv split: if_splits)
  then show ?thesis using p y by (auto simp: isRunning_wait)
qed

lemma async_known_throws:
  assumes "settled x" and "known x i = Some b" and "out = OThrows m status p"
  shows "executeAsync clock (length (objects x)) 0 out (new_object i ty x) = None"
  using assms by (auto simp: executeAsync_def exec_defs settled_def idle_def known_def split: if_splits)

text \<open>What a task should report of an action that ended with some status and message.\<close>

fun task_brief :: "ActionStatus \<times> string \<Rightarrow> TaskStatus \<times> string" where
  "task_brief (status, m) =
    (if status = ActionStatus.COMPLETED then (COMPLETED, '''')
     else if status = ActionStatus.CANCELLED then (CANCELLED, '''')
     else (FAILED, m))"

definition brief_te :: "task_execution \<Rightarrow> TaskStatus \<times> string" where
  "brief_te r = (tx_status r, tx_errorMessage r)"

lemma convert_result_brief:
  assumes "brief ar = b" and "fst b = ActionStatus.TIMEOUT \<Longrightarrow> \<not> tt_cancelRequested (getOrCreateState_te (tx_taskId r) te)"
    and "tx_errorMessage r = ''''" and "convert_result ar r te = (r', te')"
  shows "brief_te r' = task_brief b \<and> te_engine te' = te_engine te \<and> getStatus_te (tx_taskId r) te' = tx_status r'"
  using assms
  by (auto simp: convert_result_def brief_def brief_te_def isCancelled_def isSuccessful_def end_cancelled_def end_completed_def end_failed_def
      getStatus_te_eq split: if_splits)

section \<open>Properties\<close>



definition plain_env :: "(nat \<Rightarrow> outcome) \<Rightarrow> task_env" where
  "plain_env run =
    \<lparr>tv_factory = registerFactory ''Move'' (\<lambda>i parameters. Inr run) Map.empty, tv_effect = (\<lambda>step c. c), tv_numbers = plain_num_lib,
     tv_scaled = (\<lambda>d m n. d), tv_clock = (\<lambda>n. 0), tv_system = (\<lambda>n. 0)\<rparr>"

definition move_task :: task_definition where
  "move_task = setWork ''Move'' (TaskDefinition ''t'' [])"

lemma plain_env_factory: "createAction (tv_factory (plain_env run)) (td_workId move_task) [''id'' \<mapsto> td_workId move_task] = Inr run"
  by (simp add: plain_env_def move_task_def setWork_def TaskDefinition_def createAction_def registerFactory_def)

lemma move_task_simps [simp]: "td_workType move_task = ACTION" "td_workId move_task = ''Move''" "td_id move_task = ''t''"
  by (simp_all add: move_task_def setWork_def TaskDefinition_def)

lemma new_task_executor [simp]:
  "settled (se_exec (te_engine TaskExecutor))" "known (se_exec (te_engine TaskExecutor)) i = None" "runners (se_exec (te_engine TaskExecutor)) = []"
  by (simp_all add: TaskExecutor_def)

text \<open>The action of a task has the id of its work, so that a task can report only its first execution. When the task is
  executed again, as a periodic task is, the action runs, but the task reports what the first run did; and if the
  action throws this time, the execution never ends.\<close>

theorem repeated_task_stale:
  assumes "td_workType d = ACTION" and "settled (se_exec (te_engine te))" and "known (se_exec (te_engine te)) (td_workId d) = Some (status, m)"
    and "createAction (tv_factory V) (td_workId d) [''id'' \<mapsto> td_workId d] = Inr run"
    and "n = length (runners (se_exec (te_engine te)))"
  shows "(run n = OReturns status' p \<longrightarrow>
      (\<exists>r te'. execute_te V [] [] after seq_reqs d te = Some (r, te') \<and> (tx_status r, tx_errorMessage r) = task_brief (status, m) \<and>
        settled (se_exec (te_engine te')) \<and> known (se_exec (te_engine te')) = known (se_exec (te_engine te)))) \<and>
    (run n = OThrows m' status' p \<longrightarrow> execute_te V reqs before after seq_reqs d te = None)"
proof -
  let ?x = "se_exec (te_engine te)" and ?i = "td_workId d" and ?c = "tv_clock V"
  let ?te = "start_task d (?c 0) te" and ?r = "start_execution d (tv_system V)"
  have "\<exists>r te'. execute_te V [] [] after seq_reqs d te = Some (r, te') \<and> (tx_status r, tx_errorMessage r) = task_brief (status, m) \<and>
      settled (se_exec (te_engine te')) \<and> known (se_exec (te_engine te')) = known ?x" if out: "run n = OReturns status' p"
  proof -
    obtain z where z: "executeAsync ?c (length (objects ?x)) 0 (run n) (new_object ?i ?i ?x) = Some z"
      "\<not> isRunning_ae ?i z" "settled z" "known z = known ?x" "brief (getResult ?i (?c 2) z) = (status, m)"
      using async_known [OF assms(2,3) out, of ?c ?i] by auto
    let ?te1 = "?te\<lparr>te_engine := (te_engine ?te)\<lparr>se_exec := z\<rparr>\<rparr>"
    obtain r' te' where c: "convert_result (getResult ?i (?c 2) z) ?r ?te1 = (r', te')" by fastforce
    have "brief_te r' = task_brief (status, m) \<and> te_engine te' = te_engine ?te1"
      using convert_result_brief [OF z(5) _ _ c] by (simp add: start_execution_def)
    moreover have "executeAction (tv_factory V) ?c (tv_system V) [] [] after d ?te =
        Some (r'\<lparr>tx_executionTime := er_executionTime (getResult ?i (?c 2) z), tx_endTime := tv_system V 2\<rparr>, te')"
      using assms(4,5) z(1,2) c by (simp add: executeAction_def Let_def new_object_def)
    ultimately show ?thesis
      using assms(1) z(3,4) by (simp add: execute_te_def Let_def brief_te_def)
  qed
  moreover have "execute_te V reqs before after seq_reqs d te = None" if out: "run n = OThrows m' status' p"
    using async_known_throws [OF assms(2,3) out, of ?c ?i] assms(1,4,5)
    by (simp add: execute_te_def executeAction_def Let_def new_object_def)
  ultimately show ?thesis by blast
qed

theorem repeated_task_stale_witness:
  "\<exists>te r te'. known (se_exec (te_engine te)) ''Move'' = Some (ActionStatus.FAILED, ''e'') \<and>
    execute_te (plain_env (\<lambda>n. OReturns ActionStatus.COMPLETED (Quot 1 1))) [] [] [] quiet move_task te = Some (r, te') \<and>
    tx_status r = FAILED \<and> tx_errorMessage r = ''e''"
proof -
  have "known ActionExecutor ''Move'' = None" by (simp add: known_def ActionExecutor_def)
  then obtain x where x: "settled x" "known x ''Move'' = Some (ActionStatus.FAILED, ''e'')"
    using created_new [OF settled_new, of "''Move''" "\<lambda>n. 0" "''Move''" 0 "OThrows ''e'' ActionStatus.RUNNING (Quot 0 1)"]
    by auto
  let ?te = "TaskExecutor\<lparr>te_engine := SequenceEngine x\<rparr>"
  have "settled (se_exec (te_engine ?te))" "known (se_exec (te_engine ?te)) (td_workId move_task) = Some (ActionStatus.FAILED, ''e'')"
    using x by (simp_all add: SequenceEngine_def)
  from repeated_task_stale [OF _ this plain_env_factory refl, where status' = ActionStatus.COMPLETED and p = "Quot 1 1" and
      run = "\<lambda>n. OReturns ActionStatus.COMPLETED (Quot 1 1)" and after = "[]" and seq_reqs = quiet and reqs = "[]" and before = "[]" and m' = "[]"]
  show ?thesis using x by (intro exI [of _ ?te]) (auto simp: SequenceEngine_def)
qed

text \<open>A cancelled task is reported by a race. The task asks its action to stop and reads the result at once: if the action
  has not ended yet, the task has failed, without a message; it is cancelled only if the action was faster.\<close>

theorem cancelled_task_race:
  assumes "td_workType d = ACTION" and "settled (se_exec (te_engine te))" and "known (se_exec (te_engine te)) (td_workId d) = None"
    and "createAction (tv_factory V) (td_workId d) [''id'' \<mapsto> td_workId d] = Inr run"
    and "n = length (runners (se_exec (te_engine te)))"
  shows "(\<exists>r te'. execute_te V [TCancel (td_id d)] [] [] seq_reqs d te = Some (r, te') \<and> (tx_status r, tx_errorMessage r) = (FAILED, '''')) \<and>
    (\<exists>r te'. execute_te V [TCancel (td_id d)] [] [Returns n ActionStatus.CANCELLED p t] seq_reqs d te = Some (r, te') \<and> tx_status r = CANCELLED)"
proof -
  let ?x = "se_exec (te_engine te)" and ?i = "td_workId d" and ?c = "tv_clock V"
  have x: "idle ?x" "runningActions ?x ?i = None" using assms(2,3) by (auto simp: settled_def known_def split: if_splits)
  show ?thesis
    using x assms(1,4,5)
    by (simp add: execute_te_def executeAction_def Let_def new_object_def executeAsync_def exec_defs idle_def isRunning_ae_def ready_def getResult_def
        new_state_def cancel_te_def update_known_te_def getOrCreateState_te_def convert_result_def isCancelled_def isSuccessful_def end_failed_def
        end_cancelled_def ExecutionResult_def start_execution_def start_task_def set_state_te_def publish_te_def)
qed

theorem cancelled_task_race_witness:
  "\<exists>r te'. execute_te (plain_env (\<lambda>n. OReturns ActionStatus.CANCELLED (Quot 1 2))) [TCancel ''t''] [] [] quiet move_task TaskExecutor = Some (r, te') \<and>
    tx_status r = FAILED"
  using cancelled_task_race [OF _ _ _ plain_env_factory refl, where te = TaskExecutor and seq_reqs = quiet and p = "Quot 1 2" and t = 0 and
      run = "\<lambda>n. OReturns ActionStatus.CANCELLED (Quot 1 2)"] by auto

text \<open>C36. A task that is to execute a sequence executes nothing: the engine gets a definition without steps. Whatever the
  sequence of that id is, and even if the task is cancelled at once, the task is completed and no action is run.\<close>

theorem sequence_task_runs_nothing:
  assumes "td_workType d = SEQUENCE"
  shows "\<exists>r te'. execute_te V reqs before after seq_reqs d te = Some (r, te') \<and> tx_status r = COMPLETED \<and> tx_progress r = Quot 1 1 \<and>
    se_exec (te_engine te') = se_exec (te_engine te) \<and> se_calls (te_engine te') = se_calls (te_engine te)"
proof -
  have "execute_se svc N scaled seq_reqs clock (SequenceDefinition i i) e =
      (let r = (start_result (SequenceDefinition i i))\<lparr>sr_status := SequenceStatus.COMPLETED, sr_progress := Quot 1 1,
             sr_executionTime := elapsed_ms (clock 1) (clock 0)\<rparr>
       in Some (r, announce_end (SequenceDefinition i i) r (set_state i (\<lambda>s. s\<lparr>ss_status := SequenceStatus.COMPLETED, ss_progress := Quot 1 1\<rparr>)
         (start_sequence (SequenceDefinition i i) (clock 0) e))))" for svc :: "executor action_service" and N scaled clock i e
    by (simp add: execute_se_def executeSequential_def SequenceDefinition_def Let_def)
  then show ?thesis
    using assms by (simp add: execute_te_def executeSequence_def Let_def isSuccessful_sr_def end_completed_def cancel_se_def)
qed

theorem sequence_task_runs_nothing_witness:
  "\<exists>r te'. execute_te (plain_env (\<lambda>n. OReturns ActionStatus.COMPLETED (Quot 1 1))) [TCancel ''t''] [] [] quiet
      (setWorkSequence ''pick'' (TaskDefinition ''t'' [])) TaskExecutor = Some (r, te') \<and>
    tx_status r = COMPLETED \<and> se_calls (te_engine te') = []"
  using sequence_task_runs_nothing [of "setWorkSequence ''pick'' (TaskDefinition ''t'' [])"
      "plain_env (\<lambda>n. OReturns ActionStatus.COMPLETED (Quot 1 1))" "[TCancel ''t'']" "[]" "[]" quiet TaskExecutor]
  by (auto simp: setWorkSequence_def TaskExecutor_def SequenceEngine_def)

end
