(* ===== verification/Task_Scheduling.thy ===== *)
theory Task_Scheduling
  imports Task_Executor
begin

text \<open>
  What surrounds the task executor in \<^verbatim>\<open>src/src/core/task/core\<close>: the monitor, the triggers and the periodic scheduler.

  A callback of a trigger is a number; what it does, to the context and by calls back into the manager, is an argument.
  In the scheduler each thread is a program counter and a step is a section of one thread; a start that finds a
  joinable thread where it stores its own, or a thread that joins itself, ends the process (\<open>ps_terminated\<close>).

  The lemmas show which callbacks an event runs and how they are counted, that a stopped schedule runs no more, and when
  the scheduler ends the process.
\<close>

section \<open>The monitor\<close>

record execution_info =
  ti_taskId :: string
  ti_status :: TaskStatus
  ti_progress :: progress
  ti_startTime :: time
  ti_endTime :: time
  ti_errorMessage :: string
  ti_retryCount :: int

type_synonym task_monitor = "string \<rightharpoonup> execution_info"

definition getElapsedMs :: "time \<Rightarrow> execution_info \<Rightarrow> int" where
  "getElapsedMs now info =
    (let finish = (if ti_status info = RUNNING \<or> ti_status info = IDLE then now else ti_endTime info)
     in tdiv (finish - ti_startTime info) 1000000)"

text \<open>A new record has the end time of a default \<^verbatim>\<open>time_point\<close>, zero.\<close>

definition startTask :: "string \<Rightarrow> time \<Rightarrow> task_monitor \<Rightarrow> task_monitor" where
  "startTask tid now m =
    m(tid \<mapsto> \<lparr>ti_taskId = tid, ti_status = RUNNING, ti_progress = Quot 0 1, ti_startTime = now, ti_endTime = 0, ti_errorMessage = '''',
              ti_retryCount = 0\<rparr>)"

definition update_info :: "string \<Rightarrow> (execution_info \<Rightarrow> execution_info) \<Rightarrow> task_monitor \<Rightarrow> task_monitor" where
  "update_info tid f m = m(tid := map_option f (m tid))"

definition updateProgress_tm :: "string \<Rightarrow> progress \<Rightarrow> task_monitor \<Rightarrow> task_monitor" where
  "updateProgress_tm tid p m = update_info tid (\<lambda>info. info\<lparr>ti_progress := p\<rparr>) m"

definition updateStatus :: "string \<Rightarrow> TaskStatus \<Rightarrow> task_monitor \<Rightarrow> task_monitor" where
  "updateStatus tid status m = update_info tid (\<lambda>info. info\<lparr>ti_status := status\<rparr>) m"

definition endTask :: "string \<Rightarrow> TaskStatus \<Rightarrow> string \<Rightarrow> time \<Rightarrow> task_monitor \<Rightarrow> task_monitor" where
  "endTask tid status errorMessage now m =
    update_info tid
      (\<lambda>info. info\<lparr>ti_status := status, ti_endTime := now, ti_errorMessage := errorMessage,
                   ti_progress := if status = COMPLETED then Quot 1 1 else ti_progress info\<rparr>) m"

definition incrementRetryCount :: "string \<Rightarrow> task_monitor \<Rightarrow> task_monitor" where
  "incrementRetryCount tid m = update_info tid (\<lambda>info. info\<lparr>ti_retryCount := ti_retryCount info + 1\<rparr>) m"

definition getTaskInfo :: "string \<Rightarrow> task_monitor \<Rightarrow> execution_info option" where
  "getTaskInfo tid m = m tid"

text \<open>The number of records with some status, for \<^verbatim>\<open>getRunningTaskCount\<close> and its two siblings.\<close>

definition task_count :: "TaskStatus \<Rightarrow> task_monitor \<Rightarrow> nat" where
  "task_count status m = card {tid. \<exists>info. m tid = Some info \<and> ti_status info = status}"

definition getRunningTaskCount :: "task_monitor \<Rightarrow> nat" where
  "getRunningTaskCount m = task_count RUNNING m"

definition getCompletedTaskCount :: "task_monitor \<Rightarrow> nat" where
  "getCompletedTaskCount m = task_count COMPLETED m"

definition getFailedTaskCount :: "task_monitor \<Rightarrow> nat" where
  "getFailedTaskCount m = task_count FAILED m"

definition clear_tm :: "task_monitor \<Rightarrow> task_monitor" where
  "clear_tm m = Map.empty"

definition removeTask :: "string \<Rightarrow> task_monitor \<Rightarrow> task_monitor" where
  "removeTask tid m = m(tid := None)"

section \<open>Triggers\<close>

record trigger_info =
  tg_taskId :: string
  tg_eventName :: string
  tg_callback :: nat

record trigger_manager =
  tm_triggers :: "string \<rightharpoonup> trigger_info list"
  tm_counts :: "string \<rightharpoonup> int"

definition TriggerManager :: trigger_manager where
  "TriggerManager = \<lparr>tm_triggers = Map.empty, tm_counts = Map.empty\<rparr>"

definition triggers_of :: "string \<Rightarrow> trigger_manager \<Rightarrow> trigger_info list" where
  "triggers_of ev m = (case tm_triggers m ev of None \<Rightarrow> [] | Some ts \<Rightarrow> ts)"

definition registerTrigger :: "string \<Rightarrow> string \<Rightarrow> nat \<Rightarrow> trigger_manager \<Rightarrow> trigger_manager" where
  "registerTrigger tid ev cb m =
    m\<lparr>tm_triggers := (tm_triggers m)(ev \<mapsto> triggers_of ev m @ [\<lparr>tg_taskId = tid, tg_eventName = ev, tg_callback = cb\<rparr>])\<rparr>"

definition without_task :: "string \<Rightarrow> trigger_info list \<Rightarrow> trigger_info list" where
  "without_task tid ts = filter (\<lambda>t. tg_taskId t \<noteq> tid) ts"

definition unregisterTrigger :: "string \<Rightarrow> string \<Rightarrow> trigger_manager \<Rightarrow> trigger_manager" where
  "unregisterTrigger tid ev m =
    (if ev = '''' then
       m\<lparr>tm_triggers := (\<lambda>e. map_option (without_task tid) (tm_triggers m e)), tm_counts := (tm_counts m)(tid := None)\<rparr>
     else
       case tm_triggers m ev of
         None \<Rightarrow> m
       | Some ts \<Rightarrow>
           let ts = without_task tid ts
           in m\<lparr>tm_triggers := (tm_triggers m)(ev := if ts = [] then None else Some ts)\<rparr>)"

definition hasTrigger :: "string \<Rightarrow> string \<Rightarrow> trigger_manager \<Rightarrow> bool" where
  "hasTrigger tid ev m = list_ex (\<lambda>t. tg_taskId t = tid) (triggers_of ev m)"

definition getTriggerCount :: "string \<Rightarrow> trigger_manager \<Rightarrow> int" where
  "getTriggerCount tid m = (case tm_counts m tid of None \<Rightarrow> 0 | Some n \<Rightarrow> n)"

definition clear_triggers :: "trigger_manager \<Rightarrow> trigger_manager" where
  "clear_triggers m = m\<lparr>tm_triggers := Map.empty, tm_counts := Map.empty\<rparr>"

text \<open>A callback gets the data of the event, the context and the manager, and says whether it throws.\<close>

type_synonym callbacks =
  "nat \<Rightarrow> string \<Rightarrow> execution_context \<times> trigger_manager \<Rightarrow> bool \<times> execution_context \<times> trigger_manager"

definition count_trigger :: "string \<Rightarrow> trigger_manager \<Rightarrow> trigger_manager" where
  "count_trigger tid m = m\<lparr>tm_counts := (tm_counts m)(tid \<mapsto> getTriggerCount tid m + 1)\<rparr>"

fun run_triggers ::
  "callbacks \<Rightarrow> string \<Rightarrow> trigger_info list \<Rightarrow> execution_context \<Rightarrow> trigger_manager \<Rightarrow> nat list \<times> execution_context \<times> trigger_manager" where
  "run_triggers run d [] c m = ([], c, m)"
| "run_triggers run d (t # ts) c m =
    (case run (tg_callback t) d (c, m) of
       (raised, c, m) \<Rightarrow>
         (case run_triggers run d ts c (if raised then m else count_trigger (tg_taskId t) m) of
            (log, c, m) \<Rightarrow> (tg_callback t # log, c, m)))"

definition event_context :: "string \<Rightarrow> execution_context" where
  "event_context d = (if d = '''' then ExecutionContext else setVariable ''event_data'' (CString d) ExecutionContext)"

definition fireEvent :: "callbacks \<Rightarrow> string \<Rightarrow> string \<Rightarrow> trigger_manager \<Rightarrow> nat list \<times> trigger_manager" where
  "fireEvent run ev d m =
    (let ts = triggers_of ev m in
     if ts = [] then ([], m)
     else case run_triggers run d ts (event_context d) m of (log, c, m) \<Rightarrow> (log, m))"

section \<open>The periodic scheduler\<close>

text \<open>A schedule thread is about to check its flag, inside its callback, or has ended.\<close>

datatype schedule_pc = Checking | InCallback | Sleeping | Finished

record schedule_info =
  si_taskId :: string
  si_interval :: int
  si_running :: bool
  si_count :: int
  si_pc :: schedule_pc

text \<open>The infos of the threads that were ever started, in their order; \<open>ps_schedules\<close> points to the current one of a task.
  A caller that has taken an info out of the map has it in \<open>ps_taken\<close> until it has joined the thread.\<close>

record scheduler =
  ps_schedules :: "string \<rightharpoonup> nat"
  ps_infos :: "schedule_info list"
  ps_taken :: "nat set"
  ps_joined :: "nat set"
  ps_terminated :: bool

definition PeriodicScheduler :: scheduler where
  "PeriodicScheduler = \<lparr>ps_schedules = Map.empty, ps_infos = [], ps_taken = {}, ps_joined = {}, ps_terminated = False\<rparr>"

definition set_info :: "nat \<Rightarrow> (schedule_info \<Rightarrow> schedule_info) \<Rightarrow> scheduler \<Rightarrow> scheduler" where
  "set_info n f s = s\<lparr>ps_infos := (ps_infos s)[n := f (ps_infos s ! n)]\<rparr>"

text \<open>The first sections of \<^verbatim>\<open>start\<close> and \<^verbatim>\<open>stop\<close>: the info leaves the map.\<close>

definition stopInternal :: "string \<Rightarrow> scheduler \<Rightarrow> scheduler" where
  "stopInternal tid s =
    (case ps_schedules s tid of
       None \<Rightarrow> s
     | Some n \<Rightarrow> s\<lparr>ps_schedules := (ps_schedules s)(tid := None), ps_taken := insert n (ps_taken s)\<rparr>)"

text \<open>The caller lowers the flag of what it has taken.\<close>

definition signal_stop :: "nat \<Rightarrow> scheduler \<Rightarrow> scheduler option" where
  "signal_stop n s = (if n \<in> ps_taken s then Some (set_info n (\<lambda>i. i\<lparr>si_running := False\<rparr>) s) else None)"

text \<open>It joins the thread, and waits as long as it has not ended. A join from the thread itself, in its callback, throws; the
  info is destroyed with its thread still joinable.\<close>

definition join_thread :: "nat option \<Rightarrow> nat \<Rightarrow> scheduler \<Rightarrow> scheduler option" where
  "join_thread self n s =
    (if n \<notin> ps_taken s \<or> si_running (ps_infos s ! n) then None
     else if self = Some n then Some (s\<lparr>ps_terminated := True\<rparr>)
     else if si_pc (ps_infos s ! n) = Finished then Some (s\<lparr>ps_taken := ps_taken s - {n}, ps_joined := insert n (ps_joined s)\<rparr>)
     else None)"

text \<open>The last section of \<^verbatim>\<open>start\<close>: an info that is in the map at that moment is destroyed with its thread still joinable.\<close>

definition install :: "string \<Rightarrow> int \<Rightarrow> scheduler \<Rightarrow> scheduler" where
  "install tid interval s =
    (let n = length (ps_infos s);
         s = s\<lparr>ps_infos := ps_infos s @ [\<lparr>si_taskId = tid, si_interval = interval, si_running = True, si_count = 0, si_pc = Checking\<rparr>]\<rparr>;
         s = (if ps_schedules s tid = None then s else s\<lparr>ps_terminated := True\<rparr>)
     in s\<lparr>ps_schedules := (ps_schedules s)(tid \<mapsto> n)\<rparr>)"

definition isRunning_ps :: "string \<Rightarrow> scheduler \<Rightarrow> bool" where
  "isRunning_ps tid s = (case ps_schedules s tid of None \<Rightarrow> False | Some n \<Rightarrow> si_running (ps_infos s ! n))"

definition getExecutionCount :: "string \<Rightarrow> scheduler \<Rightarrow> int" where
  "getExecutionCount tid s = (case ps_schedules s tid of None \<Rightarrow> 0 | Some n \<Rightarrow> si_count (ps_infos s ! n))"

text \<open>The first section of \<^verbatim>\<open>stopAll\<close>; the infos are then stopped and joined one by one as in \<^verbatim>\<open>stop\<close>.\<close>

definition take_all :: "scheduler \<Rightarrow> scheduler" where
  "take_all s = s\<lparr>ps_schedules := Map.empty, ps_taken := ps_taken s \<union> ran (ps_schedules s)\<rparr>"

text \<open>The steps of a schedule thread, \<^verbatim>\<open>runSchedule\<close>.\<close>

definition check_running :: "nat \<Rightarrow> scheduler \<Rightarrow> scheduler" where
  "check_running n s = set_info n (\<lambda>i. i\<lparr>si_pc := if si_running i then InCallback else Finished\<rparr>) s"

definition callback_done :: "nat \<Rightarrow> bool \<Rightarrow> scheduler \<Rightarrow> scheduler" where
  "callback_done n raised s =
    set_info n (\<lambda>i. i\<lparr>si_count := if raised then si_count i else si_count i + 1, si_pc := Sleeping\<rparr>) s"

text \<open>How long the thread sleeps, with the time the callback took.\<close>

definition sleep_time :: "int \<Rightarrow> schedule_info \<Rightarrow> int" where
  "sleep_time elapsed i = (let t = si_interval i - elapsed in if 0 < t \<and> si_running i then t else 0)"

datatype schedule_op =
    Extract string
  | SignalStop nat
  | Join "nat option" nat
  | Install string int
  | TakeAll
  | CheckRunning nat
  | CallbackDone nat bool
  | WakeUp nat

fun schedule_step :: "scheduler \<Rightarrow> schedule_op \<Rightarrow> scheduler option" where
  "schedule_step s (Extract tid) = Some (stopInternal tid s)"
| "schedule_step s (SignalStop n) = signal_stop n s"
| "schedule_step s (Join self n) =
    (case self of
       None \<Rightarrow> join_thread self n s
     | Some k \<Rightarrow> if k < length (ps_infos s) \<and> si_pc (ps_infos s ! k) = InCallback then join_thread self n s else None)"
| "schedule_step s (Install tid interval) = Some (install tid interval s)"
| "schedule_step s TakeAll = Some (take_all s)"
| "schedule_step s (CheckRunning n) =
    (if n < length (ps_infos s) \<and> si_pc (ps_infos s ! n) = Checking then Some (check_running n s) else None)"
| "schedule_step s (CallbackDone n raised) =
    (if n < length (ps_infos s) \<and> si_pc (ps_infos s ! n) = InCallback then Some (callback_done n raised s) else None)"
| "schedule_step s (WakeUp n) =
    (if n < length (ps_infos s) \<and> si_pc (ps_infos s ! n) = Sleeping then Some (set_info n (\<lambda>i. i\<lparr>si_pc := Checking\<rparr>) s) else None)"

fun schedule_steps :: "scheduler \<Rightarrow> schedule_op list \<Rightarrow> scheduler option" where
  "schedule_steps s [] = Some s"
| "schedule_steps s (q # qs) = (if ps_terminated s then None else Option.bind (schedule_step s q) (\<lambda>s. schedule_steps s qs))"

section \<open>Lemmas\<close>

lemma run_triggers_log: "fst (run_triggers run d ts c m) = map tg_callback ts"
  by (induction ts arbitrary: c m) (auto simp: case_prod_beta)

definition leaves_alone :: "callbacks \<Rightarrow> (nat \<Rightarrow> bool) \<Rightarrow> bool" where
  "leaves_alone run bad = (\<forall>cb d c m. fst (run cb d (c, m)) = bad cb \<and> snd (snd (run cb d (c, m))) = m)"

lemma getTriggerCount_count: "getTriggerCount k (count_trigger tid m) = getTriggerCount k m + (if k = tid then 1 else 0)"
  by (simp add: count_trigger_def getTriggerCount_def)

lemma run_triggers_count:
  assumes "leaves_alone run bad"
  shows "getTriggerCount k (snd (snd (run_triggers run d ts c m))) =
    getTriggerCount k m + int (length (filter (\<lambda>t. tg_taskId t = k \<and> \<not> bad (tg_callback t)) ts))"
proof (induction ts arbitrary: c m)
  case (Cons t ts)
  obtain x c' m' where r: "run (tg_callback t) d (c, m) = (x, c', m')" by (rule prod_cases3)
  have "fst (run (tg_callback t) d (c, m)) = bad (tg_callback t)" "snd (snd (run (tg_callback t) d (c, m))) = m"
    using assms unfolding leaves_alone_def by blast+
  then have x: "x = bad (tg_callback t)" "m' = m" using r by simp_all
  show ?case
    using Cons.IH [of c' m] Cons.IH [of c' "count_trigger (tg_taskId t) m"] r x
    by (cases "tg_taskId t = k") (simp_all add: case_prod_beta getTriggerCount_count)
qed simp

subsection \<open>The scheduler\<close>

lemmas schedule_defs = stopInternal_def signal_stop_def join_thread_def install_def take_all_def check_running_def callback_done_def set_info_def Let_def

text \<open>Every thread is that of a scheduled task, or is being stopped, or has been joined.\<close>

definition scheduler_ok :: "scheduler \<Rightarrow> bool" where
  "scheduler_ok s \<longleftrightarrow>
    (\<forall>tid n. ps_schedules s tid = Some n \<longrightarrow> n < length (ps_infos s) \<and> si_taskId (ps_infos s ! n) = tid \<and> n \<notin> ps_taken s \<and> n \<notin> ps_joined s) \<and>
    (\<forall>n < length (ps_infos s). n \<in> ps_taken s \<or> n \<in> ps_joined s \<or> ps_schedules s (si_taskId (ps_infos s ! n)) = Some n) \<and>
    (\<forall>n \<in> ps_taken s \<union> ps_joined s. n < length (ps_infos s)) \<and> (\<forall>n \<in> ps_joined s. n \<notin> ps_taken s \<and> si_pc (ps_infos s ! n) = Finished)"

lemma scheduler_okI:
  assumes "\<And>tid n. ps_schedules s tid = Some n \<Longrightarrow> n < length (ps_infos s) \<and> si_taskId (ps_infos s ! n) = tid \<and> n \<notin> ps_taken s \<and> n \<notin> ps_joined s"
    and "\<And>n. n < length (ps_infos s) \<Longrightarrow> n \<notin> ps_taken s \<Longrightarrow> n \<notin> ps_joined s \<Longrightarrow> ps_schedules s (si_taskId (ps_infos s ! n)) = Some n"
    and "\<And>n. n \<in> ps_taken s \<Longrightarrow> n < length (ps_infos s)"
    and "\<And>n. n \<in> ps_joined s \<Longrightarrow> n < length (ps_infos s) \<and> n \<notin> ps_taken s \<and> si_pc (ps_infos s ! n) = Finished"
  shows "scheduler_ok s"
  using assms unfolding scheduler_ok_def by blast

lemma scheduler_okD:
  assumes "scheduler_ok s"
  shows "ps_schedules s tid = Some n \<Longrightarrow> n < length (ps_infos s) \<and> si_taskId (ps_infos s ! n) = tid \<and> n \<notin> ps_taken s \<and> n \<notin> ps_joined s"
    and "n < length (ps_infos s) \<Longrightarrow> n \<notin> ps_taken s \<Longrightarrow> n \<notin> ps_joined s \<Longrightarrow> ps_schedules s (si_taskId (ps_infos s ! n)) = Some n"
    and "n \<in> ps_taken s \<Longrightarrow> n < length (ps_infos s)"
    and "n \<in> ps_joined s \<Longrightarrow> n < length (ps_infos s) \<and> n \<notin> ps_taken s \<and> si_pc (ps_infos s ! n) = Finished"
  using assms unfolding scheduler_ok_def by blast+

lemma set_info_simps [simp]:
  "ps_schedules (set_info n f s) = ps_schedules s" "ps_taken (set_info n f s) = ps_taken s" "ps_joined (set_info n f s) = ps_joined s"
  "length (ps_infos (set_info n f s)) = length (ps_infos s)"
  "ps_infos (set_info n f s) ! k = (if k = n \<and> n < length (ps_infos s) then f (ps_infos s ! n) else ps_infos s ! k)"
  by (auto simp: set_info_def nth_list_update list_update_beyond)

lemma scheduler_ok_info:
  assumes "scheduler_ok s" and "\<And>i. si_taskId (f i) = si_taskId i" and "si_pc (ps_infos s ! n) = Finished \<Longrightarrow> si_pc (f (ps_infos s ! n)) = Finished"
  shows "scheduler_ok (set_info n f s)"
  using scheduler_okD [OF assms(1)] assms(2,3) by (intro scheduler_okI) auto

lemma scheduler_ok_install:
  assumes "scheduler_ok s" and "ps_schedules s tid = None"
  shows "scheduler_ok (install tid interval s)"
proof -
  let ?i = "\<lparr>si_taskId = tid, si_interval = interval, si_running = True, si_count = 0, si_pc = Checking\<rparr>" and ?n = "length (ps_infos s)"
  have new: "install tid interval s = s\<lparr>ps_infos := ps_infos s @ [?i], ps_schedules := (ps_schedules s)(tid \<mapsto> ?n)\<rparr>"
    using assms(2) by (simp add: install_def Let_def)
  have fresh: "?n \<notin> ps_taken s" "?n \<notin> ps_joined s" using scheduler_okD(3,4) [OF assms(1), of ?n] by auto
  show ?thesis unfolding new
  proof (rule scheduler_okI, goal_cases)
    case (1 k n)
    then show ?case using scheduler_okD(1) [OF assms(1), of k n] fresh by (auto simp: nth_append split: if_splits)
  next
    case (2 n)
    then show ?case using scheduler_okD(2) [OF assms(1), of n] assms(2) by (cases "n < ?n") (auto simp: nth_append less_Suc_eq)
  next
    case (3 n)
    then show ?case using scheduler_okD(3) [OF assms(1), of n] by simp
  next
    case (4 n)
    then show ?case using scheduler_okD(4) [OF assms(1), of n] by (simp add: nth_append)
  qed
qed

lemma scheduler_ok_take:
  assumes "scheduler_ok s" and "\<And>k n. m k = Some n \<Longrightarrow> ps_schedules s k = Some n \<and> n \<notin> N" and "N \<subseteq> ran (ps_schedules s)"
    and "\<And>k n. ps_schedules s k = Some n \<Longrightarrow> n \<notin> N \<Longrightarrow> m k = Some n"
  shows "scheduler_ok (s\<lparr>ps_schedules := m, ps_taken := ps_taken s \<union> N\<rparr>)"
proof (rule scheduler_okI, goal_cases)
  case (1 k n)
  then show ?case using scheduler_okD(1) [OF assms(1), of k n] assms(2) [of k n] by simp
next
  case (2 n)
  then show ?case using scheduler_okD(2) [OF assms(1), of n] assms(4) by simp
next
  case (3 n)
  then show ?case using scheduler_okD(1,3) [OF assms(1)] assms(3) by (auto simp: ran_def)
next
  case (4 n)
  then show ?case using scheduler_okD(4) [OF assms(1), of n] scheduler_okD(1) [OF assms(1)] assms(3) by (auto simp: ran_def)
qed

lemma scheduler_ok_join:
  assumes "scheduler_ok s" and "n \<in> ps_taken s" and "si_pc (ps_infos s ! n) = Finished"
  shows "scheduler_ok (s\<lparr>ps_taken := ps_taken s - {n}, ps_joined := insert n (ps_joined s)\<rparr>)"
  using scheduler_okD [OF assms(1)] assms(2,3) by (intro scheduler_okI) auto

lemma scheduler_ok_step:
  assumes "scheduler_ok s" and "schedule_step s q = Some s'" and "\<not> ps_terminated s'"
  shows "scheduler_ok s'"
proof (cases q)
  case (Extract tid)
  show ?thesis
  proof (cases "ps_schedules s tid")
    case None
    then show ?thesis using assms(1,2) Extract by (simp add: stopInternal_def)
  next
    case (Some n)
    have "k = tid" if "ps_schedules s k = Some n" for k using scheduler_okD(1) [OF assms(1)] that Some by blast
    then have "ps_schedules s k = Some m \<and> m \<notin> {n}" if "((ps_schedules s)(tid := None)) k = Some m" for k m
      using that by (cases "k = tid") auto
    moreover have "{n} \<subseteq> ran (ps_schedules s)" using Some by (simp add: ranI)
    moreover have "((ps_schedules s)(tid := None)) k = Some m" if "ps_schedules s k = Some m" "m \<notin> {n}" for k m
      using that Some by (cases "k = tid") auto
    ultimately have "scheduler_ok (s\<lparr>ps_schedules := (ps_schedules s)(tid := None), ps_taken := ps_taken s \<union> {n}\<rparr>)"
      by (rule scheduler_ok_take [OF assms(1)])
    moreover have "s' = s\<lparr>ps_schedules := (ps_schedules s)(tid := None), ps_taken := ps_taken s \<union> {n}\<rparr>"
      using assms(2) Extract Some by (simp add: stopInternal_def)
    ultimately show ?thesis by simp
  qed
next
  case (SignalStop n)
  then have "s' = set_info n (\<lambda>i. i\<lparr>si_running := False\<rparr>) s" using assms(2) by (simp add: signal_stop_def split: if_splits)
  then show ?thesis using scheduler_ok_info [OF assms(1), of "\<lambda>i. i\<lparr>si_running := False\<rparr>" n] by simp
next
  case (Join self n)
  then have s': "s' = s\<lparr>ps_taken := ps_taken s - {n}, ps_joined := insert n (ps_joined s)\<rparr>" "n \<in> ps_taken s" "si_pc (ps_infos s ! n) = Finished"
    using assms(2,3) by (auto simp: join_thread_def split: if_splits option.splits)
  then show ?thesis using scheduler_ok_join [OF assms(1)] by simp
next
  case (Install tid interval)
  then have "s' = install tid interval s" using assms(2) by simp
  moreover from this have "ps_schedules s tid = None" using assms(3) by (auto simp: install_def Let_def split: if_splits)
  ultimately show ?thesis using scheduler_ok_install [OF assms(1)] by simp
next
  case TakeAll
  then have "s' = s\<lparr>ps_schedules := Map.empty, ps_taken := ps_taken s \<union> ran (ps_schedules s)\<rparr>" using assms(2) by (simp add: take_all_def)
  moreover have "scheduler_ok (s\<lparr>ps_schedules := Map.empty, ps_taken := ps_taken s \<union> ran (ps_schedules s)\<rparr>)"
    by (rule scheduler_ok_take [OF assms(1)]) (simp_all add: ranI)
  ultimately show ?thesis by simp
next
  case (CheckRunning n)
  let ?f = "\<lambda>i. i\<lparr>si_pc := if si_running i then InCallback else Finished\<rparr>"
  from CheckRunning have "s' = set_info n ?f s" "si_pc (ps_infos s ! n) = Checking"
    using assms(2) by (simp_all add: check_running_def split: if_splits)
  then show ?thesis using scheduler_ok_info [OF assms(1), of ?f n] by simp
next
  case (CallbackDone n raised)
  let ?f = "\<lambda>i. i\<lparr>si_count := if raised then si_count i else si_count i + 1, si_pc := Sleeping\<rparr>"
  from CallbackDone have "s' = set_info n ?f s" "si_pc (ps_infos s ! n) = InCallback"
    using assms(2) by (simp_all add: callback_done_def split: if_splits)
  then show ?thesis using scheduler_ok_info [OF assms(1), of ?f n] by simp
next
  case (WakeUp n)
  let ?f = "\<lambda>i. i\<lparr>si_pc := Checking\<rparr>"
  from WakeUp have "s' = set_info n ?f s" "si_pc (ps_infos s ! n) = Sleeping"
    using assms(2) by (simp_all split: if_splits)
  then show ?thesis using scheduler_ok_info [OF assms(1), of ?f n] by simp
qed

lemma scheduler_ok_steps:
  assumes "scheduler_ok s" and "schedule_steps s qs = Some s'" and "\<not> ps_terminated s'"
  shows "scheduler_ok s'"
  using assms
proof (induction qs arbitrary: s)
  case (Cons q qs)
  then obtain s1 where s1: "schedule_step s q = Some s1" "schedule_steps s1 qs = Some s'" "\<not> ps_terminated s"
    by (auto simp: bind_eq_Some_conv split: if_splits)
  then have "\<not> ps_terminated s1" using Cons.prems(3) by (cases qs) (auto split: if_splits)
  then show ?case using Cons.IH [of s1] scheduler_ok_step [OF Cons.prems(1) s1(1)] s1(2) Cons.prems(3) by simp
qed simp

text \<open>A thread that has ended stays so, and counts no more.\<close>

lemma finished_step:
  assumes "schedule_step s q = Some s'" and "n < length (ps_infos s)" and "si_pc (ps_infos s ! n) = Finished"
  shows "n < length (ps_infos s') \<and> si_pc (ps_infos s' ! n) = Finished \<and> si_count (ps_infos s' ! n) = si_count (ps_infos s ! n)"
  using assms
  by (cases q) (auto simp: stopInternal_def signal_stop_def join_thread_def install_def take_all_def check_running_def callback_done_def
      nth_append Let_def split: option.splits if_splits)

lemma finished_steps:
  "schedule_steps s qs = Some s' \<Longrightarrow> n < length (ps_infos s) \<Longrightarrow> si_pc (ps_infos s ! n) = Finished \<Longrightarrow>
    n < length (ps_infos s') \<and> si_pc (ps_infos s' ! n) = Finished \<and> si_count (ps_infos s' ! n) = si_count (ps_infos s ! n)"
proof (induction qs arbitrary: s)
  case (Cons q qs)
  then obtain s1 where s1: "schedule_step s q = Some s1" "schedule_steps s1 qs = Some s'"
    by (auto simp: bind_eq_Some_conv split: if_splits)
  then show ?case using finished_step [OF s1(1) Cons.prems(2,3)] Cons.IH [OF s1(2)] by simp
qed simp

section \<open>Properties\<close>

text \<open>C40. An event runs the callbacks that were registered for it when it was fired, each once and in the order of their
  registration, whatever the callbacks do. If they leave the manager alone, the count of a task grows by the number of its
  callbacks that did not throw.\<close>

theorem event_runs_triggers:
  "fst (fireEvent run ev d m) = map tg_callback (triggers_of ev m) \<and>
    (leaves_alone run bad \<longrightarrow> getTriggerCount k (snd (fireEvent run ev d m)) =
      getTriggerCount k m + int (length (filter (\<lambda>t. tg_taskId t = k \<and> \<not> bad (tg_callback t)) (triggers_of ev m))))"
  using run_triggers_log [of run d "triggers_of ev m"] run_triggers_count [of run bad k d "triggers_of ev m"]
  by (auto simp: fireEvent_def Let_def case_prod_beta)

theorem event_runs_triggers_witness:
  "leaves_alone (\<lambda>cb d (c, m). (cb = 1, c, m)) (\<lambda>cb. cb = 1) \<and>
    getTriggerCount ''t'' (snd (fireEvent (\<lambda>cb d (c, m). (cb = 1, c, m)) ''door'' '''' (registerTrigger ''t'' ''door'' 1 (registerTrigger ''t'' ''door'' 0 TriggerManager)))) = 1"
  using event_runs_triggers [of "\<lambda>cb d (c, m). (cb = 1, c, m)" "''door''" "''''"
      "registerTrigger ''t'' ''door'' 1 (registerTrigger ''t'' ''door'' 0 TriggerManager)" "\<lambda>cb. cb = 1" "''t''"]
  by (simp add: leaves_alone_def registerTrigger_def triggers_of_def TriggerManager_def getTriggerCount_def)

text \<open>A task that one callback unregisters is triggered by that event all the same, and its count, erased by the
  call, comes back.\<close>

theorem unregistered_still_triggered:
  assumes "triggers_of ev m = [a, b]" and "tg_taskId a \<noteq> tg_taskId b"
    and "\<And>c m. run (tg_callback a) d (c, m) = (False, c, unregisterTrigger (tg_taskId b) '''' m)"
    and "\<And>c m. run (tg_callback b) d (c, m) = (False, c, m)"
  shows "\<exists>m'. fireEvent run ev d m = ([tg_callback a, tg_callback b], m') \<and> \<not> hasTrigger (tg_taskId b) ev m' \<and> getTriggerCount (tg_taskId b) m' = 1"
proof -
  obtain ts where ts: "tm_triggers m ev = Some ts" "ts = [a, b]"
    using assms(1) by (auto simp: triggers_of_def split: option.splits)
  then show ?thesis
    using assms
    by (simp add: fireEvent_def Let_def case_prod_beta count_trigger_def getTriggerCount_def hasTrigger_def triggers_of_def
        unregisterTrigger_def without_task_def)
qed

theorem unregistered_still_triggered_witness:
  "\<exists>m'. fireEvent (\<lambda>cb d (c, m). (False, c, if cb = 0 then unregisterTrigger ''b'' '''' m else m)) ''door'' ''''
      (registerTrigger ''b'' ''door'' 1 (registerTrigger ''a'' ''door'' 0 TriggerManager)) = ([0, 1], m') \<and>
    \<not> hasTrigger ''b'' ''door'' m' \<and> getTriggerCount ''b'' m' = 1"
  using unregistered_still_triggered [of "''door''" "registerTrigger ''b'' ''door'' 1 (registerTrigger ''a'' ''door'' 0 TriggerManager)"
      "\<lparr>tg_taskId = ''a'', tg_eventName = ''door'', tg_callback = 0\<rparr>" "\<lparr>tg_taskId = ''b'', tg_eventName = ''door'', tg_callback = 1\<rparr>"
      "\<lambda>cb d (c, m). (False, c, if cb = 0 then unregisterTrigger ''b'' '''' m else m)" "''''"]
  by (simp add: registerTrigger_def triggers_of_def TriggerManager_def)



text \<open>Two threads that start a task at the same time end the process, and so does a callback that stops its own task.\<close>

theorem scheduler_ends_process:
  assumes "\<not> ps_terminated s"
  shows "(ps_schedules s tid = None \<longrightarrow>
      (\<exists>s'. schedule_steps s [Extract tid, Extract tid, Install tid i, Install tid j] = Some s' \<and> ps_terminated s')) \<and>
    (n < length (ps_infos s) \<and> ps_schedules s tid = Some n \<and> si_pc (ps_infos s ! n) = InCallback \<longrightarrow>
      (\<exists>s'. schedule_steps s [Extract tid, SignalStop n, Join (Some n) n] = Some s' \<and> ps_terminated s'))"
  using assms by (auto simp: schedule_defs)

theorem scheduler_ends_process_witness:
  "\<exists>s. schedule_steps PeriodicScheduler [Extract ''t'', Extract ''t'', Install ''t'' 10, Install ''t'' 20] = Some s \<and> ps_terminated s"
  using scheduler_ends_process [of PeriodicScheduler "''t''" 10 20 0] by (simp add: PeriodicScheduler_def)

text \<open>The monitor reports a negative duration for a task that is paused: only running and idle tasks are measured until
  now, and the end of the others is the start of the clock.\<close>

theorem paused_task_negative_time:
  assumes "1000000 \<le> start"
  shows "\<exists>info. getTaskInfo tid (updateStatus tid PAUSED (startTask tid start m)) = Some info \<and> getElapsedMs now info < 0"
  using assms by (simp add: getTaskInfo_def updateStatus_def update_info_def startTask_def getElapsedMs_def Let_def tdiv_def)

theorem paused_task_negative_time_witness:
  "\<exists>info. getTaskInfo ''t'' (updateStatus ''t'' PAUSED (startTask ''t'' 5000000 Map.empty)) = Some info \<and> getElapsedMs 9000000 info < 0"
  using paused_task_negative_time [of 5000000 "''t''" Map.empty 9000000] by simp

end
