(* ===== verification/Control_Queues.thy ===== *)
theory Control_Queues
  imports Priority_Service
begin

text \<open>
  The priorities and the two priority queues of the control layer, under
  \<^verbatim>\<open>src/src/core/control\<close>: \<^verbatim>\<open>dto/Priority.h\<close>, \<^verbatim>\<open>dto/BehaviorRequest.h\<close>,
  \<^verbatim>\<open>impl/BehaviorPriorityQueue.{h,cpp}\<close> and \<^verbatim>\<open>impl/TaskQueue.{h,cpp}\<close>.

  Both queues keep one FIFO list per priority. The lists of the behavior queue are
  \<^verbatim>\<open>tbb::concurrent_queue\<close>s, used as FIFO queues; a task is an object with an id.

  Both queues are instances of the interface \<open>priority_fifo\<close> of \<open>Priority_Service\<close>: their order of
  service is the stable sort of the accepted elements by priority.
\<close>

section \<open>Priorities and requests\<close>

datatype Priority = EMERGENCY_STOP | SAFETY_ISSUE | URGENT_TASK | NORMAL_TASK | MAINTENANCE

text \<open>The underlying value of the enum, by which the code compares priorities.\<close>

fun prio_value :: "Priority \<Rightarrow> nat" where
  "prio_value EMERGENCY_STOP = 0"
| "prio_value SAFETY_ISSUE = 1"
| "prio_value URGENT_TASK = 2"
| "prio_value NORMAL_TASK = 3"
| "prio_value MAINTENANCE = 4"

lemma prio_value_inject: "prio_value p = prio_value q \<Longrightarrow> p = q"
  by (cases p; cases q) simp_all

instantiation Priority :: linorder
begin

definition less_eq_Priority :: "Priority \<Rightarrow> Priority \<Rightarrow> bool" where
  "less_eq_Priority p q \<longleftrightarrow> prio_value p \<le> prio_value q"

definition less_Priority :: "Priority \<Rightarrow> Priority \<Rightarrow> bool" where
  "less_Priority p q \<longleftrightarrow> prio_value p < prio_value q"

instance
  by standard (auto simp: less_eq_Priority_def less_Priority_def dest: prio_value_inject)

end

lemmas [enum_order] = less_eq_Priority_def less_Priority_def

lemma prio_le [simp]:
  "EMERGENCY_STOP \<le> SAFETY_ISSUE"
  "EMERGENCY_STOP \<le> URGENT_TASK"
  "EMERGENCY_STOP \<le> NORMAL_TASK"
  "EMERGENCY_STOP \<le> MAINTENANCE"
  "\<not> SAFETY_ISSUE \<le> EMERGENCY_STOP"
  "SAFETY_ISSUE \<le> URGENT_TASK"
  "SAFETY_ISSUE \<le> NORMAL_TASK"
  "SAFETY_ISSUE \<le> MAINTENANCE"
  "\<not> URGENT_TASK \<le> EMERGENCY_STOP"
  "\<not> URGENT_TASK \<le> SAFETY_ISSUE"
  "URGENT_TASK \<le> NORMAL_TASK"
  "URGENT_TASK \<le> MAINTENANCE"
  "\<not> NORMAL_TASK \<le> EMERGENCY_STOP"
  "\<not> NORMAL_TASK \<le> SAFETY_ISSUE"
  "\<not> NORMAL_TASK \<le> URGENT_TASK"
  "NORMAL_TASK \<le> MAINTENANCE"
  "\<not> MAINTENANCE \<le> EMERGENCY_STOP"
  "\<not> MAINTENANCE \<le> SAFETY_ISSUE"
  "\<not> MAINTENANCE \<le> URGENT_TASK"
  "\<not> MAINTENANCE \<le> NORMAL_TASK"
  by (simp_all add: enum_order)

fun toString_Priority :: "Priority \<Rightarrow> string" where
  "toString_Priority EMERGENCY_STOP = ''EMERGENCY_STOP''"
| "toString_Priority SAFETY_ISSUE = ''SAFETY_ISSUE''"
| "toString_Priority URGENT_TASK = ''URGENT_TASK''"
| "toString_Priority NORMAL_TASK = ''NORMAL_TASK''"
| "toString_Priority MAINTENANCE = ''MAINTENANCE''"

definition canPreempt :: "Priority \<Rightarrow> bool" where
  "canPreempt p \<longleftrightarrow> p \<le> URGENT_TASK"

text \<open>A task object: its identity and what \<^verbatim>\<open>getId\<close> returns.\<close>

record task_obj =
  task_address :: nat
  getId :: string

record behavior_request =
  behavior_id :: string
  priority :: Priority
  task :: task_obj
  timestamp :: time
  requester_id :: string
  cancellable :: bool
  timeout_ms :: int

definition getElapsedMs :: "time \<Rightarrow> behavior_request \<Rightarrow> int" where
  "getElapsedMs now r = tdiv (now - timestamp r) 1000000"

definition isTimedOut :: "time \<Rightarrow> behavior_request \<Rightarrow> bool" where
  "isTimedOut now r \<longleftrightarrow> timeout_ms r \<noteq> 0 \<and> timeout_ms r \<le> getElapsedMs now r"

section \<open>Five lists, one per priority\<close>

record 'a levels =
  emergency_stop :: "'a list"
  safety_issue :: "'a list"
  urgent_task :: "'a list"
  normal_task :: "'a list"
  maintenance :: "'a list"

definition no_levels :: "'a levels" where
  "no_levels = \<lparr>emergency_stop = [], safety_issue = [], urgent_task = [], normal_task = [], maintenance = []\<rparr>"

fun level :: "Priority \<Rightarrow> 'a levels \<Rightarrow> 'a list" where
  "level EMERGENCY_STOP q = emergency_stop q"
| "level SAFETY_ISSUE q = safety_issue q"
| "level URGENT_TASK q = urgent_task q"
| "level NORMAL_TASK q = normal_task q"
| "level MAINTENANCE q = maintenance q"

fun set_level :: "Priority \<Rightarrow> 'a list \<Rightarrow> 'a levels \<Rightarrow> 'a levels" where
  "set_level EMERGENCY_STOP xs q = q\<lparr>emergency_stop := xs\<rparr>"
| "set_level SAFETY_ISSUE xs q = q\<lparr>safety_issue := xs\<rparr>"
| "set_level URGENT_TASK xs q = q\<lparr>urgent_task := xs\<rparr>"
| "set_level NORMAL_TASK xs q = q\<lparr>normal_task := xs\<rparr>"
| "set_level MAINTENANCE xs q = q\<lparr>maintenance := xs\<rparr>"

subsection \<open>\<^verbatim>\<open>BehaviorPriorityQueue\<close>\<close>

type_synonym behavior_queue = "behavior_request levels"

definition BehaviorPriorityQueue :: behavior_queue where
  "BehaviorPriorityQueue = no_levels"

definition push_bq :: "behavior_request \<Rightarrow> behavior_queue \<Rightarrow> bool \<times> behavior_queue" where
  "push_bq r q = (True, set_level (priority r) (level (priority r) q @ [r]) q)"

text \<open>\<^verbatim>\<open>tryPop\<close> on the list of one priority.\<close>

definition tryPop :: "Priority \<Rightarrow> 'a levels \<Rightarrow> ('a \<times> 'a levels) option" where
  "tryPop p q = (case level p q of [] \<Rightarrow> None | x # xs \<Rightarrow> Some (x, set_level p xs q))"

definition pop_levels :: "'a levels \<Rightarrow> ('a \<times> 'a levels) option" where
  "pop_levels q =
    (case tryPop EMERGENCY_STOP q of Some r \<Rightarrow> Some r | None \<Rightarrow>
     case tryPop SAFETY_ISSUE q of Some r \<Rightarrow> Some r | None \<Rightarrow>
     case tryPop URGENT_TASK q of Some r \<Rightarrow> Some r | None \<Rightarrow>
     case tryPop NORMAL_TASK q of Some r \<Rightarrow> Some r | None \<Rightarrow>
     tryPop MAINTENANCE q)"

definition pop_bq :: "behavior_queue \<Rightarrow> (behavior_request \<times> behavior_queue) option" where
  "pop_bq = pop_levels"

definition isEmpty_bq :: "'a levels \<Rightarrow> bool" where
  "isEmpty_bq q \<longleftrightarrow> emergency_stop q = [] \<and> safety_issue q = [] \<and> urgent_task q = [] \<and>
     normal_task q = [] \<and> maintenance q = []"

definition size_bq :: "'a levels \<Rightarrow> nat" where
  "size_bq q = length (emergency_stop q) + length (safety_issue q) + length (urgent_task q) +
     length (normal_task q) + length (maintenance q)"

definition clear_bq :: "'a levels \<Rightarrow> 'a levels" where
  "clear_bq q = q\<lparr>emergency_stop := [], safety_issue := [], urgent_task := [], normal_task := [], maintenance := []\<rparr>"

definition sizeOf :: "Priority \<Rightarrow> 'a levels \<Rightarrow> nat" where
  "sizeOf p q = length (level p q)"

subsection \<open>\<^verbatim>\<open>TaskQueue\<close>\<close>

record task_queue =
  queues :: "task_obj levels"
  task_priority_map :: "string \<Rightarrow> Priority option"

definition TaskQueue :: task_queue where
  "TaskQueue = \<lparr>queues = no_levels, task_priority_map = Map.empty\<rparr>"

definition enqueue :: "task_obj \<Rightarrow> Priority \<Rightarrow> task_queue \<Rightarrow> bool \<times> task_queue" where
  "enqueue t p q =
    (case task_priority_map q (getId t) of
       Some _ \<Rightarrow> (False, q)
     | None \<Rightarrow>
         (True, q\<lparr>queues := set_level p (level p (queues q) @ [t]) (queues q),
                  task_priority_map := (task_priority_map q)(getId t \<mapsto> p)\<rparr>))"

definition dequeue :: "task_queue \<Rightarrow> (task_obj \<times> task_queue) option" where
  "dequeue q =
    (case pop_levels (queues q) of
       None \<Rightarrow> None
     | Some (t, qs) \<Rightarrow>
         Some (t, q\<lparr>queues := qs, task_priority_map := (task_priority_map q)(getId t := None)\<rparr>))"

definition isEmpty_tq :: "task_queue \<Rightarrow> bool" where
  "isEmpty_tq q = isEmpty_bq (queues q)"

definition size_tq :: "task_queue \<Rightarrow> nat" where
  "size_tq q = size_bq (queues q)"

definition clear_tq :: "task_queue \<Rightarrow> task_queue" where
  "clear_tq q = q\<lparr>queues := clear_bq (queues q), task_priority_map := Map.empty\<rparr>"

text \<open>\<^verbatim>\<open>PriorityQueue::remove\<close>: erase the first task with that id.\<close>

fun remove_first :: "string \<Rightarrow> task_obj list \<Rightarrow> bool \<times> task_obj list" where
  "remove_first i [] = (False, [])"
| "remove_first i (t # ts) =
    (if getId t = i then (True, ts) else case remove_first i ts of (b, ts) \<Rightarrow> (b, t # ts))"

definition remove_tq :: "string \<Rightarrow> task_queue \<Rightarrow> bool \<times> task_queue" where
  "remove_tq i q =
    (case task_priority_map q i of
       None \<Rightarrow> (False, q)
     | Some p \<Rightarrow>
         (case remove_first i (level p (queues q)) of (removed, ts) \<Rightarrow>
            if removed
            then (True, q\<lparr>queues := set_level p ts (queues q),
                          task_priority_map := (task_priority_map q)(i := None)\<rparr>)
            else (False, q\<lparr>queues := set_level p ts (queues q)\<rparr>)))"

definition getAllTasks :: "task_queue \<Rightarrow> task_obj list" where
  "getAllTasks q = emergency_stop (queues q) @ safety_issue (queues q) @ urgent_task (queues q) @
     normal_task (queues q) @ maintenance (queues q)"

definition peek :: "task_queue \<Rightarrow> task_obj option" where
  "peek q =
    (if emergency_stop (queues q) \<noteq> [] then Some (hd (emergency_stop (queues q)))
     else if safety_issue (queues q) \<noteq> [] then Some (hd (safety_issue (queues q)))
     else if urgent_task (queues q) \<noteq> [] then Some (hd (urgent_task (queues q)))
     else if normal_task (queues q) \<noteq> [] then Some (hd (normal_task (queues q)))
     else if maintenance (queues q) \<noteq> [] then Some (hd (maintenance (queues q)))
     else None)"

section \<open>Both queues provide it\<close>

text \<open>The waiting elements in the order of service, each with the priority of its list.\<close>

definition tagged :: "'a levels \<Rightarrow> (Priority \<times> 'a) list" where
  "tagged q = map (Pair EMERGENCY_STOP) (emergency_stop q) @ map (Pair SAFETY_ISSUE) (safety_issue q) @
     map (Pair URGENT_TASK) (urgent_task q) @ map (Pair NORMAL_TASK) (normal_task q) @
     map (Pair MAINTENANCE) (maintenance q)"

lemma takeWhile_Pair [simp]:
  "takeWhile (\<lambda>y. fst y \<le> p) (map (Pair p') xs @ ys) =
     (if p' \<le> p then map (Pair p') xs @ takeWhile (\<lambda>y. fst y \<le> p) ys
      else if xs = [] then takeWhile (\<lambda>y. fst y \<le> p) ys else [])"
  "dropWhile (\<lambda>y. fst y \<le> p) (map (Pair p') xs @ ys) =
     (if p' \<le> p then dropWhile (\<lambda>y. fst y \<le> p) ys
      else if xs = [] then dropWhile (\<lambda>y. fst y \<le> p) ys else map (Pair p') xs @ ys)"
  by (induction xs) auto

lemma takeWhile_Pair_Nil [simp]:
  "takeWhile (\<lambda>y. fst y \<le> p) (map (Pair p') xs) = (if p' \<le> p then map (Pair p') xs else [])"
  "dropWhile (\<lambda>y. fst y \<le> p) (map (Pair p') xs) = (if p' \<le> p then [] else map (Pair p') xs)"
  using takeWhile_Pair [of p p' xs "[]"] by (auto split: if_splits)

lemma tagged_enter: "tagged (set_level p (level p q @ [x]) q) = enter_by fst (p, x) (tagged q)"
  by (cases p) (auto simp: tagged_def enter_by_def)

lemma pop_levels_tagged:
  "pop_levels q = None \<Longrightarrow> tagged q = []"
  "pop_levels q = Some (x, q') \<Longrightarrow> \<exists>p. tagged q = (p, x) # tagged q'"
  by (auto simp: pop_levels_def tryPop_def tagged_def split: list.splits)

definition bq_ok :: "behavior_queue \<Rightarrow> bool" where
  "bq_ok q \<longleftrightarrow> list_all (\<lambda>(p, r). priority r = p) (tagged q)"

interpretation bq: priority_fifo priority id "\<lambda>q. map snd (tagged q)" "\<lambda>r q. True"
  "\<lambda>r q. snd (push_bq r q)" pop_bq bq_ok
proof unfold_locales
  fix q :: behavior_queue and r y q'
  assume ok: "bq_ok q"
  have push: "tagged (snd (push_bq r q)) = enter_by fst (priority r, r) (tagged q)"
    by (simp add: push_bq_def tagged_enter)
  then show "bq_ok (snd (push_bq r q))"
    using ok by (auto simp: bq_ok_def list_all_iff set_enter_by)
  show "map snd (tagged (snd (push_bq r q))) = enter_by priority r (map snd (tagged q))"
    unfolding push using ok
    by (subst enter_by_map [of fst priority snd]) (auto simp: bq_ok_def list_all_iff)
  show "pop_bq q = None \<Longrightarrow> map snd (tagged q) = []"
    by (simp add: pop_bq_def pop_levels_tagged)
  show "\<exists>x. y = id x \<and> map snd (tagged q) = x # map snd (tagged q')" if "pop_bq q = Some (y, q')"
    using pop_levels_tagged(2) [OF that [unfolded pop_bq_def]] by auto
  show "bq_ok q'" if "pop_bq q = Some (y, q')"
    using pop_levels_tagged(2) [OF that [unfolded pop_bq_def]] ok by (auto simp: bq_ok_def)
qed auto

text \<open>The task queue: no two waiting tasks have the same id, and the map gives their priorities.\<close>

definition tq_ok :: "task_queue \<Rightarrow> bool" where
  "tq_ok q \<longleftrightarrow> distinct (map (\<lambda>x. getId (snd x)) (tagged (queues q))) \<and>
     (\<forall>i p. task_priority_map q i = Some p \<longleftrightarrow> (\<exists>t. (p, t) \<in> set (tagged (queues q)) \<and> getId t = i))"

lemma tq_ok_new: "tq_ok TaskQueue"
  by (simp add: tq_ok_def TaskQueue_def no_levels_def tagged_def)

lemma tq_ok_fresh:
  assumes "tq_ok q" and "task_priority_map q i = None"
  shows "i \<notin> (\<lambda>x. getId (snd x)) ` set (tagged (queues q))"
  using assms by (force simp: tq_ok_def)

lemma tq_ok_enqueue:
  assumes "tq_ok q"
  shows "tq_ok (snd (enqueue t p q))"
proof (cases "task_priority_map q (getId t)")
  case None
  let ?q = "snd (enqueue t p q)"
  have T: "tagged (queues ?q) = enter_by fst (p, t) (tagged (queues q))"
    and M: "task_priority_map ?q = (task_priority_map q)(getId t \<mapsto> p)"
    using None by (simp_all add: enqueue_def tagged_enter)
  have "distinct (map (\<lambda>x. getId (snd x)) (tagged (queues ?q)))"
    using assms tq_ok_fresh [OF assms None] by (simp add: T distinct_enter_by tq_ok_def)
  moreover have "task_priority_map ?q i = Some p' \<longleftrightarrow> (\<exists>t'. (p', t') \<in> set (tagged (queues ?q)) \<and> getId t' = i)" for i p'
    using assms tq_ok_fresh [OF assms None] by (auto simp: T M set_enter_by tq_ok_def image_iff)
  ultimately show ?thesis by (simp add: tq_ok_def)
qed (use assms in \<open>simp add: enqueue_def\<close>)

lemma dequeue_tagged:
  assumes "dequeue q = Some (t, q')"
  shows "\<exists>p. tagged (queues q) = (p, t) # tagged (queues q')"
proof -
  obtain qs where "pop_levels (queues q) = Some (t, qs)" "queues q' = qs"
    using assms by (auto simp: dequeue_def split: option.splits)
  then show ?thesis using pop_levels_tagged(2) [of "queues q" t qs] by simp
qed

lemma tq_ok_dequeue:
  assumes "tq_ok q" and "dequeue q = Some (t, q')"
  shows "tq_ok q'"
proof -
  obtain p where p: "tagged (queues q) = (p, t) # tagged (queues q')"
    using dequeue_tagged [OF assms(2)] by blast
  have "task_priority_map q' = (task_priority_map q)(getId t := None)"
    using assms(2) by (auto simp: dequeue_def split: option.splits)
  then show ?thesis using assms(1) by (auto simp: tq_ok_def p image_iff)
qed

interpretation tq: priority_fifo fst snd "\<lambda>q. tagged (queues q)"
  "\<lambda>x q. task_priority_map q (getId (snd x)) = None" "\<lambda>x q. snd (enqueue (snd x) (fst x) q)" dequeue tq_ok
proof unfold_locales
  fix q x y q'
  assume ok: "tq_ok q"
  show "tq_ok (snd (enqueue (snd x) (fst x) q))" using ok by (rule tq_ok_enqueue)
  show "tq_ok q'" if "dequeue q = Some (y, q')" using ok that by (rule tq_ok_dequeue)
  show "tagged (queues (snd (enqueue (snd x) (fst x) q))) = enter_by fst x (tagged (queues q))"
    if "task_priority_map q (getId (snd x)) = None"
    using that by (simp add: enqueue_def tagged_enter)
  show "tagged (queues (snd (enqueue (snd x) (fst x) q))) = tagged (queues q)"
    if "task_priority_map q (getId (snd x)) \<noteq> None"
    using that by (auto simp: enqueue_def)
  show "tagged (queues q) = []" if "dequeue q = None"
    using that pop_levels_tagged(1) by (auto simp: dequeue_def split: option.splits)
  show "\<exists>x. y = snd x \<and> tagged (queues q) = x # tagged (queues q')" if "dequeue q = Some (y, q')"
    using dequeue_tagged [OF that] by auto
qed

text \<open>Removal.\<close>

lemma remove_first_filter:
  assumes "distinct (map getId ts)"
  shows "remove_first i ts = (i \<in> getId ` set ts, filter (\<lambda>t. getId t \<noteq> i) ts)"
  using assms
proof (induction ts)
  case (Cons t ts)
  show ?case
  proof (cases "getId t = i")
    case True
    have "getId x \<noteq> i" if "x \<in> set ts" for x
      using imageI [OF that, of getId] Cons.prems True by auto
    then have "filter (\<lambda>t. getId t \<noteq> i) ts = ts" by (intro filter_True) blast
    then show ?thesis using True by simp
  qed (use Cons in auto)
qed simp

lemma level_tagged: "t \<in> set (level p q) \<longleftrightarrow> (p, t) \<in> set (tagged q)"
  by (cases p) (auto simp: tagged_def)

lemma tagged_filter:
  assumes "\<And>p' t. (p', t) \<in> set (tagged q) \<Longrightarrow> getId t = i \<Longrightarrow> p' = p"
  shows "tagged (set_level p (filter (\<lambda>t. getId t \<noteq> i) (level p q)) q) =
    filter (\<lambda>x. getId (snd x) \<noteq> i) (tagged q)"
proof -
  have "filter (\<lambda>t. getId t \<noteq> i) (level p' q) = level p' q" if "p' \<noteq> p" for p'
    using that assms by (intro filter_True) (auto simp: level_tagged)
  from this [of EMERGENCY_STOP] this [of SAFETY_ISSUE] this [of URGENT_TASK] this [of NORMAL_TASK] this [of MAINTENANCE]
  show ?thesis by (cases p) (simp_all add: tagged_def filter_map comp_def)
qed

lemma distinct_level:
  assumes "distinct (map (\<lambda>x. getId (snd x)) (tagged q))"
  shows "distinct (map getId (level p q))"
  using assms by (cases p) (auto simp: tagged_def comp_def)

lemma getAllTasks_tagged: "getAllTasks q = map snd (tagged (queues q))"
  by (simp add: getAllTasks_def tagged_def comp_def)

lemma tq_ok_unique:
  assumes "tq_ok q" and "(p, t) \<in> set (tagged (queues q))" and "(p', t') \<in> set (tagged (queues q))"
    and "getId t = getId t'"
  shows "p' = p"
proof -
  have "task_priority_map q (getId t) = Some p" "task_priority_map q (getId t) = Some p'"
    using assms by (auto simp: tq_ok_def)
  then show ?thesis by simp
qed

lemma remove_tq_tagged:
  assumes "tq_ok q"
  shows "fst (remove_tq i q) = (i \<in> getId ` set (getAllTasks q)) \<and>
    tagged (queues (snd (remove_tq i q))) = filter (\<lambda>x. getId (snd x) \<noteq> i) (tagged (queues q)) \<and>
    tq_ok (snd (remove_tq i q))"
proof (cases "task_priority_map q i")
  case None
  then have "remove_tq i q = (False, q)" by (simp add: remove_tq_def)
  moreover have "getId (snd x) \<noteq> i" if "x \<in> set (tagged (queues q))" for x
    using that tq_ok_fresh [OF assms None] by blast
  ultimately show ?thesis
    using assms filter_True [of "tagged (queues q)" "\<lambda>x. getId (snd x) \<noteq> i"]
    by (auto simp: getAllTasks_tagged)
next
  case (Some p)
  let ?T = "tagged (queues q)"
  obtain t where t: "(p, t) \<in> set ?T" "getId t = i"
    using assms Some by (auto simp: tq_ok_def)
  have T: "tagged (set_level p (filter (\<lambda>t. getId t \<noteq> i) (level p (queues q))) (queues q)) =
      filter (\<lambda>x. getId (snd x) \<noteq> i) ?T"
    using tq_ok_unique [OF assms t(1)] t(2) by (intro tagged_filter) auto
  have dist: "distinct (map (\<lambda>x. getId (snd x)) ?T)" using assms by (simp add: tq_ok_def)
  have "t \<in> set (level p (queues q))" using t(1) by (simp add: level_tagged)
  then have "i \<in> getId ` set (level p (queues q))" using t(2) by auto
  then have R: "remove_tq i q = (True, q\<lparr>queues := set_level p (filter (\<lambda>t. getId t \<noteq> i) (level p (queues q))) (queues q),
      task_priority_map := (task_priority_map q)(i := None)\<rparr>)"
    using Some by (simp add: remove_tq_def remove_first_filter [OF distinct_level [OF dist]])
  have "((task_priority_map q)(i := None)) i' = Some p' \<longleftrightarrow>
      (\<exists>t'. (p', t') \<in> set (filter (\<lambda>x. getId (snd x) \<noteq> i) ?T) \<and> getId t' = i')" for i' p'
    using assms by (cases "i' = i") (auto simp: tq_ok_def)
  then have "tq_ok (snd (remove_tq i q))"
    using dist by (simp add: tq_ok_def R T distinct_map_filter)
  moreover have "t \<in> set (getAllTasks q)"
    using imageI [OF t(1), of snd] by (simp add: getAllTasks_tagged)
  then have "i \<in> getId ` set (getAllTasks q)" using t(2) by auto
  ultimately show ?thesis using T by (simp add: R)
qed

text \<open>Runs of the task queue.\<close>

datatype tq_op = Enqueue task_obj Priority | Dequeue | Remove string | Clear

fun tq_step :: "task_queue \<Rightarrow> tq_op \<Rightarrow> task_queue" where
  "tq_step q (Enqueue t p) = snd (enqueue t p q)"
| "tq_step q Dequeue = (case dequeue q of None \<Rightarrow> q | Some (_, q) \<Rightarrow> q)"
| "tq_step q (Remove i) = snd (remove_tq i q)"
| "tq_step q Clear = clear_tq q"

lemma tq_ok_clear: "tq_ok (clear_tq q)"
  by (simp add: tq_ok_def clear_tq_def clear_bq_def tagged_def)

interpretation tq_run: step_system tq_step tq_ok
proof unfold_locales
  fix q op
  assume "tq_ok q"
  then show "tq_ok (tq_step q op)"
    by (cases op) (auto simp: tq_ok_enqueue remove_tq_tagged tq_ok_clear intro: tq_ok_dequeue split: option.splits)
qed

text \<open>The requests the task queue accepts: the first of each id.\<close>

fun first_of_id :: "string set \<Rightarrow> (Priority \<times> task_obj) list \<Rightarrow> (Priority \<times> task_obj) list" where
  "first_of_id seen [] = []"
| "first_of_id seen (x # xs) =
    (if getId (snd x) \<in> seen then first_of_id seen xs
     else x # first_of_id (insert (getId (snd x)) seen) xs)"

lemma dom_enqueue:
  "dom (task_priority_map (snd (enqueue t p q))) = insert (getId t) (dom (task_priority_map q))"
  by (cases "task_priority_map q (getId t)") (auto simp: enqueue_def split: if_splits)

lemma accepted_first_of_id:
  "accepted (\<lambda>x q. task_priority_map q (getId (snd x)) = None) (\<lambda>x q. snd (enqueue (snd x) (fst x) q)) q xs =
     first_of_id (dom (task_priority_map q)) xs"
proof (induction xs arbitrary: q)
  case (Cons x xs)
  then show ?case
    by (cases "task_priority_map q (getId (snd x))") (auto simp: dom_enqueue insert_absorb)
qed simp

lemma accepted_all: "accepted (\<lambda>x q. True) ins q xs = xs"
  by (induction xs arbitrary: q) auto

section \<open>Properties\<close>

text \<open>C7. The behavior queue serves by priority and, within a priority, first come first served: pushing
  any requests and then popping them all returns their stable sort by priority.\<close>

theorem behavior_queue_order:
  "drain pop_bq (length rs) (fold (\<lambda>r q. snd (push_bq r q)) rs BehaviorPriorityQueue) =
     sort_key priority rs"
proof -
  have "bq_ok BehaviorPriorityQueue" "map snd (tagged BehaviorPriorityQueue) = []"
    by (simp_all add: bq_ok_def BehaviorPriorityQueue_def no_levels_def tagged_def)
  from bq.service_order [OF this, of rs] show ?thesis by (simp add: accepted_all)
qed

text \<open>The task queue accepts a task exactly when no waiting task has its id, and dequeuing everything
  returns the accepted tasks in the stable order of their priorities.\<close>

theorem task_queue_order:
  "drain dequeue (length xs) (fold (\<lambda>x q. snd (enqueue (snd x) (fst x) q)) xs TaskQueue) =
     map snd (sort_key fst (first_of_id {} xs))"
proof -
  have "tagged (queues TaskQueue) = []" "dom (task_priority_map TaskQueue) = {}"
    by (simp_all add: TaskQueue_def no_levels_def tagged_def)
  with tq.service_order [OF tq_ok_new, of xs] show ?thesis by (simp add: accepted_first_of_id)
qed

text \<open>After any sequence of operations the id map of the task queue agrees with its lists, so that
  \<^verbatim>\<open>remove\<close> succeeds exactly for the ids that wait and removes exactly that task, keeping the order
  of the others.\<close>

theorem task_queue_remove:
  "let q = run_steps tq_step TaskQueue ops in
    fst (remove_tq i q) = (i \<in> getId ` set (getAllTasks q)) \<and>
    getAllTasks (snd (remove_tq i q)) = filter (\<lambda>t. getId t \<noteq> i) (getAllTasks q) \<and>
    distinct (map getId (getAllTasks q))"
proof -
  let ?q = "run_steps tq_step TaskQueue ops"
  have ok: "tq_ok ?q" by (rule tq_run.run_inv [OF tq_ok_new])
  then have "distinct (map getId (getAllTasks ?q))"
    by (simp add: tq_ok_def getAllTasks_tagged comp_def)
  with remove_tq_tagged [OF ok, of i] show ?thesis
    by (simp add: getAllTasks_tagged filter_map comp_def)
qed

end
