(* ===== verification/Control_Arbiter.thy ===== *)
theory Control_Arbiter
  imports Control_Queues
begin

text \<open>
  The control modes and the behavior arbiter, under \<^verbatim>\<open>src/src/core/control\<close>:
  \<^verbatim>\<open>dto/ControlMode.h\<close> and \<^verbatim>\<open>impl/BehaviorArbiter.{h,cpp}\<close>.

  The arbiter calls three other components. Its tasks are objects whose methods are recorded
  (\<open>task_calls\<close>); the status a task reports when a tick asks for it is an argument of the tick,
  as are the two answers of the alarm manager. Writes to the optional data store are recorded
  (\<open>store_writes\<close>); \<open>store_throws\<close> says which keys the store rejects with an exception, which
  \<^verbatim>\<open>transitionTo\<close> catches.

  The lemmas say which mode changes the arbiter makes, what a tick does in each of its cases, and
  what happens to requests that arrive while a task runs.
\<close>

section \<open>Model\<close>

datatype ControlMode = BOOT | INIT | STANDBY | MANUAL | READY | AUTO | FAULT | MAINT | CHARGING

fun mode_value :: "ControlMode \<Rightarrow> int" where
  "mode_value BOOT = 0"
| "mode_value INIT = 1"
| "mode_value STANDBY = 2"
| "mode_value MANUAL = 3"
| "mode_value READY = 4"
| "mode_value AUTO = 5"
| "mode_value FAULT = 6"
| "mode_value MAINT = 7"
| "mode_value CHARGING = 8"

fun toString_ControlMode :: "ControlMode \<Rightarrow> string" where
  "toString_ControlMode BOOT = ''BOOT''"
| "toString_ControlMode INIT = ''INIT''"
| "toString_ControlMode STANDBY = ''STANDBY''"
| "toString_ControlMode MANUAL = ''MANUAL''"
| "toString_ControlMode READY = ''READY''"
| "toString_ControlMode AUTO = ''AUTO''"
| "toString_ControlMode FAULT = ''FAULT''"
| "toString_ControlMode MAINT = ''MAINT''"
| "toString_ControlMode CHARGING = ''CHARGING''"

definition isValidTransition_CM :: "ControlMode \<Rightarrow> ControlMode \<Rightarrow> bool" where
  "isValidTransition_CM from to =
    (if to = FAULT then True
     else case from of
       BOOT \<Rightarrow> to = INIT
     | INIT \<Rightarrow> to = STANDBY
     | STANDBY \<Rightarrow> to = MANUAL \<or> to = READY \<or> to = AUTO \<or> to = MAINT
     | MANUAL \<Rightarrow> to = STANDBY
     | READY \<Rightarrow> to = AUTO \<or> to = STANDBY
     | AUTO \<Rightarrow> to = READY \<or> to = STANDBY \<or> to = CHARGING
     | FAULT \<Rightarrow> to = STANDBY
     | MAINT \<Rightarrow> to = STANDBY
     | CHARGING \<Rightarrow> to = STANDBY \<or> to = AUTO)"

datatype TaskStatus = IDLE | RUNNING | COMPLETED | FAILED | CANCELLED | PAUSED | SCHEDULED

datatype task_call = TaskStart task_obj | TaskStop task_obj | TaskPause task_obj | TaskResume task_obj

datatype store_value = IntValue int | StringValue string

record arbiter =
  data_store :: bool
  store_throws :: "string \<Rightarrow> bool"
  current_mode :: ControlMode
  pending_safe_mode :: bool
  pending_behaviors :: behavior_queue
  current_behavior :: "behavior_request option"
  suspended_behaviors :: "string \<Rightarrow> behavior_request option"
  total_requests :: u64
  preemptions :: u64
  mode_transitions :: u64
  paused :: bool
  task_calls :: "task_call list"
  store_writes :: "(string \<times> store_value) list"

definition BehaviorArbiter :: "bool \<Rightarrow> (string \<Rightarrow> bool) \<Rightarrow> arbiter" where
  "BehaviorArbiter store throws =
    \<lparr>data_store = store, store_throws = throws, current_mode = STANDBY, pending_safe_mode = False,
     pending_behaviors = BehaviorPriorityQueue, current_behavior = None,
     suspended_behaviors = Map.empty, total_requests = 0, preemptions = 0, mode_transitions = 0,
     paused = False, task_calls = [], store_writes = []\<rparr>"

definition requestBehavior :: "behavior_request \<Rightarrow> arbiter \<Rightarrow> bool \<times> arbiter" where
  "requestBehavior r a =
    (let a = a\<lparr>total_requests := total_requests a + 1\<rparr>;
         (ok, q) = push_bq r (pending_behaviors a);
         a = a\<lparr>pending_behaviors := q\<rparr>
     in if \<not> ok then (False, a) else (True, a))"

definition getCurrentMode :: "arbiter \<Rightarrow> ControlMode" where
  "getCurrentMode a = current_mode a"

definition getCurrentTaskId :: "arbiter \<Rightarrow> string" where
  "getCurrentTaskId a = (case current_behavior a of None \<Rightarrow> [] | Some b \<Rightarrow> getId (task b))"

definition getPendingBehaviorCount :: "arbiter \<Rightarrow> nat" where
  "getPendingBehaviorCount a = size_bq (pending_behaviors a)"

definition call_task :: "task_call \<Rightarrow> arbiter \<Rightarrow> arbiter" where
  "call_task c a = a\<lparr>task_calls := task_calls a @ [c]\<rparr>"

definition stopCurrentTask :: "string \<Rightarrow> arbiter \<Rightarrow> arbiter" where
  "stopCurrentTask method a =
    (case current_behavior a of
       None \<Rightarrow> a
     | Some b \<Rightarrow>
         if method = ''cancel'' then call_task (TaskStop (task b)) a
         else if method = ''pause'' then call_task (TaskPause (task b)) a
         else a)"

definition startTask :: "behavior_request \<Rightarrow> arbiter \<Rightarrow> arbiter" where
  "startTask b a = call_task (TaskStart (task b)) (a\<lparr>current_behavior := Some b\<rparr>)"

definition clearPendingBehaviors :: "arbiter \<Rightarrow> arbiter" where
  "clearPendingBehaviors a =
     a\<lparr>pending_behaviors := clear_bq (pending_behaviors a), suspended_behaviors := Map.empty\<rparr>"

text \<open>Writes to the data store, in order, up to the first key it rejects.\<close>

fun store_all :: "(string \<times> store_value) list \<Rightarrow> arbiter \<Rightarrow> arbiter" where
  "store_all [] a = a"
| "store_all ((k, v) # ws) a =
    (if store_throws a k then a else store_all ws (a\<lparr>store_writes := store_writes a @ [(k, v)]\<rparr>))"

definition transitionTo_CM :: "ControlMode \<Rightarrow> arbiter \<Rightarrow> bool \<times> arbiter" where
  "transitionTo_CM new a =
    (let current = current_mode a in
     if \<not> isValidTransition_CM current new then (False, a)
     else
       let a = (if new = FAULT then clearPendingBehaviors (stopCurrentTask ''cancel'' a) else a);
           a = a\<lparr>current_mode := new, mode_transitions := mode_transitions a + 1\<rparr>;
           a = (if data_store a
                then store_all
                  [(''control/current_mode'', IntValue (mode_value new)),
                   (''control/mode_transition_history'',
                      StringValue (toString_ControlMode current @ '' -> '' @ toString_ControlMode new)),
                   (''control/mode_transitions_count'',
                      IntValue (sint (ucast (mode_transitions a) :: 32 word)))] a
                else a)
       in (True, a))"

definition cancelBehavior :: "string \<Rightarrow> arbiter \<Rightarrow> bool \<times> arbiter" where
  "cancelBehavior i a =
    (case current_behavior a of
       Some b \<Rightarrow>
         if behavior_id b = i
         then if \<not> cancellable b then (False, a)
              else (True, (stopCurrentTask ''cancel'' a)\<lparr>current_behavior := None\<rparr>)
         else if suspended_behaviors a i \<noteq> None
         then (True, a\<lparr>suspended_behaviors := (suspended_behaviors a)(i := None)\<rparr>)
         else (False, a)
     | None \<Rightarrow>
         if suspended_behaviors a i \<noteq> None
         then (True, a\<lparr>suspended_behaviors := (suspended_behaviors a)(i := None)\<rparr>)
         else (False, a))"

definition pause_arb :: "arbiter \<Rightarrow> bool \<times> arbiter" where
  "pause_arb a =
    (if paused a then (False, a)
     else (True, stopCurrentTask ''pause'' (a\<lparr>paused := True\<rparr>)))"

definition resume_arb :: "arbiter \<Rightarrow> bool \<times> arbiter" where
  "resume_arb a =
    (if \<not> paused a then (False, a)
     else
       let a = a\<lparr>paused := False\<rparr> in
       (True, case current_behavior a of
                None \<Rightarrow> a
              | Some b \<Rightarrow> call_task (TaskResume (task b)) a))"

definition selectNextBehavior :: "arbiter \<Rightarrow> behavior_request option \<times> arbiter" where
  "selectNextBehavior a =
    (case pop_bq (pending_behaviors a) of
       None \<Rightarrow> (None, a)
     | Some (r, q) \<Rightarrow> (Some r, a\<lparr>pending_behaviors := q\<rparr>))"

definition shouldPreempt :: "behavior_request \<Rightarrow> arbiter \<Rightarrow> bool" where
  "shouldPreempt r a =
    (case current_behavior a of
       None \<Rightarrow> False
     | Some b \<Rightarrow> priority r < priority b \<and> canPreempt (priority r))"

text \<open>Pause the current behavior and put it into the suspended map.\<close>

definition suspend_current :: "behavior_request \<Rightarrow> arbiter \<Rightarrow> arbiter" where
  "suspend_current b a =
    (let a = stopCurrentTask ''pause'' a in
     a\<lparr>suspended_behaviors := (suspended_behaviors a)(behavior_id b \<mapsto> b), current_behavior := None\<rparr>)"

definition handlePreemption :: "behavior_request \<Rightarrow> arbiter \<Rightarrow> arbiter" where
  "handlePreemption r a =
    (case current_behavior a of
       None \<Rightarrow> a
     | Some b \<Rightarrow>
         let a = a\<lparr>preemptions := preemptions a + 1\<rparr>;
             a = (if priority r = EMERGENCY_STOP
                  then snd (transitionTo_CM FAULT ((stopCurrentTask ''cancel'' a)\<lparr>current_behavior := None\<rparr>))
                  else if priority r = SAFETY_ISSUE then suspend_current b a
                  else if priority r = URGENT_TASK \<and> NORMAL_TASK \<le> priority b then suspend_current b a
                  else a)
         in startTask r a)"

definition checkCriticalAlarms :: "bool \<Rightarrow> arbiter \<Rightarrow> arbiter" where
  "checkCriticalAlarms hasCriticalAlarm a =
    (if hasCriticalAlarm \<and> current_mode a \<noteq> FAULT then snd (transitionTo_CM FAULT a) else a)"

definition checkWarningAlarms :: "bool \<Rightarrow> arbiter \<Rightarrow> arbiter" where
  "checkWarningAlarms hasWarningAlarm a =
    (if hasWarningAlarm \<and> current_mode a \<noteq> MAINT \<and> current_mode a \<noteq> FAULT \<and> \<not> pending_safe_mode a
     then if current_behavior a \<noteq> None then a\<lparr>pending_safe_mode := True\<rparr>
          else snd (transitionTo_CM MAINT a)
     else a)"

definition removeTimedOutBehaviors :: "arbiter \<Rightarrow> arbiter" where
  "removeTimedOutBehaviors a = a"

definition start_next :: "arbiter \<Rightarrow> arbiter" where
  "start_next a =
    (case selectNextBehavior a of (None, a) \<Rightarrow> a | (Some r, a) \<Rightarrow> startTask r a)"

definition finished :: "TaskStatus \<Rightarrow> bool" where
  "finished st \<longleftrightarrow> st = COMPLETED \<or> st = FAILED \<or> st = CANCELLED"

definition tick :: "bool \<Rightarrow> bool \<Rightarrow> TaskStatus \<Rightarrow> arbiter \<Rightarrow> arbiter" where
  "tick critical warning status a =
    (let a = checkWarningAlarms warning (checkCriticalAlarms critical a) in
     if paused a then a
     else
       let a = removeTimedOutBehaviors a in
       case current_behavior a of
         None \<Rightarrow> start_next a
       | Some b \<Rightarrow>
           if finished status
           then let a = a\<lparr>current_behavior := None\<rparr> in
                if pending_safe_mode a
                then (snd (transitionTo_CM MAINT a))\<lparr>pending_safe_mode := False\<rparr>
                else start_next a
           else case selectNextBehavior a of
                  (None, a) \<Rightarrow> a
                | (Some r, a) \<Rightarrow> if shouldPreempt r a then handlePreemption r a else a)"

datatype arb_op =
    Request behavior_request
  | Tick bool bool TaskStatus
  | TransitionTo ControlMode
  | ClearPending
  | CancelBehavior string
  | Pause
  | Resume

fun arb_step :: "arbiter \<Rightarrow> arb_op \<Rightarrow> arbiter" where
  "arb_step a (Request r) = snd (requestBehavior r a)"
| "arb_step a (Tick c w st) = tick c w st a"
| "arb_step a (TransitionTo m) = snd (transitionTo_CM m a)"
| "arb_step a ClearPending = clearPendingBehaviors a"
| "arb_step a (CancelBehavior i) = snd (cancelBehavior i a)"
| "arb_step a Pause = snd (pause_arb a)"
| "arb_step a Resume = snd (resume_arb a)"

section \<open>Lemmas\<close>

subsection \<open>What the helpers leave alone\<close>

lemma store_all_frame [simp]:
  "current_mode (store_all ws a) = current_mode a"
  "pending_safe_mode (store_all ws a) = pending_safe_mode a"
  "pending_behaviors (store_all ws a) = pending_behaviors a"
  "current_behavior (store_all ws a) = current_behavior a"
  "suspended_behaviors (store_all ws a) = suspended_behaviors a"
  "paused (store_all ws a) = paused a"
  "task_calls (store_all ws a) = task_calls a"
  by (induction ws a rule: store_all.induct) auto

lemma stopCurrentTask_frame [simp]:
  "current_mode (stopCurrentTask m a) = current_mode a"
  "pending_safe_mode (stopCurrentTask m a) = pending_safe_mode a"
  "pending_behaviors (stopCurrentTask m a) = pending_behaviors a"
  "current_behavior (stopCurrentTask m a) = current_behavior a"
  "suspended_behaviors (stopCurrentTask m a) = suspended_behaviors a"
  "paused (stopCurrentTask m a) = paused a"
  by (auto simp: stopCurrentTask_def call_task_def split: option.splits)

lemma transitionTo_result [simp]:
  "current_mode (snd (transitionTo_CM m a)) =
     (if isValidTransition_CM (current_mode a) m then m else current_mode a)"
  "current_behavior (snd (transitionTo_CM m a)) = current_behavior a"
  "paused (snd (transitionTo_CM m a)) = paused a"
  "pending_safe_mode (snd (transitionTo_CM m a)) = pending_safe_mode a"
  "fst (transitionTo_CM m a) = isValidTransition_CM (current_mode a) m"
  by (simp_all add: transitionTo_CM_def Let_def clearPendingBehaviors_def)

lemma start_next_frame [simp]:
  "current_mode (start_next a) = current_mode a"
  by (auto simp: start_next_def startTask_def call_task_def selectNextBehavior_def split: option.splits)

lemma selectNext_frame:
  "selectNextBehavior a = (r, a') \<Longrightarrow> current_mode a' = current_mode a \<and> current_behavior a' = current_behavior a"
  by (auto simp: selectNextBehavior_def split: option.splits)

lemma FAULT_valid [simp]: "isValidTransition_CM m FAULT"
  by (simp add: isValidTransition_CM_def)

lemma from_FAULT [simp]: "isValidTransition_CM FAULT m \<longleftrightarrow> m = FAULT \<or> m = STANDBY"
  by (simp add: isValidTransition_CM_def)

lemma handlePreemption_mode:
  "current_mode (handlePreemption r a) = current_mode a \<or> current_mode (handlePreemption r a) = FAULT"
  by (simp add: handlePreemption_def startTask_def call_task_def suspend_current_def Let_def split: option.splits)

text \<open>The only modes a tick can enter are \<^verbatim>\<open>FAULT\<close> and, where valid, \<^verbatim>\<open>MAINT\<close>.\<close>

definition tick_mode :: "ControlMode \<Rightarrow> ControlMode \<Rightarrow> bool" where
  "tick_mode m m' \<longleftrightarrow> m' = m \<or> m' = FAULT \<or> (m' = MAINT \<and> isValidTransition_CM m MAINT)"

lemma tick_mode_trans: "tick_mode m m' \<Longrightarrow> tick_mode m' m'' \<Longrightarrow> tick_mode m m''"
  by (auto simp: tick_mode_def isValidTransition_CM_def)

lemma checkCritical_mode: "tick_mode (current_mode a) (current_mode (checkCriticalAlarms c a))"
  by (simp add: checkCriticalAlarms_def tick_mode_def)

lemma checkWarning_mode: "tick_mode (current_mode a) (current_mode (checkWarningAlarms w a))"
  by (simp add: checkWarningAlarms_def tick_mode_def)

lemma tick_mode_tick: "tick_mode (current_mode a) (current_mode (tick c w st a))"
proof -
  define a1 where "a1 = checkWarningAlarms w (checkCriticalAlarms c a)"
  have "tick_mode (current_mode a) (current_mode a1)"
    unfolding a1_def using checkCritical_mode checkWarning_mode by (rule tick_mode_trans)
  moreover have "tick_mode (current_mode a1) (current_mode (tick c w st a))"
  proof (cases "paused a1")
    case True
    then show ?thesis by (simp add: tick_def a1_def [symmetric] tick_mode_def)
  next
    case False
    show ?thesis
    proof (cases "current_behavior a1")
      case None
      then show ?thesis
        using False by (simp add: tick_def a1_def [symmetric] removeTimedOutBehaviors_def tick_mode_def)
    next
      case (Some b)
      obtain r a2 where sel: "selectNextBehavior a1 = (r, a2)" by fastforce
      then have a2: "current_mode a2 = current_mode a1" using selectNext_frame by blast
      show ?thesis
        using False Some sel a2 handlePreemption_mode [of "the r" a2]
        by (auto simp: tick_def a1_def [symmetric] removeTimedOutBehaviors_def tick_mode_def Let_def
            split: option.splits)
    qed
  qed
  ultimately show ?thesis by (rule tick_mode_trans)
qed

interpretation arb: mode_system arb_step current_mode isValidTransition_CM
proof unfold_locales
  fix a e
  have tick: "isValidTransition_CM\<^sup>*\<^sup>* m m'" if "tick_mode m m'" for m m'
    using that by (auto simp: tick_mode_def)
  show "isValidTransition_CM\<^sup>*\<^sup>* (current_mode a) (current_mode (arb_step a e))"
  proof (cases e)
    case (Tick c w st)
    then show ?thesis using tick [OF tick_mode_tick] by simp
  next
    case (TransitionTo m)
    then show ?thesis by auto
  qed (auto simp: requestBehavior_def Let_def clearPendingBehaviors_def cancelBehavior_def pause_arb_def
      resume_arb_def call_task_def split: option.splits prod.splits)
qed

subsection \<open>Calls of task methods\<close>

text \<open>The calls an operation makes: none of them resumes a task.\<close>

definition no_resume_since :: "arbiter \<Rightarrow> arbiter \<Rightarrow> bool" where
  "no_resume_since a a' \<longleftrightarrow>
     (\<exists>cs. task_calls a' = task_calls a @ cs \<and> list_all (\<lambda>c. case c of TaskResume _ \<Rightarrow> False | _ \<Rightarrow> True) cs)"

lemma no_resume_refl [simp]: "task_calls a' = task_calls a \<Longrightarrow> no_resume_since a a'"
  by (simp add: no_resume_since_def)

lemma no_resume_trans: "no_resume_since a b \<Longrightarrow> no_resume_since b c \<Longrightarrow> no_resume_since a c"
  by (auto simp: no_resume_since_def)

lemma no_resume_stop: "no_resume_since a (stopCurrentTask m a)"
  by (auto simp: no_resume_since_def stopCurrentTask_def call_task_def split: option.splits)

lemma no_resume_start: "no_resume_since a (startTask r a)"
  by (simp add: no_resume_since_def startTask_def call_task_def)

lemma no_resume_transitionTo: "no_resume_since a (snd (transitionTo_CM m a))"
  using no_resume_stop [of a "''cancel''"]
  by (simp add: transitionTo_CM_def Let_def clearPendingBehaviors_def no_resume_since_def)

lemma no_resume_selectNext: "selectNextBehavior a = (r, a') \<Longrightarrow> no_resume_since a a'"
  by (auto simp: selectNextBehavior_def split: option.splits)

lemma no_resume_start_next: "no_resume_since a (start_next a)"
proof -
  obtain r a' where sel: "selectNextBehavior a = (r, a')" by fastforce
  show ?thesis
    using no_resume_trans [OF no_resume_selectNext [OF sel] no_resume_start] no_resume_selectNext [OF sel]
    by (cases r) (simp_all add: start_next_def sel)
qed

lemma no_resume_suspend: "no_resume_since a (suspend_current b a)"
  using no_resume_stop [of a "''pause''"] by (simp add: suspend_current_def Let_def no_resume_since_def)

lemma no_resume_preempt: "no_resume_since a (handlePreemption r a)"
proof (cases "current_behavior a")
  case (Some b)
  let ?a = "a\<lparr>preemptions := preemptions a + 1\<rparr>"
  have "no_resume_since ?a (snd (transitionTo_CM FAULT ((stopCurrentTask ''cancel'' ?a)\<lparr>current_behavior := None\<rparr>)))"
    by (rule no_resume_trans [OF no_resume_stop [of ?a "''cancel''"] no_resume_trans [OF no_resume_refl no_resume_transitionTo]]) simp
  then have "no_resume_since ?a
    (if priority r = EMERGENCY_STOP
     then snd (transitionTo_CM FAULT ((stopCurrentTask ''cancel'' ?a)\<lparr>current_behavior := None\<rparr>))
     else if priority r = SAFETY_ISSUE then suspend_current b ?a
     else if priority r = URGENT_TASK \<and> NORMAL_TASK \<le> priority b then suspend_current b ?a
     else ?a)"
    by (simp add: no_resume_suspend)
  from no_resume_trans [OF this no_resume_start] show ?thesis
    by (simp add: handlePreemption_def Some Let_def no_resume_since_def)
qed (simp add: handlePreemption_def)

lemma no_resume_alarms: "no_resume_since a (checkWarningAlarms w (checkCriticalAlarms c a))"
  by (rule no_resume_trans [of _ "checkCriticalAlarms c a"])
    (simp_all add: checkWarningAlarms_def checkCriticalAlarms_def no_resume_transitionTo)

lemma no_resume_tick: "no_resume_since a (tick c w st a)"
proof -
  define a1 where "a1 = checkWarningAlarms w (checkCriticalAlarms c a)"
  obtain r a2 where sel: "selectNextBehavior a1 = (r, a2)" by fastforce
  have drop: "no_resume_since a1 (a1\<lparr>current_behavior := None\<rparr>)" by simp
  have "no_resume_since a1 (tick c w st a)"
    using no_resume_start_next [of a1] no_resume_trans [OF drop no_resume_start_next]
      no_resume_trans [OF drop no_resume_transitionTo [of _ MAINT]] no_resume_selectNext [OF sel]
      no_resume_trans [OF no_resume_selectNext [OF sel] no_resume_preempt [of a2 "the r"]]
    by (auto simp: tick_def a1_def [symmetric] removeTimedOutBehaviors_def Let_def sel no_resume_since_def
        split: option.splits)
  then show ?thesis using no_resume_alarms [of a w c] unfolding a1_def by (rule no_resume_trans [rotated])
qed

lemma no_resume_step:
  assumes "e \<noteq> Resume"
  shows "no_resume_since a (arb_step a e)"
proof (cases e)
  case (Tick c w st)
  then show ?thesis by (simp add: no_resume_tick)
next
  case (TransitionTo m)
  then show ?thesis by (simp add: no_resume_transitionTo)
qed (use assms no_resume_stop [of a "''cancel''"] no_resume_stop [of "a\<lparr>paused := True\<rparr>" "''pause''"] in
    \<open>auto simp: requestBehavior_def clearPendingBehaviors_def cancelBehavior_def pause_arb_def Let_def
      no_resume_since_def split: option.splits prod.splits\<close>)

subsection \<open>Ticks\<close>

lemma alarms_quiet [simp]: "checkWarningAlarms False a = a" "checkCriticalAlarms False a = a"
  by (simp_all add: checkWarningAlarms_def checkCriticalAlarms_def)

lemma pop_empty: "isEmpty_bq q \<Longrightarrow> pop_bq q = None"
  by (simp add: isEmpty_bq_def pop_bq_def pop_levels_def tryPop_def)

lemma pop_single:
  "isEmpty_bq q \<Longrightarrow> pop_bq (snd (push_bq r q)) = Some (r, q)"
  by (cases "priority r") (auto simp: isEmpty_bq_def pop_bq_def pop_levels_def tryPop_def push_bq_def)

lemma isEmpty_clear [simp]: "isEmpty_bq (clear_bq q)"
  by (simp add: isEmpty_bq_def clear_bq_def)

lemma start_next_empty: "isEmpty_bq (pending_behaviors a) \<Longrightarrow> start_next a = a"
  by (simp add: start_next_def selectNextBehavior_def pop_empty)

lemma transitionTo_FAULT [simp]:
  "isEmpty_bq (pending_behaviors (snd (transitionTo_CM FAULT a)))"
  "suspended_behaviors (snd (transitionTo_CM FAULT a)) = Map.empty"
  "task_calls (snd (transitionTo_CM FAULT a)) = task_calls (stopCurrentTask ''cancel'' a)"
  by (simp_all add: transitionTo_CM_def Let_def clearPendingBehaviors_def)

lemma tick_after_FAULT:
  assumes "current_mode a = FAULT" and "isEmpty_bq (pending_behaviors a)" and "\<not> critical"
  shows "current_mode (tick critical w st a) = FAULT \<and> isEmpty_bq (pending_behaviors (tick critical w st a)) \<and>
    suspended_behaviors (tick critical w st a) = suspended_behaviors a \<and> task_calls (tick critical w st a) = task_calls a"
proof -
  have "transitionTo_CM MAINT (a\<lparr>current_behavior := None\<rparr>) = (False, a\<lparr>current_behavior := None\<rparr>)"
    using assms(1) by (simp add: transitionTo_CM_def)
  then show ?thesis
    using assms start_next_empty [of "a\<lparr>current_behavior := None\<rparr>"]
    by (auto simp: tick_def checkWarningAlarms_def checkCriticalAlarms_def removeTimedOutBehaviors_def Let_def
        start_next_empty selectNextBehavior_def pop_empty split: option.splits)
qed

lemma tick_critical:
  assumes "current_mode a \<noteq> FAULT"
  shows "tick True w st a = tick False w st (snd (transitionTo_CM FAULT a))"
  using assms by (simp add: tick_def checkCriticalAlarms_def)

lemma tick_critical_FAULT: "current_mode (tick True w st a) = FAULT"
proof (cases "current_mode a = FAULT")
  case True
  then show ?thesis using tick_mode_tick [of a True w st] by (auto simp: tick_mode_def)
next
  case False
  then show ?thesis
    using tick_after_FAULT [of "snd (transitionTo_CM FAULT a)" False w st] by (simp add: tick_critical)
qed

subsection \<open>The alarm manager the arbiter relies on\<close>

text \<open>
  The arbiter asks for \<^verbatim>\<open>hasCriticalAlarm\<close> in every tick. It relies on the answer being true exactly
  when a critical alarm is live; then live critical alarms hold the arbiter in \<^verbatim>\<open>FAULT\<close>.
\<close>

locale critical_alarms =
  fixes has_critical :: "'s \<Rightarrow> bool" and live :: "'s \<Rightarrow> bool" and inv :: "'s \<Rightarrow> bool"
  assumes has_critical_iff: "inv s \<Longrightarrow> has_critical s \<longleftrightarrow> live s"
begin

lemma live_forces_FAULT: "inv s \<Longrightarrow> live s \<Longrightarrow> current_mode (tick (has_critical s) w st a) = FAULT"
  by (simp add: has_critical_iff tick_critical_FAULT)

lemma quiet_keeps_mode:
  "inv s \<Longrightarrow> \<not> live s \<Longrightarrow> isEmpty_bq (pending_behaviors a) \<Longrightarrow> \<not> pending_safe_mode a \<Longrightarrow>
   current_mode (tick (has_critical s) False st a) = current_mode a"
  by (auto simp: has_critical_iff tick_def removeTimedOutBehaviors_def start_next_empty selectNextBehavior_def
      pop_empty Let_def split: option.splits)

end

section \<open>Properties\<close>

text \<open>From its construction on, whatever is requested and whatever the alarms do, the arbiter changes its
  mode only along the transition table. It is never in \<^verbatim>\<open>BOOT\<close> or \<^verbatim>\<open>INIT\<close>.\<close>

theorem arbiter_mode_path:
  "let m = current_mode (run_steps arb_step (BehaviorArbiter store throws) ops) in
   isValidTransition_CM\<^sup>*\<^sup>* STANDBY m \<and> m \<noteq> BOOT \<and> m \<noteq> INIT"
proof -
  have "m \<noteq> BOOT \<and> m \<noteq> INIT" if "isValidTransition_CM\<^sup>*\<^sup>* STANDBY m" for m
    using that
  proof (induction rule: rtranclp_induct)
    case (step m m')
    then show ?case by (cases m; cases m'; simp add: isValidTransition_CM_def)
  qed simp
  moreover have "isValidTransition_CM\<^sup>*\<^sup>* STANDBY (current_mode (run_steps arb_step (BehaviorArbiter store throws) ops))"
    using arb.run_allowed [of "BehaviorArbiter store throws" ops] by (simp add: BehaviorArbiter_def)
  ultimately show ?thesis by (simp add: Let_def)
qed

text \<open>C9. A critical alarm stops everything in the same tick: from any mode but \<^verbatim>\<open>FAULT\<close> the arbiter is in
  \<^verbatim>\<open>FAULT\<close> afterwards, the task that ran was stopped, no task was started, and no request is
  pending or suspended.\<close>

theorem critical_alarm_stops:
  assumes "current_mode a \<noteq> FAULT"
  shows "let a' = tick True warning status a in
    current_mode a' = FAULT \<and> isEmpty_bq (pending_behaviors a') \<and> suspended_behaviors a' = Map.empty \<and>
    task_calls a' = task_calls a @ (case current_behavior a of None \<Rightarrow> [] | Some b \<Rightarrow> [TaskStop (task b)])"
proof -
  let ?a = "snd (transitionTo_CM FAULT a)"
  have "task_calls (stopCurrentTask ''cancel'' a) =
      task_calls a @ (case current_behavior a of None \<Rightarrow> [] | Some b \<Rightarrow> [TaskStop (task b)])"
    by (simp add: stopCurrentTask_def call_task_def split: option.splits)
  then show ?thesis
    using tick_after_FAULT [of ?a False warning status] tick_critical [OF assms, of warning status]
    by simp
qed

definition some_request :: "string \<Rightarrow> Priority \<Rightarrow> behavior_request" where
  "some_request i p = \<lparr>behavior_id = i, priority = p, task = \<lparr>task_address = 0, getId = i\<rparr>, timestamp = 0,
     requester_id = [], cancellable = True, timeout_ms = 0\<rparr>"

definition busy :: "ControlMode \<Rightarrow> behavior_request \<Rightarrow> arbiter" where
  "busy m b = (BehaviorArbiter False (\<lambda>_. False))\<lparr>current_mode := m, current_behavior := Some b\<rparr>"

theorem critical_alarm_stops_witness:
  "current_mode (tick True False RUNNING (busy AUTO (some_request ''t'' NORMAL_TASK))) = FAULT"
  using critical_alarm_stops [of "busy AUTO (some_request ''t'' NORMAL_TASK)" False RUNNING]
  by (simp add: busy_def BehaviorArbiter_def Let_def)

text \<open>\<^verbatim>\<open>FAULT\<close> is latched: whatever is requested, ticked, cancelled, paused or resumed, the mode stays
  \<^verbatim>\<open>FAULT\<close> until somebody asks for the transition to \<^verbatim>\<open>STANDBY\<close>.\<close>

theorem fault_latched:
  assumes "current_mode a = FAULT" and "TransitionTo STANDBY \<notin> set ops"
  shows "current_mode (run_steps arb_step a ops) = FAULT"
  using assms
proof (induction ops arbitrary: a)
  case (Cons e es)
  have "current_mode (arb_step a e) = FAULT"
  proof (cases e)
    case (Tick c w st)
    then show ?thesis using tick_mode_tick [of a c w st] Cons.prems(1) by (auto simp: tick_mode_def)
  qed (use Cons.prems in \<open>auto simp: requestBehavior_def Let_def clearPendingBehaviors_def cancelBehavior_def
      pause_arb_def resume_arb_def call_task_def split: option.splits prod.splits\<close>)
  with Cons show ?case by simp
qed simp

theorem fault_latched_witness:
  "current_mode (run_steps arb_step (busy FAULT (some_request ''t'' NORMAL_TASK))
     [Request (some_request ''u'' EMERGENCY_STOP), Tick False True COMPLETED, TransitionTo AUTO]) = FAULT"
  by (rule fault_latched) (simp_all add: busy_def BehaviorArbiter_def)

text \<open>C32. Preemption. While a task runs, a tick takes the pending request of the highest priority; if it is
  of a higher priority than the running behavior and may preempt, it is started. An emergency
  stop stops the running task, enters \<^verbatim>\<open>FAULT\<close> and drops all other requests; a safety issue or an
  urgent task pauses the running task and keeps its behavior among the suspended ones.\<close>

theorem tick_preempts:
  assumes "\<not> paused a" and "current_behavior a = Some b" and "\<not> finished status"
    and "pop_bq (pending_behaviors a) = Some (r, q)"
    and "priority r < priority b" and "canPreempt (priority r)"
  shows "let a' = tick False False status a in
    current_behavior a' = Some r \<and>
    (if priority r = EMERGENCY_STOP
     then current_mode a' = FAULT \<and> isEmpty_bq (pending_behaviors a') \<and>
          task_calls a' = task_calls a @ [TaskStop (task b), TaskStart (task r)]
     else current_mode a' = current_mode a \<and> pending_behaviors a' = q \<and>
          suspended_behaviors a' = (suspended_behaviors a)(behavior_id b \<mapsto> b) \<and>
          task_calls a' = task_calls a @ [TaskPause (task b), TaskStart (task r)])"
proof -
  let ?a = "a\<lparr>pending_behaviors := q\<rparr>"
  have tick: "tick False False status a = handlePreemption r ?a"
    using assms by (simp add: tick_def removeTimedOutBehaviors_def selectNextBehavior_def shouldPreempt_def)
  consider "priority r = EMERGENCY_STOP" | "priority r = SAFETY_ISSUE"
    | "priority r = URGENT_TASK" "NORMAL_TASK \<le> priority b"
    using assms(5,6) by (cases "priority r"; cases "priority b") (auto simp: canPreempt_def enum_order)
  then show ?thesis
  proof cases
    case 1
    have "task_calls (snd (transitionTo_CM FAULT (stopCurrentTask ''cancel'' (?a\<lparr>preemptions := preemptions ?a + 1\<rparr>)
        \<lparr>current_behavior := None\<rparr>))) = task_calls a @ [TaskStop (task b)]"
      using assms(2) by (simp add: stopCurrentTask_def call_task_def)
    with 1 assms(2) show ?thesis
      unfolding tick by (simp add: handlePreemption_def startTask_def call_task_def Let_def)
  next
    case 2
    with assms(2) show ?thesis
      unfolding tick by (simp add: handlePreemption_def suspend_current_def stopCurrentTask_def startTask_def call_task_def Let_def)
  next
    case 3
    with assms(2) show ?thesis
      unfolding tick by (simp add: handlePreemption_def suspend_current_def stopCurrentTask_def startTask_def call_task_def Let_def)
  qed
qed

theorem tick_preempts_witness:
  "let n = some_request ''n'' NORMAL_TASK; u = some_request ''u'' URGENT_TASK;
       a = (busy AUTO n)\<lparr>pending_behaviors := snd (push_bq u BehaviorPriorityQueue)\<rparr>
   in current_behavior (tick False False RUNNING a) = Some u"
proof -
  let ?n = "some_request ''n'' NORMAL_TASK" and ?u = "some_request ''u'' URGENT_TASK"
  let ?a = "(busy AUTO ?n)\<lparr>pending_behaviors := snd (push_bq ?u BehaviorPriorityQueue)\<rparr>"
  have "isEmpty_bq BehaviorPriorityQueue" by (simp add: BehaviorPriorityQueue_def isEmpty_bq_def no_levels_def)
  then have "pop_bq (pending_behaviors ?a) = Some (?u, BehaviorPriorityQueue)" by (simp add: pop_single)
  moreover have "\<not> paused ?a" "current_behavior ?a = Some ?n" "\<not> finished RUNNING"
      "priority ?u < priority ?n" "canPreempt (priority ?u)"
    by (simp_all add: busy_def BehaviorArbiter_def some_request_def finished_def canPreempt_def enum_order)
  ultimately show ?thesis using tick_preempts [of ?a ?n RUNNING ?u] by (simp add: Let_def)
qed

text \<open>C35. A request that cannot preempt is lost if it is pending while a task runs: the tick removes it
  from the queue and forgets it. After the running task finishes the arbiter is idle and the
  request was never started, although it was accepted.\<close>

theorem request_lost_while_busy:
  assumes "\<not> paused a" and "\<not> pending_safe_mode a" and "current_behavior a = Some b"
    and "isEmpty_bq (pending_behaviors a)"
    and "\<not> (priority r < priority b \<and> canPreempt (priority r))"
    and "\<not> finished running_status" and "finished end_status"
  shows "let a' = run_steps arb_step a
      [Request r, Tick False False running_status, Tick False False end_status] in
    fst (requestBehavior r a) \<and> current_behavior a' = None \<and> isEmpty_bq (pending_behaviors a') \<and>
    suspended_behaviors a' = suspended_behaviors a \<and> task_calls a' = task_calls a"
proof -
  let ?a1 = "snd (requestBehavior r a)"
  let ?a2 = "a\<lparr>total_requests := total_requests a + 1\<rparr>"
  have a1: "?a1 = ?a2\<lparr>pending_behaviors := snd (push_bq r (pending_behaviors a))\<rparr>"
    by (simp add: requestBehavior_def push_bq_def)
  have "tick False False running_status ?a1 = ?a2"
    using assms pop_single [OF assms(4), of r]
    by (auto simp: a1 tick_def removeTimedOutBehaviors_def selectNextBehavior_def shouldPreempt_def)
  moreover have "tick False False end_status ?a2 = ?a2\<lparr>current_behavior := None\<rparr>"
    using assms by (simp add: tick_def removeTimedOutBehaviors_def start_next_empty)
  ultimately show ?thesis using assms(4) by (simp add: requestBehavior_def push_bq_def)
qed

theorem request_lost_while_busy_witness:
  "task_calls (run_steps arb_step (busy AUTO (some_request ''n'' NORMAL_TASK))
     [Request (some_request ''m'' NORMAL_TASK), Tick False False RUNNING, Tick False False COMPLETED]) = []"
  using request_lost_while_busy [of "busy AUTO (some_request ''n'' NORMAL_TASK)" "some_request ''n'' NORMAL_TASK"
      "some_request ''m'' NORMAL_TASK" RUNNING COMPLETED]
  by (simp add: busy_def BehaviorArbiter_def finished_def some_request_def BehaviorPriorityQueue_def
      isEmpty_bq_def no_levels_def Let_def)

text \<open>Suspended behaviors are never resumed: no operation except \<^verbatim>\<open>resume\<close>, which acts on the current
  behavior only, ever resumes a task. A behavior preempted by an urgent task stays suspended
  when the urgent task is done.\<close>

theorem suspended_never_resumed:
  assumes "Resume \<notin> set ops"
  shows "\<exists>cs. task_calls (run_steps arb_step a ops) = task_calls a @ cs \<and> (\<forall>t. TaskResume t \<notin> set cs)"
proof -
  have "no_resume_since a (run_steps arb_step a ops)"
    using assms
  proof (induction ops arbitrary: a)
    case (Cons e es)
    then have "no_resume_since a (arb_step a e)" by (intro no_resume_step) auto
    moreover have "no_resume_since (arb_step a e) (run_steps arb_step (arb_step a e) es)"
      using Cons by simp
    ultimately show ?case by (simp add: no_resume_trans)
  qed simp
  then show ?thesis by (fastforce simp: no_resume_since_def list_all_iff)
qed

theorem suspended_never_resumed_witness:
  "\<exists>cs. task_calls (run_steps arb_step (busy AUTO (some_request ''n'' NORMAL_TASK))
      [Request (some_request ''u'' URGENT_TASK), Tick False False RUNNING, Tick False False COMPLETED]) = cs \<and>
    (\<forall>t. TaskResume t \<notin> set cs)"
  using suspended_never_resumed [of "[Request (some_request ''u'' URGENT_TASK), Tick False False RUNNING,
      Tick False False COMPLETED]" "busy AUTO (some_request ''n'' NORMAL_TASK)"]
  by (simp add: busy_def BehaviorArbiter_def)

text \<open>A warning alarm in \<^verbatim>\<open>AUTO\<close> does not lead to maintenance: \<^verbatim>\<open>MAINT\<close> is not reachable from \<^verbatim>\<open>AUTO\<close>,
  so whatever alarms and requests arrive, ticks leave the mode in \<^verbatim>\<open>AUTO\<close> or \<^verbatim>\<open>FAULT\<close>.\<close>

theorem warning_in_auto_ignored:
  assumes "current_mode a \<in> {AUTO, FAULT}"
    and "list_all (\<lambda>e. case e of Request _ \<Rightarrow> True | Tick _ _ _ \<Rightarrow> True | _ \<Rightarrow> False) ops"
  shows "current_mode (run_steps arb_step a ops) \<in> {AUTO, FAULT}"
  using assms
proof (induction ops arbitrary: a)
  case (Cons e es)
  have "current_mode (arb_step a e) \<in> {AUTO, FAULT}"
  proof (cases e)
    case (Tick c w st)
    then show ?thesis
      using tick_mode_tick [of a c w st] Cons.prems(1) by (auto simp: tick_mode_def isValidTransition_CM_def)
  next
    case (Request r)
    then show ?thesis using Cons.prems(1) by (simp add: requestBehavior_def push_bq_def)
  qed (use Cons.prems(2) in auto)
  moreover have "list_all (\<lambda>e. case e of Request _ \<Rightarrow> True | Tick _ _ _ \<Rightarrow> True | _ \<Rightarrow> False) es"
    using Cons.prems(2) by simp
  ultimately show ?case using Cons.IH by simp
qed simp

theorem warning_in_auto_ignored_witness:
  "current_mode (run_steps arb_step (busy AUTO (some_request ''n'' NORMAL_TASK))
     [Tick False True RUNNING, Tick False True COMPLETED, Tick False True IDLE]) \<in> {AUTO, FAULT}"
  by (rule warning_in_auto_ignored) (simp_all add: busy_def)

end
