(* ===== verification/Alarm_Manager.thy ===== *)
theory Alarm_Manager
  imports Control_Arbiter "HOL-Library.AList"
begin

text \<open>
  The alarm system, under \<^verbatim>\<open>src/src/core/alarm\<close>: \<^verbatim>\<open>dto/AlarmSeverity.h\<close>, \<^verbatim>\<open>dto/AlarmDto.h\<close>,
  \<^verbatim>\<open>impl/Alarm.{h,cpp}\<close>, \<^verbatim>\<open>impl/AlarmConfiguration.{h,cpp}\<close> and \<^verbatim>\<open>impl/AlarmManager.{h,cpp}\<close>.

  The two hash maps that are iterated are association lists with distinct keys; the order of a
  hash map's iteration is unspecified, and no lemma depends on the order of the list. A YAML
  file is given by what the library reports for each field. Events on the bus and writes to the
  data store are recorded; \<open>store_throws\<close> says which keys the store rejects. Clock readings are
  arguments.

  The lemmas show that the statistics count the unresolved alarms, how recurrences escalate
  the severity, and where acknowledgement, equal time stamps and the escalation event go wrong.
\<close>

section \<open>Severities and alarms\<close>

datatype AlarmSeverity = CRITICAL | WARNING | INFO

fun severity_value :: "AlarmSeverity \<Rightarrow> nat" where
  "severity_value CRITICAL = 0"
| "severity_value WARNING = 1"
| "severity_value INFO = 2"

lemma severity_value_inject: "severity_value s = severity_value t \<Longrightarrow> s = t"
  by (cases s; cases t) simp_all

instantiation AlarmSeverity :: linorder
begin

definition less_eq_AlarmSeverity :: "AlarmSeverity \<Rightarrow> AlarmSeverity \<Rightarrow> bool" where
  "less_eq_AlarmSeverity s t \<longleftrightarrow> severity_value s \<le> severity_value t"

definition less_AlarmSeverity :: "AlarmSeverity \<Rightarrow> AlarmSeverity \<Rightarrow> bool" where
  "less_AlarmSeverity s t \<longleftrightarrow> severity_value s < severity_value t"

instance
  by standard (auto simp: less_eq_AlarmSeverity_def less_AlarmSeverity_def dest: severity_value_inject)

end

lemmas [enum_order] = less_eq_AlarmSeverity_def less_AlarmSeverity_def

fun toString_AlarmSeverity :: "AlarmSeverity \<Rightarrow> string" where
  "toString_AlarmSeverity CRITICAL = ''CRITICAL''"
| "toString_AlarmSeverity WARNING = ''WARNING''"
| "toString_AlarmSeverity INFO = ''INFO''"

definition fromString :: "string \<Rightarrow> AlarmSeverity" where
  "fromString str =
    (if str = ''CRITICAL'' then CRITICAL else if str = ''WARNING'' then WARNING
     else if str = ''INFO'' then INFO else INFO)"

definition requiresImmediateAction :: "AlarmSeverity \<Rightarrow> bool" where
  "requiresImmediateAction s \<longleftrightarrow> s = CRITICAL"

datatype AlarmState = ACTIVE | ACKNOWLEDGED | RESOLVED

fun toString_AlarmState :: "AlarmState \<Rightarrow> string" where
  "toString_AlarmState ACTIVE = ''ACTIVE''"
| "toString_AlarmState ACKNOWLEDGED = ''ACKNOWLEDGED''"
| "toString_AlarmState RESOLVED = ''RESOLVED''"

record alarm_dto =
  alarm_id :: string
  alarm_code :: string
  alarm_name :: string
  severity :: AlarmSeverity
  state :: AlarmState
  alarm_timestamp :: time
  details :: "string option"
  alarm_source :: string
  recurrence_count :: u32
  last_recurrence :: "time option"
  acknowledged_time :: "time option"
  acknowledged_by :: "string option"
  resolved_time :: "time option"

definition AlarmDto :: "string \<Rightarrow> string \<Rightarrow> AlarmSeverity \<Rightarrow> string \<Rightarrow> time \<Rightarrow> alarm_dto" where
  "AlarmDto code name sev src now =
    \<lparr>alarm_id = code @ ''_'' @ to_string (tdiv now 1000000), alarm_code = code, alarm_name = name,
     severity = sev, state = ACTIVE, alarm_timestamp = now, details = None, alarm_source = src,
     recurrence_count = 0, last_recurrence = None, acknowledged_time = None,
     acknowledged_by = None, resolved_time = None\<rparr>"

definition isActive :: "alarm_dto \<Rightarrow> bool" where
  "isActive d \<longleftrightarrow> state d = ACTIVE"

definition isResolved :: "alarm_dto \<Rightarrow> bool" where
  "isResolved d \<longleftrightarrow> state d = RESOLVED"

definition setDetails :: "string \<Rightarrow> alarm_dto \<Rightarrow> alarm_dto" where
  "setDetails v d = d\<lparr>details := Some v\<rparr>"

definition acknowledge :: "string \<Rightarrow> time \<Rightarrow> alarm_dto \<Rightarrow> alarm_dto" where
  "acknowledge by_whom now d =
    (if state d = ACTIVE
     then d\<lparr>state := ACKNOWLEDGED, acknowledged_time := Some now, acknowledged_by := Some by_whom\<rparr>
     else d)"

definition resolve :: "time \<Rightarrow> alarm_dto \<Rightarrow> alarm_dto" where
  "resolve now d =
    (if state d \<noteq> RESOLVED then d\<lparr>state := RESOLVED, resolved_time := Some now\<rparr> else d)"

definition recordRecurrence :: "time \<Rightarrow> alarm_dto \<Rightarrow> alarm_dto" where
  "recordRecurrence now d = d\<lparr>recurrence_count := recurrence_count d + 1, last_recurrence := Some now\<rparr>"

definition setRecurrenceCount :: "u32 \<Rightarrow> alarm_dto \<Rightarrow> alarm_dto" where
  "setRecurrenceCount c d = d\<lparr>recurrence_count := c\<rparr>"

definition escalateSeverity :: "AlarmSeverity \<Rightarrow> alarm_dto \<Rightarrow> alarm_dto" where
  "escalateSeverity new d = (if severity d < new then d\<lparr>severity := new\<rparr> else d)"

section \<open>Configuration\<close>

record alarm_config =
  cfg_code :: string
  cfg_name :: string
  cfg_severity :: AlarmSeverity
  description :: string
  recommended_action :: "string option"
  recurrence_window :: int
  recurrence_threshold :: u32
  auto_reset :: bool

record yaml_alarm =
  y_code :: "string json_field"
  y_name :: "string json_field"
  y_severity :: "string json_field"
  y_description :: "string json_field"
  y_action :: "string json_field"
  y_window :: "int json_field"
  y_threshold :: "u32 json_field"
  y_auto_reset :: "bool json_field"

text \<open>The list is \<open>None\<close> when the key is missing or not a sequence.\<close>

record yaml_config =
  y_version :: "string json_field"
  y_alarms :: "yaml_alarm list option"

record alarm_configuration =
  configs :: "(string \<times> alarm_config) list"
  config_file_path :: string

definition AlarmConfiguration :: alarm_configuration where
  "AlarmConfiguration = \<lparr>configs = [], config_file_path = []\<rparr>"

definition parseSeverity :: "string \<Rightarrow> AlarmSeverity" where
  "parseSeverity str =
    (if str = ''CRITICAL'' then CRITICAL else if str = ''WARNING'' then WARNING
     else if str = ''INFO'' then INFO else INFO)"

text \<open>\<open>None\<close>: a required field is missing or a conversion throws.\<close>

definition parseAlarmConfig :: "yaml_alarm \<Rightarrow> alarm_config option" where
  "parseAlarmConfig n =
    do {
      code \<leftarrow> json_get (y_code n);
      name \<leftarrow> json_get (y_name n);
      sev \<leftarrow> json_get (y_severity n);
      desc \<leftarrow> json_value (y_description n) [];
      action \<leftarrow> json_value (case y_action n of Present a \<Rightarrow> Present (Some a) | Absent \<Rightarrow> Absent | BadType \<Rightarrow> BadType) None;
      window \<leftarrow> json_value (y_window n) 60;
      threshold \<leftarrow> json_value (y_threshold n) 3;
      auto \<leftarrow> json_value (y_auto_reset n) False;
      Some \<lparr>cfg_code = code, cfg_name = name, cfg_severity = parseSeverity sev, description = desc,
        recommended_action = action, recurrence_window = window, recurrence_threshold = threshold,
        auto_reset = auto\<rparr>
    }"

text \<open>The loop over the alarms: whether it ran to the end, and the configurations so far.\<close>

fun load_alarms :: "yaml_alarm list \<Rightarrow> (string \<times> alarm_config) list \<Rightarrow> bool \<times> (string \<times> alarm_config) list" where
  "load_alarms [] cs = (True, cs)"
| "load_alarms (n # ns) cs =
    (case parseAlarmConfig n of
       None \<Rightarrow> (False, cs)
     | Some c \<Rightarrow>
         if map_of cs (cfg_code c) \<noteq> None then (False, cs)
         else load_alarms ns (AList.update (cfg_code c) c cs))"

definition loadFromFile_AC ::
    "string \<Rightarrow> yaml_config option \<Rightarrow> alarm_configuration \<Rightarrow> bool \<times> alarm_configuration" where
  "loadFromFile_AC path file c =
    (case file of
       None \<Rightarrow> (False, c)
     | Some y \<Rightarrow>
         (case json_get (y_version y) of
            None \<Rightarrow> (False, c)
          | Some _ \<Rightarrow>
              (case y_alarms y of
                 None \<Rightarrow> (False, c)
               | Some ns \<Rightarrow>
                   (case load_alarms ns [] of
                      (ok, cs) \<Rightarrow>
                        if ok then (True, c\<lparr>configs := cs, config_file_path := path\<rparr>)
                        else (False, c\<lparr>configs := cs\<rparr>)))))"

definition addConfig :: "alarm_config \<Rightarrow> alarm_configuration \<Rightarrow> alarm_configuration" where
  "addConfig cfg c = c\<lparr>configs := AList.update (cfg_code cfg) cfg (configs c)\<rparr>"

definition getAlarmConfig :: "string \<Rightarrow> alarm_configuration \<Rightarrow> alarm_config option" where
  "getAlarmConfig code c = map_of (configs c) code"

definition getAllConfigs :: "alarm_configuration \<Rightarrow> alarm_config list" where
  "getAllConfigs c = map snd (configs c)"

definition hasAlarmConfig :: "string \<Rightarrow> alarm_configuration \<Rightarrow> bool" where
  "hasAlarmConfig code c \<longleftrightarrow> map_of (configs c) code \<noteq> None"

definition shouldEscalateSeverity :: "string \<Rightarrow> u32 \<Rightarrow> alarm_configuration \<Rightarrow> AlarmSeverity" where
  "shouldEscalateSeverity code cnt c =
    (case getAlarmConfig code c of
       None \<Rightarrow> INFO
     | Some cfg \<Rightarrow>
         if recurrence_threshold cfg \<le> cnt
         then (case cfg_severity cfg of INFO \<Rightarrow> WARNING | WARNING \<Rightarrow> CRITICAL | CRITICAL \<Rightarrow> CRITICAL)
         else cfg_severity cfg)"

definition is_digit :: "char \<Rightarrow> bool" where
  "is_digit ch \<longleftrightarrow> 48 \<le> (of_char ch :: nat) \<and> (of_char ch :: nat) \<le> 57"

definition valid_config :: "string \<Rightarrow> alarm_config \<Rightarrow> bool" where
  "valid_config code cfg \<longleftrightarrow>
     length code = 4 \<and> (code ! 0 = CHR ''E'' \<or> code ! 0 = CHR ''W'' \<or> code ! 0 = CHR ''I'') \<and>
     is_digit (code ! 1) \<and> is_digit (code ! 2) \<and> is_digit (code ! 3) \<and> cfg_name cfg \<noteq> []"

definition validate :: "alarm_configuration \<Rightarrow> bool" where
  "validate c \<longleftrightarrow> configs c \<noteq> [] \<and> list_all (\<lambda>(code, cfg). valid_config code cfg) (configs c)"

section \<open>The alarm manager\<close>

datatype alarm_event =
    AlarmRaisedEvent string string AlarmSeverity string string
  | AlarmClearedEvent string string string
  | AlarmEscalatedEvent string string AlarmSeverity AlarmSeverity int

datatype alarm_record = AlarmRecord alarm_dto | ActiveCount int

record alarm_stats =
  total_raised :: u64
  active_count :: u64
  resolved_count :: u64
  critical_count :: u64
  warning_count :: u64
  info_count :: u64

record alarm_manager =
  config :: alarm_configuration
  am_data_store :: bool
  am_store_throws :: "string \<Rightarrow> bool"
  am_event_bus :: bool
  alarms :: "(string \<times> alarm_dto) list"
  last_occurrence :: "string \<Rightarrow> time option"
  recurrence_counts :: "string \<Rightarrow> u32 option"
  alarm_history :: "alarm_dto list"
  stats :: alarm_stats
  stored :: "(string \<times> alarm_record) list"
  published :: "alarm_event list"

definition MAX_HISTORY_SIZE :: nat where
  "MAX_HISTORY_SIZE = 1000"

definition AlarmManager :: "alarm_configuration \<Rightarrow> bool \<Rightarrow> (string \<Rightarrow> bool) \<Rightarrow> bool \<Rightarrow> alarm_manager" where
  "AlarmManager cfg store throws bus =
    \<lparr>config = cfg, am_data_store = store, am_store_throws = throws, am_event_bus = bus, alarms = [],
     last_occurrence = Map.empty, recurrence_counts = Map.empty, alarm_history = [],
     stats = \<lparr>total_raised = 0, active_count = 0, resolved_count = 0, critical_count = 0,
              warning_count = 0, info_count = 0\<rparr>,
     stored = [], published = []\<rparr>"

text \<open>\<^verbatim>\<open>recurrence_count_[code]\<close> inserts 0 for a missing key.\<close>

definition checkRecurrence :: "string \<Rightarrow> time \<Rightarrow> alarm_manager \<Rightarrow> u32 \<times> alarm_manager" where
  "checkRecurrence code now m =
    (let cnt = (case recurrence_counts m code of None \<Rightarrow> 0 | Some c \<Rightarrow> c);
         cnt = (case last_occurrence m code of
                  None \<Rightarrow> 1
                | Some t \<Rightarrow>
                    (case getAlarmConfig code (config m) of
                       None \<Rightarrow> cnt
                     | Some cfg \<Rightarrow>
                         if tdiv (now - t) 1000000000 \<le> recurrence_window cfg then cnt + 1 else 1))
     in (cnt, m\<lparr>recurrence_counts := (recurrence_counts m)(code \<mapsto> cnt),
                last_occurrence := (last_occurrence m)(code \<mapsto> now)\<rparr>))"

definition checkEscalation :: "string \<Rightarrow> u32 \<Rightarrow> alarm_manager \<Rightarrow> AlarmSeverity" where
  "checkEscalation code cnt m = shouldEscalateSeverity code cnt (config m)"

definition push_history :: "alarm_dto \<Rightarrow> alarm_dto list \<Rightarrow> alarm_dto list" where
  "push_history d h = (let h = h @ [d] in if MAX_HISTORY_SIZE < length h then tl h else h)"

fun store_records :: "(string \<times> alarm_record) list \<Rightarrow> alarm_manager \<Rightarrow> alarm_manager" where
  "store_records [] m = m"
| "store_records ((k, v) # ws) m =
    (if am_store_throws m k then m else store_records ws (m\<lparr>stored := stored m @ [(k, v)]\<rparr>))"

definition active_count_int :: "alarm_manager \<Rightarrow> int" where
  "active_count_int m = sint (ucast (active_count (stats m)) :: 32 word)"

definition storeToDataStore :: "alarm_dto \<Rightarrow> alarm_manager \<Rightarrow> alarm_manager" where
  "storeToDataStore d m =
    (if \<not> am_data_store m then m
     else store_records [(''alarm/'' @ alarm_id d, AlarmRecord d),
                         (''alarm/active_count'', ActiveCount (active_count_int m))] m)"

definition publishEvent :: "alarm_dto \<Rightarrow> alarm_manager \<Rightarrow> alarm_manager" where
  "publishEvent d m =
    (if \<not> am_event_bus m then m
     else m\<lparr>published := published m @
       [AlarmRaisedEvent (alarm_id d) (alarm_code d) (severity d) (alarm_name d) (alarm_source d)]\<rparr>)"

definition publishClearEvent :: "string \<Rightarrow> string \<Rightarrow> alarm_manager \<Rightarrow> alarm_manager" where
  "publishClearEvent i ty m =
    (if \<not> am_event_bus m then m
     else m\<lparr>published := published m @ [AlarmClearedEvent i ty ''system'']\<rparr>)"

definition publishEscalateEvent :: "alarm_dto \<Rightarrow> AlarmSeverity \<Rightarrow> alarm_manager \<Rightarrow> alarm_manager" where
  "publishEscalateEvent d old m =
    (if \<not> am_event_bus m then m
     else m\<lparr>published := published m @
       [AlarmEscalatedEvent (alarm_id d) (alarm_code d) old (severity d) (sint (recurrence_count d))]\<rparr>)"

fun count_raised :: "AlarmSeverity \<Rightarrow> alarm_stats \<Rightarrow> alarm_stats" where
  "count_raised CRITICAL st = st\<lparr>critical_count := critical_count st + 1\<rparr>"
| "count_raised WARNING st = st\<lparr>warning_count := warning_count st + 1\<rparr>"
| "count_raised INFO st = st\<lparr>info_count := info_count st + 1\<rparr>"

fun count_resolved :: "AlarmSeverity \<Rightarrow> alarm_stats \<Rightarrow> alarm_stats" where
  "count_resolved CRITICAL st = st\<lparr>critical_count := critical_count st - 1\<rparr>"
| "count_resolved WARNING st = st\<lparr>warning_count := warning_count st - 1\<rparr>"
| "count_resolved INFO st = st\<lparr>info_count := info_count st - 1\<rparr>"

text \<open>\<open>now_rec\<close> is the clock in \<^verbatim>\<open>checkRecurrence\<close>, \<open>now\<close> the one in the constructor of the alarm.\<close>

definition raiseAlarm ::
    "string \<Rightarrow> string \<Rightarrow> string option \<Rightarrow> time \<Rightarrow> time \<Rightarrow> alarm_manager \<Rightarrow> alarm_dto option \<times> alarm_manager" where
  "raiseAlarm code src det now_rec now m =
    (case getAlarmConfig code (config m) of
       None \<Rightarrow> (None, m)
     | Some cfg \<Rightarrow>
         let (recurrence, m) = checkRecurrence code now_rec m;
             base = cfg_severity cfg;
             sev = checkEscalation code recurrence m;
             d = AlarmDto code (cfg_name cfg) sev src now;
             d = (case det of None \<Rightarrow> d | Some v \<Rightarrow> setDetails v d);
             d = setRecurrenceCount recurrence d;
             m = m\<lparr>alarms := AList.update (alarm_id d) d (alarms m)\<rparr>;
             st = stats m;
             st = st\<lparr>total_raised := total_raised st + 1, active_count := active_count st + 1\<rparr>;
             m = m\<lparr>stats := count_raised sev st\<rparr>;
             m = m\<lparr>alarm_history := push_history d (alarm_history m)\<rparr>;
             m = storeToDataStore d m;
             m = (if base < sev \<and> 1 < recurrence then publishEscalateEvent d base m else publishEvent d m)
         in (Some d, m))"

definition getAlarm :: "string \<Rightarrow> alarm_manager \<Rightarrow> alarm_dto option" where
  "getAlarm i m = map_of (alarms m) i"

text \<open>\<^verbatim>\<open>std::sort\<close> with the strict order on severities; a stable sort is one of its results.\<close>

definition getActiveAlarms :: "alarm_manager \<Rightarrow> alarm_dto list" where
  "getActiveAlarms m = sort_key severity (filter isActive (map snd (alarms m)))"

definition getActiveAlarmsBySeverity :: "AlarmSeverity \<Rightarrow> alarm_manager \<Rightarrow> alarm_dto list" where
  "getActiveAlarmsBySeverity s m = filter (\<lambda>d. isActive d \<and> severity d = s) (map snd (alarms m))"

definition getAlarmHistory :: "nat \<Rightarrow> alarm_manager \<Rightarrow> alarm_dto list" where
  "getAlarmHistory limit m =
    (let h = alarm_history m;
         start = (if limit < length h then length h - limit else 0)
     in sort_key (\<lambda>d. - alarm_timestamp d) (rev (drop start h)))"

definition acknowledgeAlarm :: "string \<Rightarrow> string \<Rightarrow> time \<Rightarrow> alarm_manager \<Rightarrow> bool \<times> alarm_manager" where
  "acknowledgeAlarm i by_whom now m =
    (case map_of (alarms m) i of
       None \<Rightarrow> (False, m)
     | Some d \<Rightarrow> (True, m\<lparr>alarms := AList.update i (acknowledge by_whom now d) (alarms m)\<rparr>))"

definition resolveAlarm :: "string \<Rightarrow> time \<Rightarrow> alarm_manager \<Rightarrow> bool \<times> alarm_manager" where
  "resolveAlarm i now m =
    (case map_of (alarms m) i of
       None \<Rightarrow> (False, m)
     | Some d \<Rightarrow>
         if \<not> isActive d then (False, m)
         else
           let d = resolve now d;
               m = m\<lparr>alarms := AList.update i d (alarms m)\<rparr>;
               st = stats m;
               st = st\<lparr>active_count := active_count st - 1, resolved_count := resolved_count st + 1\<rparr>;
               m = m\<lparr>stats := count_resolved (severity d) st\<rparr>;
               m = m\<lparr>alarm_history := push_history d (alarm_history m)\<rparr>;
               m = (if am_data_store m
                    then store_records [(''alarm/active_count'', ActiveCount (active_count_int m))] m
                    else m)
           in (True, publishClearEvent i (alarm_code d) m))"

definition resetAllAlarms :: "time \<Rightarrow> alarm_manager \<Rightarrow> u64 \<times> alarm_manager" where
  "resetAllAlarms now m =
    (let cnt = of_nat (length (filter (\<lambda>x. isActive (snd x)) (alarms m)));
         st = stats m
     in (cnt, m\<lparr>alarms := map (\<lambda>(i, d). (i, if isActive d then resolve now d else d)) (alarms m),
                stats := st\<lparr>active_count := 0, critical_count := 0, warning_count := 0, info_count := 0,
                            resolved_count := resolved_count st + cnt\<rparr>\<rparr>))"

definition hasCriticalAlarm :: "alarm_manager \<Rightarrow> bool" where
  "hasCriticalAlarm m \<longleftrightarrow> 0 < critical_count (stats m)"

definition getStatistics :: "alarm_manager \<Rightarrow> alarm_stats" where
  "getStatistics m = stats m"

datatype alarm_op =
    Raise string string "string option" time time
  | Acknowledge string string time
  | Resolve string time
  | ResetAll time

fun alarm_step :: "alarm_manager \<Rightarrow> alarm_op \<Rightarrow> alarm_manager" where
  "alarm_step m (Raise code src det t1 t2) = snd (raiseAlarm code src det t1 t2 m)"
| "alarm_step m (Acknowledge i who t) = snd (acknowledgeAlarm i who t m)"
| "alarm_step m (Resolve i t) = snd (resolveAlarm i t m)"
| "alarm_step m (ResetAll t) = snd (resetAllAlarms t m)"

section \<open>Lemmas\<close>

subsection \<open>What the helpers leave alone\<close>

lemma store_records_frame [simp]:
  "alarms (store_records ws m) = alarms m"
  "stats (store_records ws m) = stats m"
  "config (store_records ws m) = config m"
  "published (store_records ws m) = published m"
  "recurrence_counts (store_records ws m) = recurrence_counts m"
  "last_occurrence (store_records ws m) = last_occurrence m"
  by (induction ws m rule: store_records.induct) auto

lemma storeToDataStore_frame [simp]:
  "alarms (storeToDataStore d m) = alarms m"
  "stats (storeToDataStore d m) = stats m"
  "config (storeToDataStore d m) = config m"
  "published (storeToDataStore d m) = published m"
  "recurrence_counts (storeToDataStore d m) = recurrence_counts m"
  "last_occurrence (storeToDataStore d m) = last_occurrence m"
  by (simp_all add: storeToDataStore_def)

lemma publish_frame [simp]:
  "alarms (publishEvent d m) = alarms m"
  "stats (publishEvent d m) = stats m"
  "config (publishEvent d m) = config m"
  "recurrence_counts (publishEvent d m) = recurrence_counts m"
  "last_occurrence (publishEvent d m) = last_occurrence m"
  "alarms (publishEscalateEvent d s m) = alarms m"
  "stats (publishEscalateEvent d s m) = stats m"
  "config (publishEscalateEvent d s m) = config m"
  "recurrence_counts (publishEscalateEvent d s m) = recurrence_counts m"
  "last_occurrence (publishEscalateEvent d s m) = last_occurrence m"
  "alarms (publishClearEvent i c m) = alarms m"
  "stats (publishClearEvent i c m) = stats m"
  "config (publishClearEvent i c m) = config m"
  by (simp_all add: publishEvent_def publishEscalateEvent_def publishClearEvent_def)

lemma checkRecurrence_frame [simp]:
  "alarms (snd (checkRecurrence code t m)) = alarms m"
  "stats (snd (checkRecurrence code t m)) = stats m"
  "config (snd (checkRecurrence code t m)) = config m"
  "published (snd (checkRecurrence code t m)) = published m"
  "am_event_bus (snd (checkRecurrence code t m)) = am_event_bus m"
  by (simp_all add: checkRecurrence_def Let_def)

text \<open>The alarm a raise creates.\<close>

definition raised_alarm :: "string \<Rightarrow> string \<Rightarrow> string option \<Rightarrow> time \<Rightarrow> time \<Rightarrow> alarm_config \<Rightarrow> alarm_manager \<Rightarrow> alarm_dto" where
  "raised_alarm code src det t1 t2 cfg m =
    (let cnt = fst (checkRecurrence code t1 m);
         d = AlarmDto code (cfg_name cfg) (shouldEscalateSeverity code cnt (config m)) src t2
     in setRecurrenceCount cnt (case det of None \<Rightarrow> d | Some v \<Rightarrow> setDetails v d))"

abbreviation id_of :: "string \<Rightarrow> time \<Rightarrow> string" where
  "id_of code t \<equiv> code @ ''_'' @ to_string (tdiv t 1000000)"

lemma raised_alarm_fields [simp]:
  "alarm_id (raised_alarm code src det t1 t2 cfg m) = id_of code t2"
  "state (raised_alarm code src det t1 t2 cfg m) = ACTIVE"
  "severity (raised_alarm code src det t1 t2 cfg m) =
     shouldEscalateSeverity code (fst (checkRecurrence code t1 m)) (config m)"
  "recurrence_count (raised_alarm code src det t1 t2 cfg m) = fst (checkRecurrence code t1 m)"
  by (simp_all add: raised_alarm_def setRecurrenceCount_def setDetails_def AlarmDto_def Let_def split: option.splits)

lemma alarm_id_new [simp]:
  "alarm_id (setRecurrenceCount c d) = alarm_id d"
  "alarm_id (setDetails v d) = alarm_id d"
  "alarm_id (AlarmDto code n s src t) = id_of code t"
  by (simp_all add: setRecurrenceCount_def setDetails_def AlarmDto_def)

lemmas raise_defs = raiseAlarm_def case_prod_beta Let_def checkEscalation_def raised_alarm_def

lemma raiseAlarm_result:
  assumes "getAlarmConfig code (config m) = Some cfg"
  shows "fst (raiseAlarm code src det t1 t2 m) = Some (raised_alarm code src det t1 t2 cfg m)"
    and "alarms (snd (raiseAlarm code src det t1 t2 m)) =
      AList.update (id_of code t2) (raised_alarm code src det t1 t2 cfg m) (alarms m)"
    and "config (snd (raiseAlarm code src det t1 t2 m)) = config m"
    and "recurrence_counts (snd (raiseAlarm code src det t1 t2 m)) = recurrence_counts (snd (checkRecurrence code t1 m))"
    and "last_occurrence (snd (raiseAlarm code src det t1 t2 m)) = last_occurrence (snd (checkRecurrence code t1 m))"
  by (simp_all add: raise_defs assms split: option.split)

lemma raiseAlarm_stats:
  assumes "getAlarmConfig code (config m) = Some cfg"
  shows "stats (snd (raiseAlarm code src det t1 t2 m)) =
      count_raised (severity (raised_alarm code src det t1 t2 cfg m))
        ((stats m)\<lparr>total_raised := total_raised (stats m) + 1, active_count := active_count (stats m) + 1\<rparr>)"
  by (simp add: raiseAlarm_def case_prod_beta Let_def checkEscalation_def assms)

lemma raiseAlarm_unknown:
  "getAlarmConfig code (config m) = None \<Longrightarrow> raiseAlarm code src det t1 t2 m = (None, m)"
  by (simp add: raiseAlarm_def)

subsection \<open>The statistics\<close>

definition unresolved :: "AlarmSeverity \<Rightarrow> string \<times> alarm_dto \<Rightarrow> bool" where
  "unresolved s x \<longleftrightarrow> severity (snd x) = s \<and> state (snd x) \<noteq> RESOLVED"

abbreviation unresolved_count :: "AlarmSeverity \<Rightarrow> alarm_manager \<Rightarrow> nat" where
  "unresolved_count s m \<equiv> length (filter (unresolved s) (alarms m))"

fun stat_count :: "AlarmSeverity \<Rightarrow> alarm_stats \<Rightarrow> u64" where
  "stat_count CRITICAL st = critical_count st"
| "stat_count WARNING st = warning_count st"
| "stat_count INFO st = info_count st"

definition am_ok :: "alarm_manager \<Rightarrow> bool" where
  "am_ok m \<longleftrightarrow> distinct (map fst (alarms m)) \<and>
     (\<forall>s. stat_count s (stats m) = of_nat (unresolved_count s m))"

lemma am_ok_new: "am_ok (AlarmManager cfg store throws bus)"
proof -
  have "stat_count s (stats (AlarmManager cfg store throws bus)) = 0" for s
    by (cases s) (simp_all add: AlarmManager_def)
  then show ?thesis by (simp add: am_ok_def AlarmManager_def)
qed

lemma update_fresh: "k \<notin> fst ` set al \<Longrightarrow> AList.update k v al = al @ [(k, v)]"
  by (induction al) auto

lemma length_filter_update:
  assumes "distinct (map fst al)" and "map_of al k = Some v"
  shows "length (filter P (AList.update k v' al)) + (if P (k, v) then 1 else 0) =
    length (filter P al) + (if P (k, v') then 1 else 0)"
  using assms
proof (induction al)
  case (Cons x al)
  show ?case
  proof (cases "fst x = k")
    case True
    then show ?thesis using Cons.prems by (cases x) auto
  next
    case False
    then show ?thesis using Cons by (cases x) (auto split: if_splits)
  qed
qed simp

lemma stat_count_raised [simp]:
  "stat_count s (count_raised s' (st\<lparr>total_raised := a, active_count := b\<rparr>)) =
     stat_count s st + (if s = s' then 1 else 0)"
  by (cases s; cases s') simp_all

lemma stat_count_resolved [simp]:
  "stat_count s (count_resolved s' (st\<lparr>active_count := b, resolved_count := c\<rparr>)) =
     stat_count s st - (if s = s' then 1 else 0)"
  by (cases s; cases s') simp_all

text \<open>
  The operations that keep the statistics exact: a raise must create a new id, and a reset must
  not find an acknowledged alarm.
\<close>

fun good_op :: "alarm_manager \<Rightarrow> alarm_op \<Rightarrow> bool" where
  "good_op m (Raise code src det t1 t2) = (id_of code t2 \<notin> fst ` set (alarms m))"
| "good_op m (ResetAll t) = list_all (\<lambda>x. state (snd x) \<noteq> ACKNOWLEDGED) (alarms m)"
| "good_op m _ = True"

fun good_run :: "alarm_manager \<Rightarrow> alarm_op list \<Rightarrow> bool" where
  "good_run m [] = True"
| "good_run m (e # es) = (good_op m e \<and> good_run (alarm_step m e) es)"

lemma am_ok_raise:
  assumes "am_ok m" and "id_of code t2 \<notin> fst ` set (alarms m)"
  shows "am_ok (snd (raiseAlarm code src det t1 t2 m))"
proof (cases "getAlarmConfig code (config m)")
  case (Some cfg)
  let ?m = "snd (raiseAlarm code src det t1 t2 m)" and ?d = "raised_alarm code src det t1 t2 cfg m"
  have al: "alarms ?m = alarms m @ [(id_of code t2, ?d)]"
    using raiseAlarm_result(2) [OF Some] update_fresh [OF assms(2)] by metis
  have "stat_count s (stats ?m) = of_nat (unresolved_count s ?m)" for s
    using assms(1) by (simp add: raiseAlarm_stats [OF Some] al am_ok_def unresolved_def)
  moreover have "distinct (map fst (alarms ?m))"
    using assms by (simp add: al am_ok_def)
  ultimately show ?thesis by (simp add: am_ok_def)
qed (use assms in \<open>simp add: raiseAlarm_unknown\<close>)

lemma am_ok_acknowledge:
  assumes "am_ok m"
  shows "am_ok (snd (acknowledgeAlarm i who t m))"
proof (cases "map_of (alarms m) i")
  case (Some d)
  let ?m = "snd (acknowledgeAlarm i who t m)"
  have al: "alarms ?m = AList.update i (acknowledge who t d) (alarms m)" and st: "stats ?m = stats m"
    by (simp_all add: acknowledgeAlarm_def Some)
  have "unresolved s (i, acknowledge who t d) = unresolved s (i, d)" for s
    by (simp add: unresolved_def acknowledge_def)
  then have "unresolved_count s ?m = unresolved_count s m" for s
    using length_filter_update [of "alarms m" i d "unresolved s" "acknowledge who t d"] Some assms
    by (simp add: al am_ok_def)
  moreover have "distinct (map fst (alarms ?m))"
    using assms by (simp add: al am_ok_def distinct_update)
  ultimately show ?thesis using assms by (simp add: am_ok_def st)
qed (use assms in \<open>simp add: acknowledgeAlarm_def\<close>)

lemma resolveAlarm_active:
  assumes "map_of (alarms m) i = Some d" and "isActive d"
  shows "fst (resolveAlarm i t m)"
    and "alarms (snd (resolveAlarm i t m)) = AList.update i (resolve t d) (alarms m)"
    and "stats (snd (resolveAlarm i t m)) = count_resolved (severity d)
      ((stats m)\<lparr>active_count := active_count (stats m) - 1, resolved_count := resolved_count (stats m) + 1\<rparr>)"
  using assms by (simp_all add: resolveAlarm_def Let_def resolve_def)

lemma resolveAlarm_inactive:
  "map_of (alarms m) i = Some d \<Longrightarrow> \<not> isActive d \<Longrightarrow> resolveAlarm i t m = (False, m)"
  "map_of (alarms m) i = None \<Longrightarrow> resolveAlarm i t m = (False, m)"
  by (simp_all add: resolveAlarm_def)

lemma am_ok_resolve:
  assumes "am_ok m"
  shows "am_ok (snd (resolveAlarm i t m))"
proof (cases "map_of (alarms m) i")
  case (Some d)
  show ?thesis
  proof (cases "isActive d")
    case True
    let ?m = "snd (resolveAlarm i t m)"
    note r = resolveAlarm_active [OF Some True, of t]
    have "\<not> unresolved s (i, resolve t d)" "unresolved s (i, d) = (s = severity d)" for s
      using True by (auto simp: unresolved_def resolve_def isActive_def)
    then have cnt: "unresolved_count s m = unresolved_count s ?m + (if s = severity d then 1 else 0)" for s
      using length_filter_update [of "alarms m" i d "unresolved s" "resolve t d"] Some assms
      by (simp add: r am_ok_def)
    have "stat_count s (stats ?m) = of_nat (unresolved_count s ?m)" for s
    proof -
      have "stat_count s (stats ?m) = stat_count s (stats m) - (if s = severity d then 1 else 0)"
        by (simp add: r)
      also have "stat_count s (stats m) = of_nat (unresolved_count s m)"
        using assms by (simp add: am_ok_def)
      finally show ?thesis unfolding cnt [of s] by simp
    qed
    moreover have "distinct (map fst (alarms ?m))"
      using assms by (simp add: r am_ok_def distinct_update)
    ultimately show ?thesis by (simp add: am_ok_def)
  qed (use assms Some in \<open>simp add: resolveAlarm_inactive\<close>)
qed (use assms in \<open>simp add: resolveAlarm_inactive\<close>)

lemma am_ok_reset:
  assumes "am_ok m" and "list_all (\<lambda>x. state (snd x) \<noteq> ACKNOWLEDGED) (alarms m)"
  shows "am_ok (snd (resetAllAlarms t m))"
proof -
  let ?m = "snd (resetAllAlarms t m)"
  have al: "alarms ?m = map (\<lambda>(i, d). (i, if isActive d then resolve t d else d)) (alarms m)"
    by (simp add: resetAllAlarms_def Let_def)
  have "\<not> unresolved s (i, if isActive d then resolve t d else d)" if "(i, d) \<in> set (alarms m)" for i d s
    using that assms(2) by (cases "state d") (auto simp: list_all_iff unresolved_def resolve_def isActive_def)
  then have "unresolved_count s ?m = 0" for s
    by (auto simp: al filter_empty_conv)
  moreover have "stat_count s (stats ?m) = 0" for s
    by (cases s) (simp_all add: resetAllAlarms_def Let_def)
  moreover have "map fst (alarms ?m) = map fst (alarms m)" by (simp add: al comp_def case_prod_beta)
  ultimately show ?thesis using assms(1) by (simp add: am_ok_def)
qed

lemma am_ok_step: "am_ok m \<Longrightarrow> good_op m e \<Longrightarrow> am_ok (alarm_step m e)"
  by (cases e) (simp_all add: am_ok_raise am_ok_acknowledge am_ok_resolve am_ok_reset)

lemma am_ok_run: "am_ok m \<Longrightarrow> good_run m es \<Longrightarrow> am_ok (run_steps alarm_step m es)"
  by (induction es arbitrary: m) (auto intro: am_ok_step)

text \<open>The alarm manager is what the arbiter relies on, as long as its statistics are exact.\<close>

lemma hasCritical_unresolved:
  assumes "am_ok m" and "length (alarms m) < 2 ^ 64"
  shows "hasCriticalAlarm m \<longleftrightarrow> list_ex (unresolved CRITICAL) (alarms m)"
proof -
  have "unresolved_count CRITICAL m < 2 ^ LENGTH(64)"
    using le_less_trans [OF length_filter_le assms(2)] by simp
  then have "unat (critical_count (stats m)) = unresolved_count CRITICAL m"
    using assms(1) stat_count.simps(1) [of "stats m"] by (metis am_ok_def unat_of_nat_less)
  then have "hasCriticalAlarm m \<longleftrightarrow> 0 < unresolved_count CRITICAL m"
    by (simp add: hasCriticalAlarm_def word_less_nat_alt)
  then show ?thesis by (auto simp: list_ex_iff filter_empty_conv)
qed

interpretation am: critical_alarms hasCriticalAlarm "\<lambda>m. list_ex (unresolved CRITICAL) (alarms m)"
  "\<lambda>m. am_ok m \<and> length (alarms m) < 2 ^ 64"
  by unfold_locales (simp add: hasCritical_unresolved)

subsection \<open>Acknowledged alarms\<close>

lemma acknowledged_step:
  assumes "map_of (alarms m) i = Some d" and "state d = ACKNOWLEDGED"
    and "\<And>code src det t1 t2. e = Raise code src det t1 t2 \<Longrightarrow> id_of code t2 \<noteq> i"
  shows "map_of (alarms (alarm_step m e)) i = Some d"
proof (cases e)
  case (Raise code src det t1 t2)
  then have "id_of code t2 \<noteq> i" by (rule assms(3))
  with Raise assms(1) show ?thesis
    by (cases "getAlarmConfig code (config m)")
      (simp_all add: raiseAlarm_unknown raiseAlarm_result update_conv)
next
  case (Acknowledge j who t)
  with assms(1,2) show ?thesis
    by (auto simp: acknowledgeAlarm_def acknowledge_def update_conv split: option.splits)
next
  case (Resolve j t)
  with assms(1,2) show ?thesis
    by (cases "map_of (alarms m) j"; cases "isActive (the (map_of (alarms m) j))")
      (auto simp: resolveAlarm_inactive resolveAlarm_active update_conv isActive_def)
next
  case (ResetAll t)
  have "map_of (map (\<lambda>(i, d). (i, if isActive d then resolve t d else d)) xs) i =
      map_option (\<lambda>d. if isActive d then resolve t d else d) (map_of xs i)" for xs
    by (induction xs) auto
  with ResetAll assms(1,2) show ?thesis
    by (simp add: resetAllAlarms_def Let_def isActive_def)
qed

subsection \<open>Escalation\<close>

lemma escalated_le_base:
  "getAlarmConfig code c = Some cfg \<Longrightarrow> shouldEscalateSeverity code cnt c \<le> cfg_severity cfg"
  by (auto simp: shouldEscalateSeverity_def enum_order split: AlarmSeverity.splits)

fun not_escalated :: "alarm_event \<Rightarrow> bool" where
  "not_escalated (AlarmEscalatedEvent _ _ _ _ _) = False"
| "not_escalated _ = True"

lemma raise_not_escalated:
  assumes "list_all not_escalated (published m)"
  shows "list_all not_escalated (published (snd (raiseAlarm code src det t1 t2 m)))"
proof (cases "getAlarmConfig code (config m)")
  case (Some cfg)
  have "\<not> cfg_severity cfg < shouldEscalateSeverity code cnt (config m)" for cnt
    using escalated_le_base [OF Some, of cnt] by simp
  with Some assms show ?thesis
    by (simp add: raiseAlarm_def case_prod_beta Let_def checkEscalation_def publishEvent_def)
qed (use assms in \<open>simp add: raiseAlarm_unknown\<close>)

interpretation am_events: step_system alarm_step "\<lambda>m. list_all not_escalated (published m)"
proof unfold_locales
  fix m :: alarm_manager and e
  assume "list_all not_escalated (published m)"
  then show "list_all not_escalated (published (alarm_step m e))"
    by (cases e) (auto simp: raise_not_escalated acknowledgeAlarm_def resolveAlarm_def resetAllAlarms_def
        publishClearEvent_def Let_def split: option.splits)
qed

text \<open>The counter of a code raised again and again within its window.\<close>

fun raise_all :: "string \<Rightarrow> string \<Rightarrow> (time \<times> time) list \<Rightarrow> alarm_manager \<Rightarrow> alarm_dto option list \<times> alarm_manager" where
  "raise_all code src [] m = ([], m)"
| "raise_all code src ((t1, t2) # ts) m =
    (case raiseAlarm code src None t1 t2 m of
       (d, m) \<Rightarrow> case raise_all code src ts m of (ds, m) \<Rightarrow> (d # ds, m))"

fun escalated :: "AlarmSeverity \<Rightarrow> AlarmSeverity" where
  "escalated INFO = WARNING"
| "escalated WARNING = CRITICAL"
| "escalated CRITICAL = CRITICAL"

lemma shouldEscalate_eq:
  "getAlarmConfig code c = Some cfg \<Longrightarrow> shouldEscalateSeverity code cnt c =
    (if recurrence_threshold cfg \<le> cnt then escalated (cfg_severity cfg) else cfg_severity cfg)"
  by (cases "cfg_severity cfg") (simp_all add: shouldEscalateSeverity_def)

text \<open>Consecutive raises that each fall into the window after the one before.\<close>

fun in_windows :: "int \<Rightarrow> time \<Rightarrow> (time \<times> time) list \<Rightarrow> bool" where
  "in_windows w t [] = True"
| "in_windows w t ((t1, t2) # ts) = (tdiv (t1 - t) 1000000000 \<le> w \<and> in_windows w t1 ts)"

lemma raise_all_counts:
  assumes "getAlarmConfig code (config m) = Some cfg"
    and "last_occurrence m code = Some t" and "recurrence_counts m code = Some (of_nat c)"
    and "in_windows (recurrence_window cfg) t ts" and "c + length ts < 2 ^ 32"
  shows "map (\<lambda>d. map_option (\<lambda>d. (unat (recurrence_count d), severity d)) d) (fst (raise_all code src ts m)) =
    map (\<lambda>k. Some (k, if unat (recurrence_threshold cfg) \<le> k then escalated (cfg_severity cfg) else cfg_severity cfg))
      [Suc c ..< Suc (c + length ts)]"
  using assms
proof (induction ts arbitrary: m t c)
  case (Cons x ts)
  obtain t1 t2 where x: "x = (t1, t2)" by (cases x)
  let ?m = "snd (raiseAlarm code src None t1 t2 m)"
  have rec: "fst (checkRecurrence code t1 m) = of_nat (Suc c)"
    and "recurrence_counts (snd (checkRecurrence code t1 m)) code = Some (of_nat (Suc c))"
    and "last_occurrence (snd (checkRecurrence code t1 m)) code = Some t1"
    using Cons.prems(1-4) by (simp_all add: checkRecurrence_def x Let_def add.commute)
  then have IH: "map (\<lambda>d. map_option (\<lambda>d. (unat (recurrence_count d), severity d)) d) (fst (raise_all code src ts ?m)) =
      map (\<lambda>k. Some (k, if unat (recurrence_threshold cfg) \<le> k then escalated (cfg_severity cfg) else cfg_severity cfg))
        [Suc (Suc c) ..< Suc (Suc c + length ts)]"
    using Cons.prems raiseAlarm_result [OF Cons.prems(1), of src None t1 t2]
    by (intro Cons.IH [where t = t1]) (auto simp: x)
  have u: "unat (of_nat (Suc c) :: u32) = Suc c"
    using Cons.prems(5) by (intro unat_of_nat_less) simp
  have "fst (raiseAlarm code src None t1 t2 m) = Some (raised_alarm code src None t1 t2 cfg m)"
    by (rule raiseAlarm_result(1) [OF Cons.prems(1)])
  moreover have "recurrence_threshold cfg \<le> of_nat (Suc c) \<longleftrightarrow> unat (recurrence_threshold cfg) \<le> Suc c"
    by (simp only: word_le_nat_alt u)
  ultimately show ?case
    using IH u by (simp add: x case_prod_beta rec shouldEscalate_eq [OF Cons.prems(1)] upt_conv_Cons del: upt_Suc of_nat_Suc)
qed simp

section \<open>Properties\<close>

text \<open>C8. The statistics are exact: after any run in which every raise creates a new id and no reset meets
  an acknowledged alarm, the manager reports a critical alarm exactly when it holds a critical
  alarm that is not resolved.\<close>

theorem critical_alarm_exact:
  assumes "good_run (AlarmManager cfg store throws bus) ops"
    and "length (alarms (run_steps alarm_step (AlarmManager cfg store throws bus) ops)) < 2 ^ 64"
  shows "hasCriticalAlarm (run_steps alarm_step (AlarmManager cfg store throws bus) ops) \<longleftrightarrow>
    list_ex (unresolved CRITICAL) (alarms (run_steps alarm_step (AlarmManager cfg store throws bus) ops))"
  using am_ok_run [OF am_ok_new assms(1)] assms(2) by (rule hasCritical_unresolved)

definition sample_config :: "AlarmSeverity \<Rightarrow> alarm_config" where
  "sample_config s = \<lparr>cfg_code = ''E001'', cfg_name = ''stop'', cfg_severity = s, description = [],
     recommended_action = None, recurrence_window = 60, recurrence_threshold = 3, auto_reset = False\<rparr>"

definition sample_manager :: "AlarmSeverity \<Rightarrow> alarm_manager" where
  "sample_manager s =
     AlarmManager \<lparr>configs = [(''E001'', sample_config s)], config_file_path = []\<rparr> False (\<lambda>_. False) True"

lemma sample_lookup [simp]: "getAlarmConfig ''E001'' (config (sample_manager s)) = Some (sample_config s)"
  by (simp add: getAlarmConfig_def sample_manager_def AlarmManager_def)

theorem critical_alarm_exact_witness:
  "hasCriticalAlarm (run_steps alarm_step (sample_manager CRITICAL) [Raise ''E001'' [] None 0 0]) \<longleftrightarrow>
   list_ex (unresolved CRITICAL) (alarms (run_steps alarm_step (sample_manager CRITICAL) [Raise ''E001'' [] None 0 0]))"
proof -
  have "alarms (sample_manager CRITICAL) = []" by (simp add: sample_manager_def AlarmManager_def)
  then have "good_run (sample_manager CRITICAL) [Raise ''E001'' [] None 0 0]"
    and "length (alarms (run_steps alarm_step (sample_manager CRITICAL) [Raise ''E001'' [] None 0 0])) < 2 ^ 64"
    by (simp_all add: raiseAlarm_result)
  then show ?thesis
    unfolding sample_manager_def by (rule critical_alarm_exact)
qed

text \<open>Acknowledging an alarm makes it impossible to resolve: \<^verbatim>\<open>resolveAlarm\<close> accepts only alarms in the state
  \<^verbatim>\<open>ACTIVE\<close>. Whatever happens afterwards, resets included, the alarm stays acknowledged, unless
  the same id is raised again.\<close>

theorem acknowledged_never_resolved:
  assumes "getAlarm i m = Some d" and "state d = ACKNOWLEDGED"
    and "list_all (\<lambda>e. case e of Raise code _ _ _ t \<Rightarrow> id_of code t \<noteq> i | _ \<Rightarrow> True) ops"
  shows "getAlarm i (run_steps alarm_step m ops) = Some d"
  using assms
proof (induction ops arbitrary: m)
  case (Cons e es)
  have "map_of (alarms (alarm_step m e)) i = Some d"
    using Cons.prems by (intro acknowledged_step) (auto simp: getAlarm_def)
  moreover have "list_all (\<lambda>e. case e of Raise code _ _ _ t \<Rightarrow> id_of code t \<noteq> i | _ \<Rightarrow> True) es"
    using Cons.prems(3) by simp
  ultimately show ?case using Cons.IH [of "alarm_step m e"] Cons.prems(2) by (simp add: getAlarm_def)
qed simp

theorem acknowledged_never_resolved_witness:
  "\<exists>d. getAlarm (id_of ''E001'' 0) (run_steps alarm_step (sample_manager CRITICAL)
     [Raise ''E001'' [] None 0 0, Acknowledge (id_of ''E001'' 0) [] 0, Resolve (id_of ''E001'' 0) 0, ResetAll 0]) = Some d \<and>
   state d = ACKNOWLEDGED"
proof -
  let ?m = "alarm_step (alarm_step (sample_manager CRITICAL) (Raise ''E001'' [] None 0 0))
    (Acknowledge (id_of ''E001'' 0) [] 0)"
  let ?r = "raised_alarm ''E001'' [] None 0 0 (sample_config CRITICAL) (sample_manager CRITICAL)"
  have "alarms (sample_manager CRITICAL) = []" by (simp add: sample_manager_def AlarmManager_def)
  then have "getAlarm (id_of ''E001'' 0) ?m = Some (acknowledge [] 0 ?r)"
    by (simp add: getAlarm_def acknowledgeAlarm_def raiseAlarm_result)
  moreover have "state (acknowledge [] 0 ?r) = ACKNOWLEDGED" by (simp add: acknowledge_def)
  ultimately show ?thesis
    using acknowledged_never_resolved [of "id_of ''E001'' 0" ?m "acknowledge [] 0 ?r"
        "[Resolve (id_of ''E001'' 0) 0, ResetAll 0]"]
    by simp
qed

text \<open>Two alarms of a code in the same millisecond share an id, and the second replaces the first in the
  map while both are counted. After resolving that id, no alarm is live but the manager
  still reports a critical alarm.\<close>

theorem same_millisecond_overcounts:
  assumes "getAlarmConfig code cfg = Some c" and "cfg_severity c = CRITICAL"
    and "tdiv t 1000000 = tdiv t' 1000000"
  shows "let m = run_steps alarm_step (AlarmManager cfg store throws bus)
      [Raise code src det s t, Raise code src' det' s' t', Resolve (id_of code t) r] in
    hasCriticalAlarm m \<and> \<not> list_ex (unresolved CRITICAL) (alarms m) \<and> getActiveAlarms m = []"
proof -
  let ?m0 = "AlarmManager cfg store throws bus"
  let ?m1 = "snd (raiseAlarm code src det s t ?m0)"
  let ?m2 = "snd (raiseAlarm code src' det' s' t' ?m1)"
  let ?m3 = "snd (resolveAlarm (id_of code t) r ?m2)"
  have c0: "getAlarmConfig code (config ?m0) = Some c" using assms(1) by (simp add: AlarmManager_def)
  then have c1: "getAlarmConfig code (config ?m1) = Some c" by (simp add: raiseAlarm_result)
  have crit: "shouldEscalateSeverity code n cfg = CRITICAL" for n
    using assms(1,2) by (simp add: shouldEscalateSeverity_def)
  have conf: "config ?m0 = cfg" "config ?m1 = cfg"
    using raiseAlarm_result(3) [OF c0] by (simp_all add: AlarmManager_def)
  define d1 where "d1 = raised_alarm code src det s t c ?m0"
  define d2 where "d2 = raised_alarm code src' det' s' t' c ?m1"
  have d: "severity d1 = CRITICAL" "severity d2 = CRITICAL" "state d2 = ACTIVE"
    by (simp_all add: d1_def d2_def conf crit)
  have fresh: "alarms ?m0 = []" "critical_count (stats ?m0) = 0" by (simp_all add: AlarmManager_def)
  have a2: "alarms ?m2 = [(id_of code t, d2)]"
    using assms(3) by (simp add: raiseAlarm_result [OF c1] raiseAlarm_result [OF c0] d2_def fresh)
  have "critical_count (stats ?m2) = 2"
    using d by (simp add: raiseAlarm_stats [OF c1] raiseAlarm_stats [OF c0] d1_def [symmetric] d2_def [symmetric] fresh)
  moreover have res: "map_of (alarms ?m2) (id_of code t) = Some d2" "isActive d2"
    using d by (simp_all add: a2 isActive_def)
  ultimately have "critical_count (stats ?m3) = 1" "alarms ?m3 = [(id_of code t, resolve r d2)]"
    using d by (simp_all add: resolveAlarm_active [OF res, simplified] a2)
  then show ?thesis
    using d by (simp add: hasCriticalAlarm_def unresolved_def getActiveAlarms_def isActive_def resolve_def Let_def)
qed

theorem same_millisecond_overcounts_witness:
  "hasCriticalAlarm (run_steps alarm_step (sample_manager CRITICAL)
     [Raise ''E001'' [] None 0 0, Raise ''E001'' [] None 0 999999, Resolve (id_of ''E001'' 0) 5])"
  using same_millisecond_overcounts [of "''E001''" "\<lparr>configs = [(''E001'', sample_config CRITICAL)], config_file_path = []\<rparr>"
      "sample_config CRITICAL" 0 999999 False "\<lambda>_. False" True "[]" None 0 "[]" None 0 5]
  by (simp add: getAlarmConfig_def sample_config_def sample_manager_def Let_def)

text \<open>The escalation event is never published: severities are numbered from \<^verbatim>\<open>CRITICAL\<close> = 0, so an
  escalated severity is smaller than the configured one, and the code tests that it is larger.\<close>

theorem escalation_never_published:
  "list_all not_escalated (published (run_steps alarm_step (AlarmManager cfg store throws bus) ops))"
  by (rule am_events.run_inv) (simp add: AlarmManager_def)

text \<open>Recurrence. When a known code is raised again and again, each time within its window after the
  time before, the n-th alarm carries the recurrence count n, and its severity is the
  configured one until the count reaches the threshold and one step higher from then on.\<close>

theorem recurrence_escalates:
  assumes "getAlarmConfig code cfg = Some c"
    and "in_windows (recurrence_window c) t ts" and "Suc (length ts) < 2 ^ 32"
  shows "map (\<lambda>d. map_option (\<lambda>d. (unat (recurrence_count d), severity d)) d)
      (fst (raise_all code src ((t, t') # ts) (AlarmManager cfg store throws bus))) =
    map (\<lambda>k. Some (k, if unat (recurrence_threshold c) \<le> k then escalated (cfg_severity c) else cfg_severity c))
      [1 ..< length ts + 2]"
proof -
  let ?m0 = "AlarmManager cfg store throws bus"
  let ?m1 = "snd (raiseAlarm code src None t t' ?m0)"
  have c0: "getAlarmConfig code (config ?m0) = Some c" using assms(1) by (simp add: AlarmManager_def)
  note r = raiseAlarm_result [OF c0, of src None t t']
  have rec: "checkRecurrence code t ?m0 = (1, ?m0\<lparr>recurrence_counts := [code \<mapsto> 1], last_occurrence := [code \<mapsto> t]\<rparr>)"
    by (simp add: checkRecurrence_def AlarmManager_def)
  have "map (\<lambda>d. map_option (\<lambda>d. (unat (recurrence_count d), severity d)) d) (fst (raise_all code src ts ?m1)) =
      map (\<lambda>k. Some (k, if unat (recurrence_threshold c) \<le> k then escalated (cfg_severity c) else cfg_severity c))
        [Suc 1 ..< Suc (1 + length ts)]"
    using assms(2,3) c0 by (intro raise_all_counts [where t = t]) (simp_all add: r rec)
  moreover have "recurrence_threshold c \<le> 1 \<longleftrightarrow> unat (recurrence_threshold c) \<le> 1"
    by (simp add: word_le_nat_alt)
  ultimately show ?thesis
    using r(1) by (simp add: case_prod_beta rec shouldEscalate_eq [OF c0] upt_conv_Cons del: upt_Suc)
qed

theorem recurrence_escalates_witness:
  "map (\<lambda>d. map_option (\<lambda>d. (unat (recurrence_count d), severity d)) d)
     (fst (raise_all ''E001'' [] [(0, 0), (1, 1), (2, 2)] (sample_manager WARNING))) =
   [Some (1, WARNING), Some (2, WARNING), Some (3, CRITICAL)]"
  using recurrence_escalates [of "''E001''" "\<lparr>configs = [(''E001'', sample_config WARNING)], config_file_path = []\<rparr>"
      "sample_config WARNING" 0 "[(1, 1), (2, 2)]" "[]" 0 False "\<lambda>_. False" True]
  by (simp add: getAlarmConfig_def sample_config_def sample_manager_def upt_rec)

end
