(* ===== verification/Spec2Isabelle.thy ===== *)
theory Spec2Isabelle
  imports HA_StateMachine HA_ProcessMonitor RT_Executive RT_DataStore Event_LockFree Data_Accessors Data_Adapter Task_Scheduling Alarm_Manager
begin

text \<open>
  Verification of MXRC, a robot controller of two processes (a real-time and a non-real-time
  one) in C++, under \<^verbatim>\<open>src/src\<close>. The theories follow its directories.

  \<^bold>\<open>Parts and theories.\<close>

  \<^item> \<open>Mxrc_Prelude\<close>: machine integers, clock readings, runs of operations, and the interfaces
    \<open>step_system\<close> (operations that keep an invariant) and \<open>mode_system\<close> (operations that change a mode
    along a relation).
  \<^item> \<open>HA_StateMachine\<close>: \<^verbatim>\<open>core/ha/HAStateMachine\<close> and \<^verbatim>\<open>RecoveryPolicy\<close>. Failures choose a recovery
    action and a target state. Runs follow the transition table, the attempt counter stays bounded
    and escalates exactly at its maximum, and a policy file is read back as written.
  \<^item> \<open>HA_Checkpoint\<close>: \<^verbatim>\<open>core/ha/StateCheckpoint\<close>, a directory of checkpoint files. Retention drops only
    the oldest files; what is saved is loaded again up to the time stamp.
  \<^item> \<open>HA_Failover\<close>: \<^verbatim>\<open>core/ha/FailoverManager\<close>, which relies on a checkpoint store through the locale
    \<open>checkpoint_provider\<close>. The restart limit is exact and recovery uses the newest checkpoint.
  \<^item> \<open>HA_ProcessMonitor\<close>: \<^verbatim>\<open>core/ha/ProcessMonitor\<close>, whose thread is a sequence of steps interleaved with
    the calls of other threads. It relies on the failover manager through \<open>failover_service\<close>.
  \<^item> \<open>RT_Schedule\<close>, \<open>RT_StateMachine\<close>, \<open>RT_Executive\<close>: \<^verbatim>\<open>core/rt/util/ScheduleCalculator\<close>,
    \<^verbatim>\<open>RTStateMachine\<close> and \<^verbatim>\<open>RTExecutive\<close>. The calculator finds the cycle times, the executive builds its
    slots from them and calls every action in exactly the cycles of its period; the heartbeat check
    drives the state machine.
  \<^item> \<open>RT_DataStore\<close>: \<^verbatim>\<open>core/rt/RTDataStore\<close>, entries of bytes under a sequence lock. Typed round trips, and
    the lock as an interleaving of single memory accesses.
  \<^item> \<open>Control_Queues\<close>, \<open>Control_Arbiter\<close>: \<^verbatim>\<open>core/control/impl\<close>. Both queues implement the locale
    \<open>priority_fifo\<close>, whose specification is a stable sort by priority; the arbiter pops requests, preempts, and
    changes its mode.
  \<^item> \<open>Alarm_Manager\<close>: \<^verbatim>\<open>core/alarm\<close>. The manager implements the locale \<open>critical_alarms\<close> of the arbiter: while
    its statistics are exact, a critical alarm is reported exactly when one is unresolved.
  \<^item> \<open>Priority_Service\<close>: the locale \<open>priority_fifo\<close> and its specification, for the queues of control and events.
  \<^item> \<open>Event_Queue\<close>, \<open>Event_Bus\<close>, \<open>Event_LockFree\<close>: \<^verbatim>\<open>core/event\<close>. The priority queue with its drop policy, expiry and
    coalescing; publishing, subscriptions and dispatch, throttling and coalescing policies; and the two
    ring buffers as interleavings of memory accesses.
  \<^item> \<open>Data_Managers\<close>, \<open>Data_Store\<close>, \<open>Data_Accessors\<close>: \<^verbatim>\<open>core/datastore\<close>. Expiration, recency, access control and logs; the
    store with its types, versions, observers and state files; and the typed accessors on top of it.
  \<^item> \<open>Data_Adapter\<close>: \<^verbatim>\<open>core/event/adapters/DataStoreEventAdapter\<close>, which joins the store and the bus: results that it
    stores are not published back.
  \<^item> \<open>Action_Core\<close>, \<open>Action_Executor\<close>: \<^verbatim>\<open>core/action\<close>. The context, the factory and the two actions, which end under every
    interleaving with cancellations (locale \<open>stepped_action\<close>); the executor as interleaved sections of callers, runners
    and timeout monitors. The events match the runs; an id that is used again gives an old result or a
    deadlock.
  \<^item> \<open>Sequence_Conditions\<close>, \<open>Sequence_Engine\<close>, \<open>Sequence_Runs\<close>: \<^verbatim>\<open>core/sequence\<close>. Definitions, conditions and retry policies; the
    engine over an action service, with requests to cancel, pause and resume at every place where it
    looks at them; and sequences on the executor, through the locale \<open>remembering_service\<close>, whose lemmas give the
    result of a sequence, of a second execution and of a retry.
  \<^item> \<open>Task_Executor\<close>, \<open>Task_Scheduling\<close>: \<^verbatim>\<open>core/task\<close>. What a task reports of its action and its sequence; the monitor, the
    triggers, and the periodic scheduler as interleaved sections of its threads.

  \<^bold>\<open>How the code is read.\<close> A class is a record, an enum a datatype, a method a function from
  its arguments and the object to its result and the new object. Readings of a clock, draws of
  a random source, and the answers of the file system, the YAML and JSON libraries and other
  external code are arguments. Calls that leave the model (callbacks, tasks, published events,
  process restarts) are appended to a log field. Exceptions and early returns are values of
  option or sum types. Integers that the code lets wrap are words.

  \<^bold>\<open>Loops and bounds.\<close> Loops over containers are structural recursion. The loops that may not
  end (slot registration of \<^verbatim>\<open>registerAction\<close>, the retry loop of the getters of the RT data store, and the loop in which a paused
  sequence waits) are
  \<^theory_text>\<open>partial_function (option)\<close>, where \<open>None\<close> is divergence; termination and divergence are both
  proved. The memory model of the sequence lock and of the ring buffers is sequential consistency.

  \<^bold>\<open>Not modelled\<close>: log messages; operating system calls (memory locking, CPU affinity, shared memory,
  sockets, libsystemd); the EtherCAT master library; the vendored stack-trace header; the web front end.
\<close>

section \<open>Properties that span components\<close>

lemma good_run_append:
  "good_run m (xs @ ys) \<longleftrightarrow> good_run m xs \<and> good_run (run_steps alarm_step m xs) ys"
  by (induction xs arbitrary: m) auto

lemma acknowledged_run:
  assumes "getAlarm i m = Some d" and "state d = ACKNOWLEDGED" and "good_run m ops"
  shows "getAlarm i (run_steps alarm_step m ops) = Some d"
  using assms
proof (induction ops arbitrary: m)
  case (Cons e es)
  have "i \<in> fst ` set (alarms m)"
    using Cons.prems(1) by (force simp: getAlarm_def dest: map_of_SomeD)
  then have "id_of code t2 \<noteq> i" if "e = Raise code src det t1 t2" for code src det t1 t2
    using that Cons.prems(3) by auto
  with Cons.prems(1,2) have "map_of (alarms (alarm_step m e)) i = Some d"
    by (intro acknowledged_step) (auto simp: getAlarm_def)
  with Cons show ?case by (simp add: getAlarm_def)
qed simp

text \<open>C10. An operator who acknowledges a critical alarm locks the machine in \<^verbatim>\<open>FAULT\<close>. The alarm cannot be
  resolved any more, so as long as alarms get fresh ids and nobody resets all of them, every later
  tick of the arbiter, from every mode, ends in \<^verbatim>\<open>FAULT\<close>.\<close>

theorem acknowledged_alarm_holds_fault:
  assumes "good_run (AlarmManager cfg store raises bus) (ops @ ops')"
    and "getAlarm i (run_steps alarm_step (AlarmManager cfg store raises bus) ops) = Some d"
    and "state d = ACKNOWLEDGED" and "severity d = CRITICAL"
    and "length (alarms (run_steps alarm_step (AlarmManager cfg store raises bus) (ops @ ops'))) < 2 ^ 64"
  shows "current_mode
    (tick (hasCriticalAlarm (run_steps alarm_step (AlarmManager cfg store raises bus) (ops @ ops'))) w st a) = FAULT"
proof (rule am.live_forces_FAULT)
  let ?new = "AlarmManager cfg store raises bus"
  let ?m = "run_steps alarm_step ?new ops"
  show "am_ok (run_steps alarm_step ?new (ops @ ops')) \<and> length (alarms (run_steps alarm_step ?new (ops @ ops'))) < 2 ^ 64"
    using am_ok_run [OF am_ok_new assms(1)] assms(5) by simp
  have "getAlarm i (run_steps alarm_step ?m ops') = Some d"
    using assms(1) by (intro acknowledged_run [OF assms(2,3)]) (simp add: good_run_append)
  then have "(i, d) \<in> set (alarms (run_steps alarm_step ?new (ops @ ops')))"
    by (simp add: getAlarm_def run_steps_append map_of_SomeD)
  then show "list_ex (unresolved CRITICAL) (alarms (run_steps alarm_step ?new (ops @ ops')))"
    using assms(3,4) by (auto simp: list_ex_iff unresolved_def intro!: bexI [of _ "(i, d)"])
qed

theorem acknowledged_alarm_holds_fault_witness:
  "current_mode
    (tick (hasCriticalAlarm (run_steps alarm_step (sample_manager CRITICAL)
       ([Raise ''E001'' [] None 0 0, Acknowledge (id_of ''E001'' 0) [] 0] @ [Resolve (id_of ''E001'' 0) 1])))
     False TaskStatus.RUNNING (BehaviorArbiter False (\<lambda>_. False))) = FAULT"
proof -
  let ?r = "raised_alarm ''E001'' [] None 0 0 (sample_config CRITICAL) (sample_manager CRITICAL)"
  let ?ops = "[Raise ''E001'' [] None 0 0, Acknowledge (id_of ''E001'' 0) [] 0]"
  have e: "alarms (sample_manager CRITICAL) = []" by (simp add: sample_manager_def AlarmManager_def)
  have a: "alarms (run_steps alarm_step (sample_manager CRITICAL) ?ops) = [(id_of ''E001'' 0, acknowledge [] 0 ?r)]"
    by (simp add: e acknowledgeAlarm_def raiseAlarm_result)
  have sev: "severity (acknowledge [] 0 ?r) = CRITICAL" "state (acknowledge [] 0 ?r) = ACKNOWLEDGED"
    by (simp_all add: acknowledge_def shouldEscalateSeverity_def sample_config_def)
  then have r: "run_steps alarm_step (sample_manager CRITICAL) (?ops @ [Resolve (id_of ''E001'' 0) 1]) =
      run_steps alarm_step (sample_manager CRITICAL) ?ops"
    unfolding run_steps_append by (simp add: resolveAlarm_inactive(1) a [simplified] isActive_def)
  have g: "good_run (sample_manager CRITICAL) (?ops @ [Resolve (id_of ''E001'' 0) 1])" by (simp add: e)
  have l: "getAlarm (id_of ''E001'' 0) (run_steps alarm_step (sample_manager CRITICAL) ?ops) = Some (acknowledge [] 0 ?r)"
    by (simp add: getAlarm_def a [simplified])
  have n: "length (alarms (run_steps alarm_step (sample_manager CRITICAL) (?ops @ [Resolve (id_of ''E001'' 0) 1]))) < 2 ^ 64"
    unfolding r a by simp
  show ?thesis
    using acknowledged_alarm_holds_fault [OF g [unfolded sample_manager_def] l [unfolded sample_manager_def]
      sev(2) [unfolded sample_manager_def] sev(1) [unfolded sample_manager_def] n [unfolded sample_manager_def]]
    unfolding sample_manager_def .
qed

end
